(* ===== verification/Prelude.thy ===== *)
theory Prelude
  imports Main "HOL-Library.Word" "HOL-Library.AList"
begin

unbundle bit_operations_syntax

text \<open>
  Shared vocabulary of the development: the machine integers and byte strings of the Rust
  sources, the three ways a Rust call can end (\<open>Ok\<close>, \<open>Err\<close>, panic), the functions of the
  standard library the sources use on slices and hash maps, and the generic lemmas the
  component theories share.
\<close>

section \<open>Machine integers and byte strings\<close>

type_synonym u8 = "8 word"
type_synonym u64 = "64 word"
type_synonym u256 = "256 word"
type_synonym b256 = "256 word"
type_synonym address = "160 word"
type_synonym bytes = "u8 list"

text \<open>
  \<open>B256\<close> is a 32-byte array. It is kept as one 256-bit word; \<open>b256_slice\<close> is its
  \<open>as_slice()\<close> (most significant byte first) and \<open>b256_from_slice\<close> is
  \<open>B256::from_slice\<close>, which panics unless the slice has 32 bytes. The same layout serves
  \<open>U256::to_be_bytes\<close>.
\<close>

definition b256_slice :: "b256 \<Rightarrow> bytes" where
  "b256_slice d = map (\<lambda>i. ucast (drop_bit (8 * i) d)) (rev [0..<32])"

definition be_word :: "bytes \<Rightarrow> b256" where
  "be_word bs = foldl (\<lambda>a b. push_bit 8 a OR ucast b) 0 bs"

definition b256_from_slice :: "bytes \<Rightarrow> b256 option" where
  "b256_from_slice bs = (if length bs = 32 then Some (be_word bs) else None)"

lemma length_b256_slice [simp]: "length (b256_slice d) = 32"
  by (simp add: b256_slice_def)

lemma be_word_bit:
  "bit (foldl (\<lambda>a b. push_bit 8 a OR ucast b) a bs) n \<longleftrightarrow> n < 256 \<and>
    (if n div 8 < length bs then bit (rev bs ! (n div 8)) (n mod 8)
     else bit a (n - 8 * length bs))"
  for a :: b256 and bs :: bytes
proof (induction bs arbitrary: a n)
  case Nil
  then show ?case by (auto dest: bit_imp_le_length)
next
  case (Cons b bs)
  let ?q = "n div 8" and ?m = "length bs"
  have eq: "bit (foldl (\<lambda>a b. push_bit 8 a OR ucast b) a (b # bs)) n \<longleftrightarrow> n < 256 \<and>
    (if ?q < ?m then bit (rev bs ! ?q) (n mod 8)
     else bit (push_bit 8 a OR (ucast b :: b256)) (n - 8 * ?m))"
    by (simp add: Cons.IH)
  consider (lt) "?q < ?m" | (eqm) "?q = ?m" | (gt) "?m < ?q" by linarith
  then show ?case
  proof cases
    case lt
    then show ?thesis by (subst eq) (simp add: nth_append)
  next
    case eqm
    then have nm: "n - 8 * ?m = n mod 8"
      using div_mult_mod_eq [of n 8] by linarith
    have "\<not> 8 \<le> n mod 8" by (simp add: not_le)
    then have "bit (push_bit 8 a OR (ucast b :: b256)) (n mod 8) = bit b (n mod 8)"
      by (simp add: bit_simps)
    then show ?thesis using eqm nm by (subst eq) (simp add: nth_append)
  next
    case gt
    then have g: "8 + 8 * ?m \<le> n" by linarith
    have "\<not> bit b (n - 8 * ?m)"
      using g by (auto dest: bit_imp_le_length)
    then have "n < 256 \<Longrightarrow> bit (push_bit 8 a OR (ucast b :: b256)) (n - 8 * ?m)
        = bit a (n - (8 + 8 * ?m))"
      using g by (auto simp: bit_simps add.commute)
    then show ?thesis using gt by (subst eq) auto
  qed
qed

lemma be_word_slice [simp]: "be_word (b256_slice d) = d"
proof (rule bit_eqI)
  fix n
  assume "possible_bit TYPE(b256) n"
  then have n: "n < 256" by simp
  then have q: "n div 8 < 32" by simp
  have "bit (be_word (b256_slice d)) n \<longleftrightarrow> bit (rev (b256_slice d) ! (n div 8)) (n mod 8)"
    using n q by (simp add: be_word_def be_word_bit del: length_b256_slice)
      (simp add: b256_slice_def)
  also have "rev (b256_slice d) ! (n div 8) = ucast (drop_bit (8 * (n div 8)) d)"
    using q by (simp add: b256_slice_def rev_map [symmetric] del: upt_rec_numeral)
  also have "bit (ucast (drop_bit (8 * (n div 8)) d) :: u8) (n mod 8) = bit d n"
    by (simp add: bit_simps)
  finally show "bit (be_word (b256_slice d)) n = bit d n" .
qed

lemma b256_from_slice_slice [simp]: "b256_from_slice (b256_slice d) = Some d"
  by (simp add: b256_from_slice_def)

lemma b256_slice_inject [simp]: "b256_slice d = b256_slice e \<longleftrightarrow> d = e"
  by (metis be_word_slice)

section \<open>How a call ends\<close>

text \<open>
  A fallible Rust function returns \<open>Ok\<close> or \<open>Err\<close>, or panics and returns nothing.
  \<open>unwrap_res\<close> and \<open>unwrap_opt\<close> are \<open>unwrap()\<close> and \<open>expect()\<close>: the error value is lost
  and the program panics. \<open>res_bind\<close> is the \<open>?\<close> operator.
\<close>

datatype ('e, 'a) res = Ok 'a | Err 'e | Panic

fun res_bind :: "('e, 'a) res \<Rightarrow> ('a \<Rightarrow> ('e, 'b) res) \<Rightarrow> ('e, 'b) res" where
  "res_bind (Ok x) f = f x"
| "res_bind (Err e) f = Err e"
| "res_bind Panic f = Panic"

fun map_res :: "('a \<Rightarrow> 'b) \<Rightarrow> ('e, 'a) res \<Rightarrow> ('e, 'b) res" where
  "map_res f (Ok x) = Ok (f x)"
| "map_res f (Err e) = Err e"
| "map_res f Panic = Panic"

fun map_err :: "('e \<Rightarrow> 'f) \<Rightarrow> ('e, 'a) res \<Rightarrow> ('f, 'a) res" where
  "map_err f (Ok x) = Ok x"
| "map_err f (Err e) = Err (f e)"
| "map_err f Panic = Panic"

fun unwrap_res :: "('e, 'a) res \<Rightarrow> ('f, 'a) res" where
  "unwrap_res (Ok x) = Ok x"
| "unwrap_res (Err e) = Panic"
| "unwrap_res Panic = Panic"

fun unwrap_opt :: "'a option \<Rightarrow> ('e, 'a) res" where
  "unwrap_opt (Some x) = Ok x"
| "unwrap_opt None = Panic"

fun ok_or :: "'e \<Rightarrow> 'a option \<Rightarrow> ('e, 'a) res" where
  "ok_or e (Some x) = Ok x"
| "ok_or e None = Err e"

lemma res_bind_eq_Ok:
  "res_bind r f = Ok y \<longleftrightarrow> (\<exists>x. r = Ok x \<and> f x = Ok y)"
  by (cases r) auto

lemma map_res_eq_Ok: "map_res f r = Ok y \<longleftrightarrow> (\<exists>x. r = Ok x \<and> y = f x)"
  by (cases r) auto

lemma map_res_eq_cases:
  assumes "map_res f r = map_res f r'"
  obtains (Ok) t u where "r = Ok t" "r' = Ok u" "f t = f u"
    | (Err) e where "r = Err e" "r' = Err e" | (Panic) "r = Panic" "r' = Panic"
  using assms by (cases r; cases r') auto

lemma map_err_eq_Ok: "map_err f r = Ok y \<longleftrightarrow> r = Ok y"
  by (cases r) auto

lemma unwrap_res_eq_Ok: "unwrap_res r = Ok y \<longleftrightarrow> r = Ok y"
  by (cases r) auto

lemma unwrap_opt_eq_Ok: "unwrap_opt r = Ok y \<longleftrightarrow> r = Some y"
  by (cases r) auto

lemma ok_or_eq_Ok: "ok_or e r = Ok y \<longleftrightarrow> r = Some y"
  by (cases r) auto

lemmas res_ok_simps =
  res_bind_eq_Ok map_res_eq_Ok map_err_eq_Ok unwrap_res_eq_Ok unwrap_opt_eq_Ok ok_or_eq_Ok

lemma res_bind_eq_Err:
  "res_bind r f = Err e \<longleftrightarrow> r = Err e \<or> (\<exists>x. r = Ok x \<and> f x = Err e)"
  by (cases r) auto

lemma map_res_eq_Err: "map_res f r = Err e \<longleftrightarrow> r = Err e"
  by (cases r) auto

lemma map_err_eq_Err: "map_err f r = Err e \<longleftrightarrow> (\<exists>x. r = Err x \<and> e = f x)"
  by (cases r) auto

lemma unwrap_res_eq_Err: "unwrap_res r = Err e \<longleftrightarrow> False"
  by (cases r) auto

lemma unwrap_opt_eq_Err: "unwrap_opt r = Err e \<longleftrightarrow> False"
  by (cases r) auto

lemma ok_or_eq_Err: "ok_or d r = Err e \<longleftrightarrow> r = None \<and> e = d"
  by (cases r) auto

lemmas res_err_simps =
  res_bind_eq_Err map_res_eq_Err map_err_eq_Err unwrap_res_eq_Err unwrap_opt_eq_Err ok_or_eq_Err

text \<open>
  A \<open>for\<close> loop whose body can return early: it stops at the first element whose body does
  not end normally.
\<close>

fun res_fold :: "('a \<Rightarrow> 's \<Rightarrow> ('e, 's) res) \<Rightarrow> 'a list \<Rightarrow> 's \<Rightarrow> ('e, 's) res" where
  "res_fold f [] s = Ok s"
| "res_fold f (x # xs) s = res_bind (f x s) (res_fold f xs)"

fun res_map :: "('a \<Rightarrow> ('e, 'b) res) \<Rightarrow> 'a list \<Rightarrow> ('e, 'b list) res" where
  "res_map f [] = Ok []"
| "res_map f (x # xs) = res_bind (f x) (\<lambda>y. map_res (Cons y) (res_map f xs))"

lemma res_fold_append:
  "res_fold f (xs @ ys) s = res_bind (res_fold f xs s) (res_fold f ys)"
proof (induction xs arbitrary: s)
  case (Cons x xs)
  then show ?case by (cases "f x s") auto
qed simp

lemma res_fold_no_Err:
  "(\<And>x s. f x s \<noteq> Err e) \<Longrightarrow> res_fold f xs s \<noteq> Err e"
  by (induction xs arbitrary: s) (simp_all add: res_bind_eq_Err)

lemma res_fold_invariant:
  assumes "res_fold f xs s = Ok s'" and "P s"
    and "\<And>x s t. x \<in> set xs \<Longrightarrow> P s \<Longrightarrow> f x s = Ok t \<Longrightarrow> P t"
  shows "P s'"
  using assms
proof (induction xs arbitrary: s)
  case (Cons x xs)
  from Cons.prems(1) obtain t where t: "f x s = Ok t" "res_fold f xs t = Ok s'"
    by (auto simp: res_bind_eq_Ok)
  have "P t" using Cons.prems(2,3) t(1) by auto
  then show ?case using Cons.IH [OF t(2)] Cons.prems(3) by auto
qed simp

lemma res_map_Ok_iff:
  "res_map f xs = Ok ys \<longleftrightarrow> length ys = length xs \<and> (\<forall>i < length xs. f (xs ! i) = Ok (ys ! i))"
proof (induction xs arbitrary: ys)
  case (Cons x xs)
  show ?case
    by (cases ys) (auto simp: res_ok_simps Cons.IH less_Suc_eq_0_disj)
qed auto

section \<open>Slices\<close>

text \<open>\<open>slice::strip_prefix\<close>.\<close>

fun strip_prefix :: "'a list \<Rightarrow> 'a list \<Rightarrow> 'a list option" where
  "strip_prefix [] ks = Some ks"
| "strip_prefix (p # ps) [] = None"
| "strip_prefix (p # ps) (k # ks) = (if p = k then strip_prefix ps ks else None)"

lemma strip_prefix_Some: "strip_prefix ps ks = Some tail \<longleftrightarrow> ks = ps @ tail"
  by (induction ps ks rule: strip_prefix.induct) auto

lemma strip_prefix_append [simp]: "strip_prefix ps (ps @ tail) = Some tail"
  by (simp add: strip_prefix_Some)

lemma strip_prefix_self [simp]: "strip_prefix ps ps = Some []"
  by (simp add: strip_prefix_Some)

lemma strip_prefix_None: "strip_prefix ps ks = None \<longleftrightarrow> (\<nexists>tail. ks = ps @ tail)"
  using strip_prefix_Some [of ps ks] by (cases "strip_prefix ps ks") auto

lemma strip_prefix_add:
  "strip_prefix (ps @ qs) ks =
    (case strip_prefix ps ks of None \<Rightarrow> None | Some tail \<Rightarrow> strip_prefix qs tail)"
  by (induction ps ks rule: strip_prefix.induct) auto

section \<open>Hash maps\<close>

text \<open>
  A Rust \<open>HashMap\<close> is an association list with distinct keys: \<open>map_of\<close> is \<open>get\<close>,
  \<open>AList.update\<close> is \<open>insert\<close>, and the order of the list is the order in which the map is
  iterated, which the language leaves open. Theorems about loops over a map quantify over
  every such list.
\<close>

type_synonym ('k, 'v) hashmap = "('k \<times> 'v) list"

abbreviation hm_get :: "('k, 'v) hashmap \<Rightarrow> 'k \<Rightarrow> 'v option" where
  "hm_get \<equiv> map_of"

abbreviation hm_insert :: "'k \<Rightarrow> 'v \<Rightarrow> ('k, 'v) hashmap \<Rightarrow> ('k, 'v) hashmap" where
  "hm_insert \<equiv> AList.update"

abbreviation hm_wf :: "('k, 'v) hashmap \<Rightarrow> bool" where
  "hm_wf m \<equiv> distinct (map fst m)"

lemma hm_wf_insert: "hm_wf m \<Longrightarrow> hm_wf (hm_insert k v m)"
  by (rule distinct_update)

lemma hm_get_insert [simp]: "hm_get (hm_insert k v m) = (hm_get m)(k \<mapsto> v)"
  by (simp add: update_conv')

section \<open>Numbers and names as strings\<close>

fun decimal :: "nat \<Rightarrow> string" where
  "decimal n = (if n < 10 then [char_of (48 + n)] else decimal (n div 10) @ [char_of (48 + n mod 10)])"

declare decimal.simps [simp del]

definition lower_char :: "char \<Rightarrow> char" where
  "lower_char c = (let n = of_char c :: nat in if 65 \<le> n \<and> n \<le> 90 then char_of (n + 32) else c)"

definition to_lowercase :: "string \<Rightarrow> string" where
  "to_lowercase s = map lower_char s"

end
