(* ===== verification/Nibbles.thy ===== *)
theory Nibbles
  imports Prelude
begin

unbundle bit_operations_syntax

text \<open>
  The nibble helpers of \<open>crates/mpt/src/mpt.rs\<close>: \<open>to_nibs\<close>, \<open>to_encoded_path\<close>,
  \<open>prefix_nibs\<close> and \<open>lcp\<close>, with the round trips between nibble paths and their
  hex-prefix encoding.
\<close>

section \<open>Definitions\<close>

definition to_nibs :: "bytes \<Rightarrow> u8 list" where
  "to_nibs bs = concat (map (\<lambda>byte. [drop_bit 4 byte, byte AND 0xf]) bs)"

text \<open>\<open>chunks_exact(2)\<close> with each pair packed into one byte.\<close>

fun pack_pairs :: "u8 list \<Rightarrow> bytes" where
  "pack_pairs (a # b # rest) = (push_bit 4 a + b) # pack_pairs rest"
| "pack_pairs _ = []"

definition to_encoded_path :: "u8 list \<Rightarrow> bool \<Rightarrow> bytes" where
  "to_encoded_path nibs is_leaf =
     (let pre = (if is_leaf then 1 else 0) * 0x20 :: u8
      in if odd (length nibs)
         then (pre + (0x10 + hd nibs)) # pack_pairs (tl nibs)
         else pre # pack_pairs nibs)"

text \<open>\<open>prefix_nibs\<close>; \<open>None\<close> is the panic of \<open>split_first().unwrap()\<close> on an empty path.\<close>

definition prefix_nibs :: "bytes \<Rightarrow> u8 list option" where
  "prefix_nibs pre =
     (case pre of
        [] \<Rightarrow> None
      | extension # tail \<Rightarrow>
          (let is_odd = (extension AND push_bit 4 1 \<noteq> 0)
           in Some ((if is_odd then [extension AND 0xf] else []) @
                concat (map (\<lambda>nib. [drop_bit 4 nib, nib AND 0xf]) tail))))"

text \<open>The loop of \<open>lcp\<close>: the index of the first difference of the zipped slices.\<close>

fun lcp_loop :: "nat \<Rightarrow> ('a \<times> 'a) list \<Rightarrow> nat option" where
  "lcp_loop i [] = None"
| "lcp_loop i ((a, b) # rest) = (if a \<noteq> b then Some i else lcp_loop (Suc i) rest)"

definition lcp :: "'a list \<Rightarrow> 'a list \<Rightarrow> nat" where
  "lcp a b = (case lcp_loop 0 (zip a b) of Some i \<Rightarrow> i | None \<Rightarrow> min (length a) (length b))"

section \<open>Nibble lists\<close>

text \<open>A nibble is a byte below 16, and a path is a list of nibbles.\<close>

definition nibbles :: "u8 list \<Rightarrow> bool" where
  "nibbles ns = list_all (\<lambda>n. n < 16) ns"

lemma nibbles_simps [simp]:
  "nibbles []" "nibbles (n # ns) \<longleftrightarrow> n < 16 \<and> nibbles ns"
  "nibbles (ns @ ms) \<longleftrightarrow> nibbles ns \<and> nibbles ms"
  by (auto simp: nibbles_def)

lemma nibbles_take [simp]: "nibbles ns \<Longrightarrow> nibbles (take k ns)"
  and nibbles_drop [simp]: "nibbles ns \<Longrightarrow> nibbles (drop k ns)"
  by (auto simp: nibbles_def list_all_iff dest: in_set_takeD in_set_dropD)

lemma nibbles_nth: "nibbles ns \<Longrightarrow> k < length ns \<Longrightarrow> ns ! k < 16"
  by (simp add: nibbles_def list_all_iff)

lemma nibble_unat: "n < 16 \<Longrightarrow> unat n < 16" for n :: u8
  by (simp add: word_less_nat_alt)

lemma nibble_of_nat: "i < 16 \<Longrightarrow> of_nat i < (16 :: u8)"
  by (simp add: word_less_nat_alt unat_of_nat)

lemma unat_of_nat_nibble [simp]: "i < 16 \<Longrightarrow> unat (of_nat i :: u8) = i"
  by (simp add: unat_of_nat)

lemma low_nibble_less [simp]: "b AND 0xf < 16" for b :: u8
proof -
  have "b AND 0xf \<le> 0xf" by (rule word_and_le1)
  then show ?thesis by (simp add: word_le_nat_alt word_less_nat_alt)
qed

lemma and_15_take_bit: "b AND 0xf = take_bit 4 b" for b :: u8
  by (simp add: take_bit_eq_mask mask_eq_exp_minus_1)

lemma unat_high_nibble: "unat (drop_bit 4 b) = unat b div 16" for b :: u8
  by (simp only: drop_bit_eq_div unat_div) simp

lemma unat_low_nibble: "unat (b AND 0xf) = unat b mod 16" for b :: u8
  by (simp only: and_15_take_bit take_bit_eq_mod unat_mod) simp

lemma high_nibble_less [simp]: "drop_bit 4 b < 16" for b :: u8
  using unsigned_less [of b, where 'a = nat]
  by (simp only: word_less_nat_alt unat_high_nibble) simp

lemma pack_high: "a < 16 \<Longrightarrow> b < 16 \<Longrightarrow> drop_bit 4 (push_bit 4 a + b) = a"
  and pack_low: "a < 16 \<Longrightarrow> b < 16 \<Longrightarrow> (push_bit 4 a + b) AND 0xf = b"
  for a b :: u8
proof -
  assume ab: "a < 16" "b < 16"
  have ua: "unat a < 16" "unat b < 16" using ab by (simp_all add: word_less_nat_alt)
  have u: "unat (push_bit 4 a + b) = 16 * unat a + unat b"
    using ua by (simp add: push_bit_eq_mult unat_word_ariths)
  show "drop_bit 4 (push_bit 4 a + b) = a"
    using ua by (simp add: word_unat_eq_iff unat_high_nibble u)
  show "(push_bit 4 a + b) AND 0xf = b"
    using ua by (simp only: word_unat_eq_iff unat_low_nibble u) simp
qed

lemma nibble_cases:
  "n < 16 \<Longrightarrow> n \<in> {0, 1, 2, 3, 4, 5, 6, 7, 8, 9, 10, 11, 12, 13, 14, 15}" for n :: u8
proof -
  assume "n < 16"
  then have "unat n < 16" by (rule nibble_unat)
  then have "unat n \<in> {0, 1, 2, 3, 4, 5, 6, 7, 8, 9, 10, 11, 12, 13, 14, 15}"
    by (simp only: insert_iff empty_iff) presburger
  then show ?thesis by (auto simp: word_unat_eq_iff)
qed

section \<open>Round trips of the encoded path\<close>

lemma unpack_pack_pairs:
  "even (length ns) \<Longrightarrow> nibbles ns \<Longrightarrow>
    concat (map (\<lambda>nib. [drop_bit 4 nib, nib AND 0xf]) (pack_pairs ns)) = ns"
  by (induction ns rule: pack_pairs.induct) (auto simp: pack_high pack_low)

lemma nibbles_unpack [simp]:
  "nibbles (concat (map (\<lambda>nib. [drop_bit 4 nib, nib AND 0xf]) bs))"
  by (induction bs) auto

lemma length_pack_pairs: "length (pack_pairs ns) = length ns div 2"
  by (induction ns rule: pack_pairs.induct) auto

lemma pack_unpack_byte: "push_bit 4 (drop_bit 4 b) + (b AND 0xf) = b" for b :: u8
  by (simp only: and_15_take_bit bits_ident)

lemma pack_unpack_pairs:
  "pack_pairs (concat (map (\<lambda>nib. [drop_bit 4 nib, nib AND 0xf]) bs)) = bs"
  by (induction bs) (auto simp: pack_unpack_byte)

lemma odd_flag_byte:
  assumes "n < 16"
  shows "((if l then 1 else 0) * 0x20 + (0x10 + n)) AND push_bit 4 1 \<noteq> (0 :: u8)"
    and "((if l then 1 else 0) * 0x20 + (0x10 + n)) AND 0xf = (n :: u8)"
    and "((if l then 1 else 0) * 0x20 + (0x10 + n)) AND push_bit 4 2 = (if l then 0x20 else 0 :: u8)"
  using nibble_cases [OF assms] by (auto simp: push_bit_eq_mult)

lemma prefix_nibs_encoded:
  assumes "nibbles ns"
  shows "prefix_nibs (to_encoded_path ns leaf) = Some ns"
proof (cases "odd (length ns)")
  case True
  then obtain n ms where ns: "ns = n # ms" by (cases ns) auto
  with True have "even (length ms)" by simp
  then show ?thesis
    using assms True odd_flag_byte(1,2) [of n leaf]
    by (simp add: ns to_encoded_path_def prefix_nibs_def Let_def unpack_pack_pairs)
next
  case False
  then show ?thesis
    using assms by (simp add: to_encoded_path_def prefix_nibs_def Let_def unpack_pack_pairs)
qed

lemma encoded_path_leaf_flag:
  assumes "nibbles ns"
  shows "\<exists>b bs. to_encoded_path ns leaf = b # bs \<and> (b AND push_bit 4 2 \<noteq> 0 \<longleftrightarrow> leaf)"
proof (cases "odd (length ns)")
  case True
  then obtain n ms where ns: "ns = n # ms" by (cases ns) auto
  then show ?thesis
    using assms True odd_flag_byte(3) [of n leaf]
    by (simp add: to_encoded_path_def Let_def split: if_splits)
next
  case False
  then show ?thesis by (simp add: to_encoded_path_def Let_def push_bit_eq_mult)
qed

lemma prefix_nibs_nibbles: "prefix_nibs p = Some ns \<Longrightarrow> nibbles ns"
  by (auto simp: prefix_nibs_def Let_def split: list.splits if_splits)

section \<open>The path codec as an interface\<close>

text \<open>
  What the trie operations rely on: a path that was encoded reads back as the same nibbles,
  decoded paths are nibbles, and the leaf flag (bit 5 of the first byte, the bit tested by
  the node decoder) tells leaves from extensions.
\<close>

locale path_codec =
  fixes enc :: "u8 list \<Rightarrow> bool \<Rightarrow> bytes"
    and dec :: "bytes \<Rightarrow> u8 list option"
  assumes dec_enc: "nibbles ns \<Longrightarrow> dec (enc ns leaf) = Some ns"
    and dec_nibbles: "dec p = Some ns \<Longrightarrow> nibbles ns"
    and enc_flag: "nibbles ns \<Longrightarrow> \<exists>b bs. enc ns leaf = b # bs \<and> (b AND push_bit 4 2 \<noteq> 0 \<longleftrightarrow> leaf)"
begin

lemma enc_inject:
  assumes "nibbles ns" and "nibbles ms"
  shows "enc ns l = enc ms l' \<longleftrightarrow> ns = ms \<and> l = l'"
proof
  assume eq: "enc ns l = enc ms l'"
  have "ns = ms" using dec_enc [OF assms(1), of l] dec_enc [OF assms(2), of l'] eq by simp
  moreover have "l = l'"
    using enc_flag [OF assms(1), of l] enc_flag [OF assms(2), of l'] eq by auto
  ultimately show "ns = ms \<and> l = l'" by simp
qed simp

lemma enc_nonempty: "nibbles ns \<Longrightarrow> enc ns l \<noteq> []"
  using enc_flag [of ns l] by auto

lemma enc_dec_fixed: "nibbles ns \<Longrightarrow> p = enc ns l \<Longrightarrow> dec p = Some ns \<and> enc (the (dec p)) l = p"
  by (simp add: dec_enc)

end

interpretation hp: path_codec to_encoded_path prefix_nibs
  by unfold_locales (fact prefix_nibs_encoded prefix_nibs_nibbles encoded_path_leaf_flag)+

text \<open>
  A canonical stored path: re-encoding the decoded nibbles gives the same bytes. The node
  decoder accepts others (any upper flag bits, any low nibble under an even flag).
\<close>

definition valid_path :: "bool \<Rightarrow> bytes \<Rightarrow> bool" where
  "valid_path leaf p =
     (case prefix_nibs p of None \<Rightarrow> False | Some ns \<Rightarrow> to_encoded_path ns leaf = p)"

lemma valid_path_encoded [simp]: "nibbles ns \<Longrightarrow> valid_path l (to_encoded_path ns l)"
  by (simp add: valid_path_def hp.dec_enc)

lemma valid_pathE:
  assumes "valid_path l p"
  obtains ns where "nibbles ns" "prefix_nibs p = Some ns" "p = to_encoded_path ns l"
  using assms by (auto simp: valid_path_def dest: hp.dec_nibbles split: option.splits)

section \<open>\<open>to_nibs\<close>\<close>

lemma to_nibs_simps [simp]:
  "to_nibs [] = []" "to_nibs (b # bs) = drop_bit 4 b # (b AND 0xf) # to_nibs bs"
  by (simp_all add: to_nibs_def)

lemma nibbles_to_nibs [simp]: "nibbles (to_nibs bs)"
  by (simp add: to_nibs_def)

lemma length_to_nibs [simp]: "length (to_nibs bs) = 2 * length bs"
  by (induction bs) auto

lemma pack_to_nibs [simp]: "pack_pairs (to_nibs bs) = bs"
  by (simp add: to_nibs_def pack_unpack_pairs)

lemma to_nibs_inject [simp]: "to_nibs bs = to_nibs cs \<longleftrightarrow> bs = cs"
  by (metis pack_to_nibs)

section \<open>\<open>lcp\<close>\<close>

lemma lcp_loop_shift: "lcp_loop (k + i) ps = map_option ((+) k) (lcp_loop i ps)"
  by (induction i ps rule: lcp_loop.induct) auto

lemma lcp_simps [simp]:
  "lcp [] bs = 0" "lcp as [] = 0"
  "lcp (a # as) (b # bs) = (if a = b then Suc (lcp as bs) else 0)"
  using lcp_loop_shift [of 1 0 "zip as bs"]
  by (auto simp: lcp_def split: option.splits)

lemma lcp_le: "lcp as bs \<le> length as" "lcp as bs \<le> length bs"
  by (induction as arbitrary: bs; case_tac bs; simp)+

lemma lcp_take: "take (lcp as bs) as = take (lcp as bs) bs"
proof (induction as arbitrary: bs)
  case (Cons a as)
  then show ?case by (cases bs) auto
qed simp

lemma lcp_differ:
  "lcp as bs < length as \<Longrightarrow> lcp as bs < length bs \<Longrightarrow> as ! lcp as bs \<noteq> bs ! lcp as bs"
proof (induction as arbitrary: bs)
  case (Cons a as)
  then show ?case by (cases bs) auto
qed simp

lemma lcp_split:
  assumes "lcp as bs < length as" and "lcp as bs < length bs"
  obtains ps x xs y ys where
    "as = ps @ x # xs" "bs = ps @ y # ys" "x \<noteq> y" "length ps = lcp as bs"
proof
  let ?c = "lcp as bs"
  show "as = take ?c as @ as ! ?c # drop (Suc ?c) as" using assms(1) by (rule id_take_nth_drop)
  show "bs = take ?c as @ bs ! ?c # drop (Suc ?c) bs"
    using id_take_nth_drop [OF assms(2)] by (simp only: lcp_take [of as bs])
  show "as ! ?c \<noteq> bs ! ?c" using assms by (rule lcp_differ)
  show "length (take ?c as) = ?c" using assms(1) by simp
qed

lemma lcp_prefix: "lcp as (as @ bs) = length as"
  by (induction as) auto

lemma lcp_full: "lcp as bs = length as \<Longrightarrow> bs = as @ drop (length as) bs"
  using lcp_take [of as bs] by (metis append_take_drop_id take_all_iff order_refl)

lemma lcp_full': "lcp as bs = length bs \<Longrightarrow> as = bs @ drop (length bs) as"
  using lcp_take [of as bs] by (metis append_take_drop_id take_all_iff order_refl)

end
