(* ===== verification/Mpt_Node.thy ===== *)
theory Mpt_Node
  imports Nibbles
begin

text \<open>
  The sparse Merkle Patricia trie of \<open>crates/mpt/src/mpt.rs\<close>: its nodes, and \<open>get\<close>,
  \<open>insert\<close>, \<open>delete\<close>, \<open>clear\<close>, \<open>size\<close> and the small readers of a node. A node carries its
  data and the cached reference that \<open>reference()\<close> fills; every mutation is a function from
  the old node to the new node and the call's result, so what an operation leaves behind on
  an error or on \<open>Ok(false)\<close> is part of the model.
\<close>

section \<open>Nodes and errors\<close>

text \<open>\<open>MptNodeData\<close>, over the type of its children.\<close>

datatype 'n node_data =
    Null
  | Branch "'n option list"
  | Leaf bytes bytes
  | Extension bytes 'n
  | Digest b256

text \<open>\<open>MptNodeReference\<close>.\<close>

datatype mpt_ref = RefBytes bytes | RefDigest b256

text \<open>\<open>MptNode\<close>: the data and the cached reference.\<close>

datatype mpt = MptNode (data: "mpt node_data") (cached_reference: "mpt_ref option")

text \<open>
  \<open>mpt::Error\<close>. The two payloads that come from RLP crates are kept as tagged strings,
  except for the variants the source itself builds.
\<close>

datatype rlp_error = RlpError string
datatype decoder_error = RlpIncorrectListLen | CustomDecoderError string | OtherDecoderError string

datatype mpt_error =
    NodeNotResolved b256
  | ValueInBranch
  | RlpErr rlp_error
  | LegacyRlp decoder_error

text \<open>\<open>From<MptNodeData> for MptNode\<close>, and \<open>MptNode::default()\<close>.\<close>

definition node_of :: "mpt node_data \<Rightarrow> mpt" where
  "node_of value = MptNode value None"

definition mpt_default :: mpt where
  "mpt_default = node_of Null"

definition clear :: "mpt \<Rightarrow> mpt" where
  "clear self = MptNode Null None"

definition is_empty :: "mpt \<Rightarrow> bool" where
  "is_empty self = (case data self of Null \<Rightarrow> True | _ \<Rightarrow> False)"

definition is_digest :: "mpt \<Rightarrow> bool" where
  "is_digest self = (case data self of Digest _ \<Rightarrow> True | _ \<Rightarrow> False)"

definition is_branch :: "mpt \<Rightarrow> bool" where
  "is_branch self = (case data self of Branch _ \<Rightarrow> True | _ \<Rightarrow> False)"

text \<open>\<open>nibs\<close>; \<open>None\<close> is the panic of \<open>prefix_nibs\<close> on an empty stored path.\<close>

definition nibs :: "mpt \<Rightarrow> u8 list option" where
  "nibs self = (case data self of
      Null \<Rightarrow> Some [] | Branch _ \<Rightarrow> Some [] | Digest _ \<Rightarrow> Some []
    | Leaf pre _ \<Rightarrow> prefix_nibs pre
    | Extension pre _ \<Rightarrow> prefix_nibs pre)"

section \<open>Recursion through a branch\<close>

lemma size_child_list:
  "Some n \<in> set cs \<Longrightarrow> size n < Suc (size_list (size_option size) cs + k)"
  by (induction cs) auto

lemma size_child_nth [termination_simp]:
  "cs ! i = Some n \<Longrightarrow> i < length cs \<Longrightarrow> size n < Suc (size_list (size_option size) cs)"
  using size_child_list [of n cs 0] nth_mem [of i cs] by simp

lemma size_child_set [termination_simp]:
  "Some n \<in> set cs \<Longrightarrow> size n < Suc (size_list (size_option size) cs)"
  using size_child_list [of n cs 0] by simp

lemma size_child_data [termination_simp]:
  "n \<in> set_node_data d \<Longrightarrow> size n < Suc (size_node_data size d)"
  by (cases d) (auto dest!: size_child_set intro: less_SucI)

section \<open>\<open>get\<close>\<close>

text \<open>
  \<open>get_internal\<close>: indexing a branch with a value of 16 or more is the out-of-bounds panic
  of \<open>nodes[*i as usize]\<close>.
\<close>

fun get_internal :: "mpt \<Rightarrow> u8 list \<Rightarrow> (mpt_error, bytes option) res" where
  "get_internal (MptNode Null c) key_nibs = Ok None"
| "get_internal (MptNode (Branch nodes) c) key_nibs =
    (case key_nibs of
       i # tail \<Rightarrow>
        (if unat i < length nodes
         then (case nodes ! unat i of
                 Some node \<Rightarrow> get_internal node tail
               | None \<Rightarrow> Ok None)
         else Panic)
     | [] \<Rightarrow> Ok None)"
| "get_internal (MptNode (Leaf pre value) c) key_nibs =
    (case prefix_nibs pre of
       None \<Rightarrow> Panic
     | Some self_nibs \<Rightarrow> if self_nibs = key_nibs then Ok (Some value) else Ok None)"
| "get_internal (MptNode (Extension pre node) c) key_nibs =
    (case prefix_nibs pre of
       None \<Rightarrow> Panic
     | Some self_nibs \<Rightarrow>
        (case strip_prefix self_nibs key_nibs of
           Some tail \<Rightarrow> get_internal node tail
         | None \<Rightarrow> Ok None))"
| "get_internal (MptNode (Digest digest) c) key_nibs = Err (NodeNotResolved digest)"

definition get :: "mpt \<Rightarrow> bytes \<Rightarrow> (mpt_error, bytes option) res" where
  "get self key = get_internal self (to_nibs key)"

text \<open>\<open>get_rlp\<close>, over the value decoder of the caller's type.\<close>

definition get_rlp :: "(bytes \<Rightarrow> (rlp_error, 'v) res) \<Rightarrow> mpt \<Rightarrow> bytes \<Rightarrow> (mpt_error, 'v option) res" where
  "get_rlp dec self key =
     res_bind (get self key) (\<lambda>found. case found of
        Some bs \<Rightarrow> map_res Some (map_err RlpErr (dec bs))
      | None \<Rightarrow> Ok None)"

section \<open>\<open>insert\<close>\<close>

text \<open>
  The two branches that split a path build \<open>[None; 16]\<close>, store the old node and the new
  leaf (indexing panics on 16 or more), and put an extension above the branch when the
  paths share a prefix.
\<close>

definition split_children :: "u8 \<Rightarrow> mpt \<Rightarrow> u8 \<Rightarrow> mpt \<Rightarrow> mpt option list option" where
  "split_children i old j new =
     (if unat i < 16 \<and> unat j < 16
      then Some ((replicate 16 None)[unat i := Some old, unat j := Some new])
      else None)"

definition split_node :: "u8 list \<Rightarrow> mpt option list \<Rightarrow> mpt node_data" where
  "split_node common children =
     (if 0 < length common
      then Extension (to_encoded_path common False) (node_of (Branch children))
      else Branch children)"

fun insert_internal :: "mpt \<Rightarrow> u8 list \<Rightarrow> bytes \<Rightarrow> mpt \<times> (mpt_error, bool) res" where
  "insert_internal (MptNode Null c) key_nibs value =
     (MptNode (Leaf (to_encoded_path key_nibs True) value) None, Ok True)"
| "insert_internal (MptNode (Branch children) c) key_nibs value =
    (case key_nibs of
       i # tail \<Rightarrow>
        (if unat i < length children
         then (case children ! unat i of
                 Some node \<Rightarrow>
                  (case insert_internal node tail value of
                     (node', Ok True) \<Rightarrow>
                       (MptNode (Branch (children[unat i := Some node'])) None, Ok True)
                   | (node', r) \<Rightarrow>
                       (MptNode (Branch (children[unat i := Some node'])) c, r))
               | None \<Rightarrow>
                  (MptNode (Branch (children[unat i :=
                      Some (node_of (Leaf (to_encoded_path tail True) value))])) None, Ok True))
         else (MptNode (Branch children) c, Panic))
     | [] \<Rightarrow> (MptNode (Branch children) c, Err ValueInBranch))"
| "insert_internal (MptNode (Leaf pre old_value) c) key_nibs value =
    (case prefix_nibs pre of
       None \<Rightarrow> (MptNode (Leaf pre old_value) c, Panic)
     | Some self_nibs \<Rightarrow>
        (let common_len = lcp self_nibs key_nibs
         in if common_len = length self_nibs \<and> common_len = length key_nibs
            then (if old_value = value
                  then (MptNode (Leaf pre old_value) c, Ok False)
                  else (MptNode (Leaf pre value) None, Ok True))
            else if common_len = length self_nibs \<or> common_len = length key_nibs
            then (MptNode (Leaf pre old_value) c, Err ValueInBranch)
            else (let split_point = common_len + 1
                  in case split_children
                       (self_nibs ! common_len)
                       (node_of (Leaf (to_encoded_path (drop split_point self_nibs) True) old_value))
                       (key_nibs ! common_len)
                       (node_of (Leaf (to_encoded_path (drop split_point key_nibs) True) value)) of
                       None \<Rightarrow> (MptNode (Leaf pre old_value) c, Panic)
                     | Some children \<Rightarrow>
                         (MptNode (split_node (take common_len self_nibs) children) None, Ok True))))"
| "insert_internal (MptNode (Extension pre existing_child) c) key_nibs value =
    (case prefix_nibs pre of
       None \<Rightarrow> (MptNode (Extension pre existing_child) c, Panic)
     | Some self_nibs \<Rightarrow>
        (let common_len = lcp self_nibs key_nibs
         in if common_len = length self_nibs
            then (case insert_internal existing_child (drop common_len key_nibs) value of
                    (child', Ok True) \<Rightarrow> (MptNode (Extension pre child') None, Ok True)
                  | (child', r) \<Rightarrow> (MptNode (Extension pre child') c, r))
            else if common_len = length key_nibs
            then (MptNode (Extension pre existing_child) c, Err ValueInBranch)
            else (let split_point = common_len + 1
                  in case split_children
                       (self_nibs ! common_len)
                       (if split_point < length self_nibs
                        then node_of (Extension
                               (to_encoded_path (drop split_point self_nibs) False) existing_child)
                        else existing_child)
                       (key_nibs ! common_len)
                       (node_of (Leaf (to_encoded_path (drop split_point key_nibs) True) value)) of
                       None \<Rightarrow> (MptNode (Extension pre existing_child) c, Panic)
                     | Some children \<Rightarrow>
                         (MptNode (split_node (take common_len self_nibs) children) None, Ok True))))"
| "insert_internal (MptNode (Digest digest) c) key_nibs value =
     (MptNode (Digest digest) c, Err (NodeNotResolved digest))"

definition insert :: "mpt \<Rightarrow> bytes \<Rightarrow> bytes \<Rightarrow> mpt \<times> (mpt_error, bool) res" where
  "insert self key value =
     (if value = [] then (self, Panic) else insert_internal self (to_nibs key) value)"

text \<open>\<open>insert_rlp\<close>, over the encoder (\<open>to_rlp\<close>) of the caller's value type.\<close>

definition insert_rlp :: "('v \<Rightarrow> bytes) \<Rightarrow> mpt \<Rightarrow> bytes \<Rightarrow> 'v \<Rightarrow> mpt \<times> (mpt_error, bool) res" where
  "insert_rlp to_rlp self key value = insert_internal self (to_nibs key) (to_rlp value)"

section \<open>\<open>delete\<close>\<close>

text \<open>
  \<open>children.iter_mut().enumerate().filter(|(_, n)| n.is_some())\<close>: the occupied slots of a
  branch with their indices.
\<close>

fun occupied :: "nat \<Rightarrow> 'a option list \<Rightarrow> (nat \<times> 'a) list" where
  "occupied i [] = []"
| "occupied i (None # cs) = occupied (Suc i) cs"
| "occupied i (Some n # cs) = (i, n) # occupied (Suc i) cs"

text \<open>
  What a branch becomes once a child was removed. \<open>None\<close> is a panic: \<open>unwrap\<close> on an empty
  iterator, \<open>unreachable!()\<close> on an empty orphan, or an orphan with an empty stored path.
\<close>

definition collapse_branch :: "mpt option list \<Rightarrow> mpt node_data option" where
  "collapse_branch children =
     (case occupied 0 children of
        [] \<Rightarrow> None
      | [(index, orphan)] \<Rightarrow>
         (case data orphan of
            Leaf pre orphan_value \<Rightarrow>
              map_option (\<lambda>ns. Leaf (to_encoded_path (of_nat index # ns) True) orphan_value)
                (prefix_nibs pre)
          | Extension pre orphan_child \<Rightarrow>
              map_option (\<lambda>ns. Extension (to_encoded_path (of_nat index # ns) False) orphan_child)
                (prefix_nibs pre)
          | Branch _ \<Rightarrow> Some (Extension (to_encoded_path [of_nat index] False) orphan)
          | Digest _ \<Rightarrow> Some (Extension (to_encoded_path [of_nat index] False) orphan)
          | Null \<Rightarrow> None)
      | _ \<Rightarrow> Some (Branch children))"

text \<open>What an extension becomes once something below it was removed.\<close>

definition merge_extension :: "bytes \<Rightarrow> u8 list \<Rightarrow> mpt \<Rightarrow> mpt node_data option" where
  "merge_extension pre self_nibs child =
     (case data child of
        Null \<Rightarrow> Some Null
      | Leaf p value \<Rightarrow>
          map_option (\<lambda>ns. Leaf (to_encoded_path (self_nibs @ ns) True) value) (prefix_nibs p)
      | Extension p node \<Rightarrow>
          map_option (\<lambda>ns. Extension (to_encoded_path (self_nibs @ ns) False) node) (prefix_nibs p)
      | Branch _ \<Rightarrow> Some (Extension pre child)
      | Digest _ \<Rightarrow> Some (Extension pre child))"

fun delete_internal :: "mpt \<Rightarrow> u8 list \<Rightarrow> mpt \<times> (mpt_error, bool) res" where
  "delete_internal (MptNode Null c) key_nibs = (MptNode Null c, Ok False)"
| "delete_internal (MptNode (Branch children) c) key_nibs =
    (case key_nibs of
       i # tail \<Rightarrow>
        (if unat i < length children
         then (case children ! unat i of
                 Some node \<Rightarrow>
                  (case delete_internal node tail of
                     (node', Ok True) \<Rightarrow>
                      (let children' = children[unat i :=
                             (if is_empty node' then None else Some node')]
                       in case collapse_branch children' of
                            Some d \<Rightarrow> (MptNode d None, Ok True)
                          | None \<Rightarrow> (MptNode (Branch children') c, Panic))
                   | (node', r) \<Rightarrow>
                       (MptNode (Branch (children[unat i := Some node'])) c, r))
               | None \<Rightarrow> (MptNode (Branch children) c, Ok False))
         else (MptNode (Branch children) c, Panic))
     | [] \<Rightarrow> (MptNode (Branch children) c, Err ValueInBranch))"
| "delete_internal (MptNode (Leaf pre value) c) key_nibs =
    (case prefix_nibs pre of
       None \<Rightarrow> (MptNode (Leaf pre value) c, Panic)
     | Some self_nibs \<Rightarrow>
        (if self_nibs \<noteq> key_nibs then (MptNode (Leaf pre value) c, Ok False)
         else (MptNode Null None, Ok True)))"
| "delete_internal (MptNode (Extension pre child) c) key_nibs =
    (case prefix_nibs pre of
       None \<Rightarrow> (MptNode (Extension pre child) c, Panic)
     | Some self_nibs \<Rightarrow>
        (case strip_prefix self_nibs key_nibs of
           None \<Rightarrow> (MptNode (Extension pre child) c, Ok False)
         | Some tail \<Rightarrow>
            (case delete_internal child tail of
               (child', Ok True) \<Rightarrow>
                (case merge_extension pre self_nibs child' of
                   Some d \<Rightarrow> (MptNode d None, Ok True)
                 | None \<Rightarrow> (MptNode (Extension pre child') c, Panic))
             | (child', r) \<Rightarrow> (MptNode (Extension pre child') c, r))))"
| "delete_internal (MptNode (Digest digest) c) key_nibs =
     (MptNode (Digest digest) c, Err (NodeNotResolved digest))"

definition delete :: "mpt \<Rightarrow> bytes \<Rightarrow> mpt \<times> (mpt_error, bool) res" where
  "delete self key = delete_internal self (to_nibs key)"

section \<open>\<open>size\<close>\<close>

fun mpt_size :: "mpt \<Rightarrow> nat" where
  "mpt_size (MptNode Null c) = 0"
| "mpt_size (MptNode (Branch children) c) =
     sum_list (map (\<lambda>child. case child of Some n \<Rightarrow> mpt_size n | None \<Rightarrow> 0) children) + 1"
| "mpt_size (MptNode (Leaf _ _) c) = 1"
| "mpt_size (MptNode (Extension _ child) c) = mpt_size child + 1"
| "mpt_size (MptNode (Digest _) c) = 0"

section \<open>Equality up to caches\<close>

text \<open>
  \<open>PartialEq\<close> compares \<open>data\<close> only, recursively: \<open>erase\<close> forgets every cached reference, and
  two nodes are equal for the program exactly when their erasures are.
\<close>

fun erase :: "mpt \<Rightarrow> mpt" where
  "erase (MptNode d c) = MptNode (map_node_data erase d) None"

definition mpt_eq :: "mpt \<Rightarrow> mpt \<Rightarrow> bool" where
  "mpt_eq a b \<longleftrightarrow> erase a = erase b"

lemma node_of_simps [simp]: "data (node_of d) = d" "cached_reference (node_of d) = None"
  by (simp_all add: node_of_def)

lemma is_empty_simps [simp]:
  "is_empty (MptNode Null c)" "\<not> is_empty (MptNode (Branch cs) c)"
  "\<not> is_empty (MptNode (Leaf p v) c)" "\<not> is_empty (MptNode (Extension p n) c)"
  "\<not> is_empty (MptNode (Digest h) c)"
  by (simp_all add: is_empty_def)

lemma is_branch_simps [simp]:
  "\<not> is_branch (MptNode Null c)" "is_branch (MptNode (Branch cs) c)"
  "\<not> is_branch (MptNode (Leaf p v) c)" "\<not> is_branch (MptNode (Extension p n) c)"
  "\<not> is_branch (MptNode (Digest h) c)"
  by (simp_all add: is_branch_def)

lemma is_digest_simps [simp]:
  "\<not> is_digest (MptNode Null c)" "\<not> is_digest (MptNode (Branch cs) c)"
  "\<not> is_digest (MptNode (Leaf p v) c)" "\<not> is_digest (MptNode (Extension p n) c)"
  "is_digest (MptNode (Digest h) c)"
  by (simp_all add: is_digest_def)

lemma mpt_induct [case_names Null Branch Leaf Extension Digest]:
  assumes "\<And>c. P (MptNode Null c)"
    and "\<And>cs c. (\<And>i n. i < length cs \<Longrightarrow> cs ! i = Some n \<Longrightarrow> P n) \<Longrightarrow> P (MptNode (Branch cs) c)"
    and "\<And>p v c. P (MptNode (Leaf p v) c)"
    and "\<And>p n c. P n \<Longrightarrow> P (MptNode (Extension p n) c)"
    and "\<And>h c. P (MptNode (Digest h) c)"
  shows "P t"
proof (induction t)
  case (MptNode d c)
  show ?case
  proof (cases d)
    case (Branch cs)
    have "P n" if "i < length cs" "cs ! i = Some n" for i n
    proof (rule MptNode.IH [of n])
      show "n \<in> set_node_data d"
        unfolding Branch using that by (auto intro!: bexI [of _ "Some n"] simp: in_set_conv_nth)
    qed
    then show ?thesis using assms(2) Branch by simp
  qed (use assms MptNode.IH in auto)
qed

end
