(* ===== verification/Mpt_Map.thy ===== *)
theory Mpt_Map
  imports Mpt_Node
begin

text \<open>
  Functional correctness of the trie operations: the canonical form that \<open>insert\<close> and
  \<open>delete\<close> keep, what \<open>get\<close> returns after them for every key (unresolved parts included),
  that no operation on a canonical trie panics, and when an operation reports an error.
\<close>

section \<open>The canonical form\<close>

text \<open>
  A canonical node: a branch has sixteen slots and at least two children; stored paths are
  canonical encodings; an extension has a non-empty path and points to a branch or a digest,
  as the comment in \<open>delete_internal\<close> demands. An empty node occurs at the root only.
\<close>

fun canon :: "mpt \<Rightarrow> bool" where
  "canon (MptNode Null c) = False"
| "canon (MptNode (Branch cs) c) =
     (length cs = 16 \<and> 2 \<le> length (occupied 0 cs) \<and>
      list_all (\<lambda>child. case child of None \<Rightarrow> True | Some n \<Rightarrow> canon n) cs)"
| "canon (MptNode (Leaf p v) c) = valid_path True p"
| "canon (MptNode (Extension p n) c) =
     (valid_path False p \<and> prefix_nibs p \<noteq> Some [] \<and> (is_branch n \<or> is_digest n) \<and> canon n)"
| "canon (MptNode (Digest h) c) = True"

definition wf_trie :: "mpt \<Rightarrow> bool" where
  "wf_trie t \<longleftrightarrow> is_empty t \<or> canon t"

text \<open>
  All keys of a trie have the same length \<open>L\<close> (64 nibbles in the state and storage tries):
  a leaf ends there and a branch or extension lies above.
\<close>

fun fixed_len :: "nat \<Rightarrow> mpt \<Rightarrow> bool" where
  "fixed_len L (MptNode Null c) = True"
| "fixed_len L (MptNode (Branch cs) c) =
     (0 < L \<and> list_all (\<lambda>child. case child of None \<Rightarrow> True | Some n \<Rightarrow> fixed_len (L - 1) n) cs)"
| "fixed_len L (MptNode (Leaf p v) c) =
     (case prefix_nibs p of None \<Rightarrow> False | Some ns \<Rightarrow> length ns = L)"
| "fixed_len L (MptNode (Extension p n) c) =
     (case prefix_nibs p of None \<Rightarrow> False
      | Some ns \<Rightarrow> length ns \<le> L \<and> fixed_len (L - length ns) n)"
| "fixed_len L (MptNode (Digest h) c) = True"

lemma list_all_children:
  "list_all (\<lambda>child. case child of None \<Rightarrow> True | Some n \<Rightarrow> P n) cs \<longleftrightarrow>
    (\<forall>i n. i < length cs \<longrightarrow> cs ! i = Some n \<longrightarrow> P n)"
  by (fastforce simp: list_all_length split: option.splits)

lemma list_all_children_update:
  assumes "list_all (\<lambda>child. case child of None \<Rightarrow> True | Some n \<Rightarrow> P n) cs"
    and "case x of None \<Rightarrow> True | Some n \<Rightarrow> P n"
  shows "list_all (\<lambda>child. case child of None \<Rightarrow> True | Some n \<Rightarrow> P n) (cs[i := x])"
  using assms set_update_subset_insert [of cs i x] by (auto simp: list_all_iff)

lemma is_branch_or_digest_not_empty: "is_branch n \<or> is_digest n \<Longrightarrow> \<not> is_empty n"
  by (auto simp: is_branch_def is_digest_def is_empty_def split: node_data.splits)

lemma canon_not_empty: "canon t \<Longrightarrow> \<not> is_empty t"
  by (cases t rule: canon.cases) auto

lemma canon_any_cache: "canon (MptNode d c) = canon (MptNode d c')"
  by (cases d) auto

lemma fixed_len_any_cache: "fixed_len L (MptNode d c) = fixed_len L (MptNode d c')"
  by (cases d) auto

lemma get_internal_any_cache: "get_internal (MptNode d c) ks = get_internal (MptNode d c') ks"
  by (cases d) auto

subsection \<open>Occupied slots\<close>

lemma occupied_iff:
  "(j, n) \<in> set (occupied i cs) \<longleftrightarrow> i \<le> j \<and> j < i + length cs \<and> cs ! (j - i) = Some n"
proof (induction i cs rule: occupied.induct)
  case (2 i cs)
  show ?case
  proof (cases "i < j")
    case True
    then have "j - i = Suc (j - Suc i)" by simp
    with True 2 show ?thesis by auto
  qed (use 2 in auto)
next
  case (3 i m cs)
  show ?case
  proof (cases "i < j")
    case True
    then have "j - i = Suc (j - Suc i)" by simp
    with True 3 show ?thesis by auto
  qed (use 3 in auto)
qed simp

lemma length_occupied: "length (occupied i cs) = length (filter (\<lambda>x. x \<noteq> None) cs)"
  by (induction i cs rule: occupied.induct) auto

lemma occupied_fst_ge: "(j, n) \<in> set (occupied i cs) \<Longrightarrow> i \<le> j"
  by (simp add: occupied_iff)

lemma distinct_occupied: "distinct (map fst (occupied i cs))"
  by (induction i cs rule: occupied.induct) (auto dest: occupied_fst_ge)

lemma filter_update_some:
  "length (filter (\<lambda>x. x \<noteq> None) cs) \<le> length (filter (\<lambda>x. x \<noteq> None) (cs[i := Some n]))"
proof (induction cs arbitrary: i)
  case (Cons c cs)
  show ?case
  proof (cases i)
    case (Suc k)
    then show ?thesis using Cons.IH [of k] by simp
  qed simp
qed simp

lemma filter_update_any:
  "length (filter (\<lambda>x. x \<noteq> None) cs) \<le> Suc (length (filter (\<lambda>x. x \<noteq> None) (cs[i := x])))"
proof (induction cs arbitrary: i)
  case (Cons c cs)
  show ?case
  proof (cases i)
    case (Suc k)
    then show ?thesis using Cons.IH [of k] by simp
  qed simp
qed simp

lemma occupied_two:
  assumes "2 \<le> length (occupied i cs)"
  obtains j k m n where "j \<noteq> k" "j < length cs" "k < length cs" "cs ! j = Some m" "cs ! k = Some n"
proof -
  from assms obtain a m b n xs where xs: "occupied i cs = (a, m) # (b, n) # xs"
    by (metis Suc_le_length_iff numeral_2_eq_2 surj_pair)
  then have "(a, m) \<in> set (occupied i cs)" "(b, n) \<in> set (occupied i cs)" by simp_all
  then have mem: "i \<le> a" "a < i + length cs" "cs ! (a - i) = Some m"
    "i \<le> b" "b < i + length cs" "cs ! (b - i) = Some n"
    by (simp_all only: occupied_iff)
  have "a \<noteq> b" using distinct_occupied [of i cs] by (simp add: xs)
  then show thesis using mem by (intro that [of "a - i" "b - i"]) auto
qed

lemma occupied_two_iff_distinct:
  assumes "j \<noteq> k" "j < length cs" "k < length cs" "cs ! j \<noteq> None" "cs ! k \<noteq> None"
  shows "2 \<le> length (occupied i cs)"
proof -
  have "{j, k} \<subseteq> {l. l < length cs \<and> cs ! l \<noteq> None}" using assms by auto
  then have "card {j, k} \<le> card {l. l < length cs \<and> cs ! l \<noteq> None}"
    by (intro card_mono) auto
  then show ?thesis
    using assms(1) by (simp add: length_occupied length_filter_conv_card)
qed

section \<open>Splitting a path\<close>

lemma split_children_Some:
  "split_children i old j new = Some cs \<longleftrightarrow>
    unat i < 16 \<and> unat j < 16 \<and> cs = (replicate 16 None)[unat i := Some old, unat j := Some new]"
  by (auto simp: split_children_def)

lemma split_children_nth:
  assumes "split_children i old j new = Some cs" and "i \<noteq> j" and "k < 16"
  shows "cs ! unat k = (if k = i then Some old else if k = j then Some new else None)"
proof -
  have "unat k < 16" using assms(3) by (rule nibble_unat)
  moreover have "unat i \<noteq> unat j" using assms(2) by (simp add: word_unat_eq_iff)
  moreover have "unat k = unat i \<longleftrightarrow> k = i" "unat k = unat j \<longleftrightarrow> k = j"
    by (simp_all add: word_unat_eq_iff)
  ultimately show ?thesis
    using assms(1) by (auto simp: split_children_Some nth_list_update)
qed

lemma length_split_children: "split_children i old j new = Some cs \<Longrightarrow> length cs = 16"
  by (auto simp: split_children_Some)

lemma get_split_node:
  assumes "split_children i old j new = Some cs" and "i \<noteq> j" and "nibbles ps" and "nibbles ks"
  shows "get_internal (MptNode (split_node ps cs) c) ks =
    (case strip_prefix ps ks of
       Some (x # tail) \<Rightarrow>
         if x = i then get_internal old tail else if x = j then get_internal new tail else Ok None
     | _ \<Rightarrow> Ok None)"
proof -
  have branch: "get_internal (MptNode (Branch cs) c') ms =
      (case ms of x # tail \<Rightarrow>
         if x = i then get_internal old tail else if x = j then get_internal new tail else Ok None
       | [] \<Rightarrow> Ok None)" if "nibbles ms" for ms c'
    using that length_split_children [OF assms(1)] split_children_nth [OF assms(1,2)]
    by (auto simp: nibble_unat split: list.splits)
  show ?thesis
  proof (cases "strip_prefix ps ks")
    case None
    then show ?thesis
      using assms(3) branch [OF assms(4)]
      by (auto simp: split_node_def node_of_def hp.dec_enc split: list.splits)
  next
    case (Some tail)
    then have ks: "ks = ps @ tail" by (simp add: strip_prefix_Some)
    show ?thesis
      using assms(3,4) branch [of tail]
      by (cases tail) (auto simp: split_node_def node_of_def hp.dec_enc ks split: list.splits)
  qed
qed

lemma canon_split_node:
  assumes "split_children i old j new = Some cs" and "i \<noteq> j" and "nibbles ps"
    and "canon old" and "canon new"
  shows "canon (MptNode (split_node ps cs) c)"
proof -
  have b: "canon (MptNode (Branch cs) c')" for c'
  proof -
    have ij: "unat i < 16" "unat j < 16" using assms(1) by (auto simp: split_children_Some)
    then have ij': "i < 16" "j < 16" by (simp_all add: word_less_nat_alt)
    have "2 \<le> length (occupied 0 cs)"
      using assms(2) ij split_children_nth [OF assms(1,2) ij'(1)]
        split_children_nth [OF assms(1,2) ij'(2)] length_split_children [OF assms(1)]
      by (intro occupied_two_iff_distinct [of "unat i" "unat j"]) (auto simp: word_unat_eq_iff)
    moreover have "list_all (\<lambda>child. case child of None \<Rightarrow> True | Some n \<Rightarrow> canon n) cs"
      using assms(1,4,5)
      by (auto simp: split_children_Some intro!: list_all_children_update) (simp add: list_all_iff)
    ultimately show ?thesis using length_split_children [OF assms(1)] by simp
  qed
  show ?thesis
    using b [of c] b [of None] assms(3)
    by (auto simp: split_node_def node_of_def hp.dec_enc)
qed

lemma fixed_len_split_node:
  assumes "split_children i old j new = Some cs" and "nibbles ps" and "length ps < L"
    and D: "D = L - Suc (length ps)" and "fixed_len D old" and "fixed_len D new"
  shows "fixed_len L (MptNode (split_node ps cs) c)"
proof -
  have "list_all (\<lambda>child. case child of None \<Rightarrow> True | Some n \<Rightarrow> fixed_len D n) cs"
    using assms(1,5,6)
    by (auto simp: split_children_Some intro!: list_all_children_update) (simp add: list_all_iff)
  then show ?thesis
    using assms(2,3) D by (cases "ps = []") (auto simp: split_node_def node_of_def hp.dec_enc)
qed

end
