(* ===== verification/Mpt_Insert.thy ===== *)
theory Mpt_Insert
  imports Mpt_Map
begin

text \<open>Correctness of \<open>insert_internal\<close>.\<close>

section \<open>A failed or ineffective insertion changes nothing\<close>

lemma insert_internal_unchanged:
  "insert_internal t ks v = (t', r) \<Longrightarrow> r \<noteq> Ok True \<Longrightarrow> t' = t"
proof (induction t arbitrary: ks t' r rule: mpt_induct)
  case (Branch children c)
  show ?case
  proof (cases ks)
    case (Cons i tail)
    show ?thesis
    proof (cases "unat i < length children \<and> children ! unat i \<noteq> None")
      case True
      then obtain node where node: "unat i < length children" "children ! unat i = Some node" by auto
      obtain node' r' where rec: "insert_internal node tail v = (node', r')" by (cases "insert_internal node tail v")
      have "r' \<noteq> Ok True \<Longrightarrow> children[unat i := Some node'] = children"
        using Branch.IH [OF node rec] node by (metis list_update_id)
      then show ?thesis
        using Branch.prems node rec
        by (auto simp: Cons split: res.splits bool.splits)
    next
      case False
      then show ?thesis using Branch.prems by (auto simp: Cons split: if_splits)
    qed
  qed (use Branch.prems in simp)
next
  case (Extension p n c)
  obtain ss where "prefix_nibs p = None \<or> prefix_nibs p = Some ss" by (cases "prefix_nibs p") auto
  moreover obtain n' r' where rec: "insert_internal n (drop (lcp ss ks) ks) v = (n', r')"
    by (cases "insert_internal n (drop (lcp ss ks) ks) v")
  ultimately show ?case
    using Extension.prems Extension.IH [OF rec]
    by (auto simp: Let_def split: if_splits option.splits res.splits bool.splits)
qed (auto simp: Let_def split: if_splits option.splits)

section \<open>Outcome of an insertion, by what \<open>get\<close> finds\<close>

text \<open>
  The two branches of a split, described once: the stored path and the key share \<open>ps\<close> and
  then differ.
\<close>

lemma split_after_lcp:
  assumes "lcp ss ks \<noteq> length ss" and "lcp ss ks \<noteq> length ks" and "nibbles ss" and "nibbles ks"
  obtains ps x xs y ys cs where
    "ss = ps @ x # xs" "ks = ps @ y # ys" "x \<noteq> y" "lcp ss ks = length ps"
    "split_children (ss ! lcp ss ks) old (ks ! lcp ss ks) new = Some cs"
    "split_children x old y new = Some cs"
    "nibbles ps" "x < 16" "nibbles xs" "y < 16" "nibbles ys"
proof -
  have "lcp ss ks < length ss" "lcp ss ks < length ks"
    using assms(1,2) lcp_le [where as = ss and bs = ks] by linarith+
  then obtain ps x xs y ys where s: "ss = ps @ x # xs" "ks = ps @ y # ys" "x \<noteq> y"
    "length ps = lcp ss ks"
    by (rule lcp_split)
  then have n: "nibbles ps" "x < 16" "nibbles xs" "y < 16" "nibbles ys" using assms(3,4) by auto
  then obtain cs where cs: "split_children x old y new = Some cs"
    by (simp add: split_children_def nibble_unat)
  have at: "ss ! lcp ss ks = x" "ks ! lcp ss ks = y"
    by (metis s(1,2,4) nth_append_length)+
  from that [OF s(1-3) s(4) [symmetric] _ cs n] show thesis by (simp add: at cs)
qed

lemma insert_branch_child:
  assumes "unat i < length children" and "children ! unat i = Some node"
    and "insert_internal node tail v = (node', Ok b)"
  shows "\<exists>c'. insert_internal (MptNode (Branch children) c) (i # tail) v =
    (MptNode (Branch (children[unat i := Some node'])) c', Ok b)"
  using assms by (cases b) auto

lemma insert_extension_child:
  assumes "prefix_nibs p = Some ss" and "insert_internal n tail v = (n', Ok b)"
  shows "\<exists>c'. insert_internal (MptNode (Extension p n) c) (ss @ tail) v =
    (MptNode (Extension p n') c', Ok b)"
  using assms by (cases b) (auto simp: lcp_prefix)

lemma get_branch_update:
  assumes "unat i < length cs" and "length cs = 16" and "nibbles ks"
  shows "get_internal (MptNode (Branch (cs[unat i := x])) c) ks =
    (case ks of j # tail \<Rightarrow>
       if j = i then (case x of Some n \<Rightarrow> get_internal n tail | None \<Rightarrow> Ok None)
       else get_internal (MptNode (Branch cs) c') ks
     | [] \<Rightarrow> Ok None)"
  using assms
  by (auto simp: nth_list_update nibble_unat word_unat_eq_iff split: list.splits option.splits)

text \<open>
  The whole effect of a successful insertion: every key reads as before except the inserted
  one; the trie is canonical; an insertion never turns a branch into something else.
\<close>

definition inserted :: "mpt \<Rightarrow> u8 list \<Rightarrow> bytes \<Rightarrow> mpt \<Rightarrow> bool" where
  "inserted t ks v t' \<longleftrightarrow> canon t' \<and> (is_branch t \<longrightarrow> is_branch t') \<and>
    (\<forall>ks'. nibbles ks' \<longrightarrow>
      get_internal t' ks' = (if ks' = ks then Ok (Some v) else get_internal t ks'))"

lemma inserted_branch:
  assumes prems: "wf_trie (MptNode (Branch children) c)" "nibbles ks"
      "insert_internal (MptNode (Branch children) c) ks v = (t', Ok b)"
    and IH: "\<And>i n ks t' b. i < length children \<Longrightarrow> children ! i = Some n \<Longrightarrow> wf_trie n \<Longrightarrow>
      nibbles ks \<Longrightarrow> insert_internal n ks v = (t', Ok b) \<Longrightarrow> inserted n ks v t'"
  shows "inserted (MptNode (Branch children) c) ks v t'"
proof -
  have cb: "canon (MptNode (Branch children) c)" using prems(1) by (simp add: wf_trie_def)
  obtain i tail where ks: "ks = i # tail" using prems(3) by (cases ks) auto
  have i: "unat i < 16" "i < 16" "nibbles tail"
    using prems(2) by (auto simp: ks nibble_unat)
  have len: "length children = 16" using cb by simp
  have canon_upd: "canon (MptNode (Branch (children[unat i := Some x])) c')" if "canon x" for x c'
    using cb that filter_update_some [of children "unat i" x]
    by (auto simp: length_occupied intro!: list_all_children_update)
  show ?thesis
  proof (cases "children ! unat i")
    case None
    let ?leaf = "node_of (Leaf (to_encoded_path tail True) v)"
    have t': "t' = MptNode (Branch (children[unat i := Some ?leaf])) None"
      using prems(3) None i len by (simp add: ks)
    have "canon t'" unfolding t' using i(3) by (intro canon_upd) (simp add: node_of_def)
    moreover have "get_internal t' ks' = (if ks' = ks then Ok (Some v)
        else get_internal (MptNode (Branch children) c) ks')" if "nibbles ks'" for ks'
      unfolding t' using get_branch_update [of i children ks' "Some ?leaf" None c] that i len None
      by (auto simp: ks node_of_def hp.dec_enc split: list.splits)
    ultimately show ?thesis by (simp add: t' inserted_def)
  next
    case (Some node)
    have canon_node: "canon node" using cb Some i(1) len by (auto simp: list_all_children)
    obtain node' r where rec: "insert_internal node tail v = (node', r)"
      by (cases "insert_internal node tail v")
    have r: "r = Ok b" using prems(3) Some i len rec
      by (auto simp: ks split: res.splits bool.splits)
    have IH: "canon node'" "\<And>ks'. nibbles ks' \<Longrightarrow> get_internal node' ks' =
        (if ks' = tail then Ok (Some v) else get_internal node ks')"
      using IH [of "unat i" node] Some i len canon_node rec by (auto simp: r wf_trie_def inserted_def)
    obtain c' where t': "t' = MptNode (Branch (children[unat i := Some node'])) c'"
      using insert_branch_child [of i children node tail v node' b c] prems(3) Some i len rec
      by (auto simp: ks r)
    have "get_internal t' ks' = (if ks' = ks then Ok (Some v)
        else get_internal (MptNode (Branch children) c) ks')" if "nibbles ks'" for ks'
      unfolding t' using get_branch_update [of i children ks' "Some node'" c' c] that i len Some IH(2)
      by (auto simp: ks split: list.splits)
    then show ?thesis using canon_upd [OF IH(1)] by (simp add: t' inserted_def)
  qed
qed

lemma inserted_leaf:
  assumes prems: "wf_trie (MptNode (Leaf p old) c)" "nibbles ks"
      "insert_internal (MptNode (Leaf p old) c) ks v = (t', Ok b)"
  shows "inserted (MptNode (Leaf p old) c) ks v t'"
proof -
  obtain ss where ss: "nibbles ss" "prefix_nibs p = Some ss" "p = to_encoded_path ss True"
    using prems(1) by (auto simp: wf_trie_def elim: valid_pathE)
  show ?thesis
  proof (cases "lcp ss ks = length ss \<and> lcp ss ks = length ks")
    case True
    then have eq: "ss = ks" using lcp_full [of ss ks] lcp_full' [of ss ks] by auto
    show ?thesis using prems ss True
      by (auto simp: inserted_def wf_trie_def Let_def eq hp.dec_enc split: if_splits)
  next
    case False
    then have ne: "lcp ss ks \<noteq> length ss" "lcp ss ks \<noteq> length ks"
      using prems(3) ss(2) by (auto simp: Let_def)
    let ?old = "node_of (Leaf (to_encoded_path (drop (Suc (lcp ss ks)) ss) True) old)"
    let ?new = "node_of (Leaf (to_encoded_path (drop (Suc (lcp ss ks)) ks) True) v)"
    obtain ps x xs y ys cs where sp: "ss = ps @ x # xs" "ks = ps @ y # ys" "x \<noteq> y"
      "lcp ss ks = length ps" "split_children (ss ! lcp ss ks) ?old (ks ! lcp ss ks) ?new = Some cs"
      "split_children x ?old y ?new = Some cs" "nibbles ps" "x < 16" "nibbles xs" "y < 16" "nibbles ys"
      by (rule split_after_lcp [OF ne ss(1) prems(2)])
    have "take (lcp ss ks) ss = ps" unfolding sp(4) by (simp add: sp(1))
    then have t': "t' = MptNode (split_node ps cs) None"
      using prems(3) ss(2) ne sp(5) by (simp add: Let_def)
    have "canon t'" unfolding t'
      using sp by (intro canon_split_node [OF sp(6,3,7)]) (simp_all add: node_of_def)
    moreover have "get_internal t' ks' = (if ks' = ks then Ok (Some v)
        else get_internal (MptNode (Leaf p old) c) ks')" if "nibbles ks'" for ks'
      unfolding t' get_split_node [OF sp(6,3,7) that] using ss sp(1-4,8-11)
      by (auto simp: strip_prefix_Some strip_prefix_None node_of_def hp.dec_enc
          split: option.splits list.splits)
    ultimately show ?thesis by (simp add: inserted_def)
  qed
qed

lemma inserted_extension:
  assumes prems: "wf_trie (MptNode (Extension p n) c)" "nibbles ks"
      "insert_internal (MptNode (Extension p n) c) ks v = (t', Ok b)"
    and IH: "\<And>ks t' b. wf_trie n \<Longrightarrow> nibbles ks \<Longrightarrow> insert_internal n ks v = (t', Ok b) \<Longrightarrow>
      inserted n ks v t'"
  shows "inserted (MptNode (Extension p n) c) ks v t'"
proof -
  obtain ss where ss: "nibbles ss" "prefix_nibs p = Some ss" "p = to_encoded_path ss False"
    and cn: "ss \<noteq> []" "is_branch n \<or> is_digest n" "canon n"
    using prems(1) by (auto simp: wf_trie_def elim: valid_pathE)
  show ?thesis
  proof (cases "lcp ss ks = length ss")
    case True
    then obtain tail where ks: "ks = ss @ tail" using lcp_full by blast
    obtain n' r where rec: "insert_internal n tail v = (n', r)" by (cases "insert_internal n tail v")
    have r: "r = Ok b" using prems(3) ss(2) rec
      by (auto simp: ks lcp_prefix split: res.splits bool.splits)
    have nt: "nibbles tail" using prems(2) by (simp add: ks)
    have br: "is_branch n"
      using cn(2) rec r by (cases n rule: canon.cases) auto
    have IH: "canon n'" "is_branch n'" "\<And>ks'. nibbles ks' \<Longrightarrow> get_internal n' ks' =
        (if ks' = tail then Ok (Some v) else get_internal n ks')"
      using IH [OF _ nt rec [unfolded r]] cn br by (auto simp: wf_trie_def inserted_def)
    obtain c' where t': "t' = MptNode (Extension p n') c'"
      using insert_extension_child [OF ss(2) rec [unfolded r], of c] prems(3)
      by (auto simp: ks)
    show ?thesis using ss cn(1) IH
      by (auto simp: inserted_def t' ks strip_prefix_Some split: option.splits)
  next
    case False
    then have ne: "lcp ss ks \<noteq> length ss" "lcp ss ks \<noteq> length ks"
      using prems(3) ss(2) by (auto simp: Let_def)
    let ?old = "if Suc (lcp ss ks) < length ss
      then node_of (Extension (to_encoded_path (drop (Suc (lcp ss ks)) ss) False) n) else n"
    let ?new = "node_of (Leaf (to_encoded_path (drop (Suc (lcp ss ks)) ks) True) v)"
    obtain ps x xs y ys cs where sp: "ss = ps @ x # xs" "ks = ps @ y # ys" "x \<noteq> y"
      "lcp ss ks = length ps" "split_children (ss ! lcp ss ks) ?old (ks ! lcp ss ks) ?new = Some cs"
      "split_children x ?old y ?new = Some cs" "nibbles ps" "x < 16" "nibbles xs" "y < 16" "nibbles ys"
      by (rule split_after_lcp [OF ne ss(1) prems(2)])
    have "take (lcp ss ks) ss = ps" unfolding sp(4) by (simp add: sp(1))
    then have t': "t' = MptNode (split_node ps cs) None"
      using prems(3) ss(2) ne sp(5) by (simp add: Let_def)
    have old: "?old = (if xs = [] then n else node_of (Extension (to_encoded_path xs False) n))"
      using sp(4) by (simp add: sp(1))
    have "canon ?old" unfolding old using cn sp(9) by (simp add: node_of_def hp.dec_enc)
    then have "canon t'" unfolding t'
      using sp by (intro canon_split_node [OF sp(6,3,7)]) (simp_all add: node_of_def)
    moreover have "get_internal ?old ms = (case strip_prefix xs ms of Some tail \<Rightarrow> get_internal n tail
        | None \<Rightarrow> Ok None)" for ms
      unfolding old using sp(9) by (simp add: node_of_def hp.dec_enc)
    then have "get_internal t' ks' = (if ks' = ks then Ok (Some v)
        else get_internal (MptNode (Extension p n) c) ks')" if "nibbles ks'" for ks'
      unfolding t' get_split_node [OF sp(6,3,7) that] using ss sp(1-4,8-11)
      by (auto simp: strip_prefix_Some strip_prefix_None strip_prefix_add node_of_def hp.dec_enc
          split: option.splits list.splits)
    ultimately show ?thesis by (simp add: inserted_def)
  qed
qed

lemma insert_internal_correct:
  "wf_trie t \<Longrightarrow> nibbles ks \<Longrightarrow> insert_internal t ks v = (t', Ok b) \<Longrightarrow> inserted t ks v t'"
proof (induction t arbitrary: ks t' b rule: mpt_induct)
  case (Branch children c)
  then show ?case by (intro inserted_branch)
next
  case (Leaf p old c)
  then show ?case by (intro inserted_leaf)
next
  case (Extension p n c)
  then show ?case by (intro inserted_extension)
qed (auto simp: inserted_def hp.dec_enc)

section \<open>When an insertion fails\<close>

text \<open>
  The error an insertion reports is decided by what \<open>get\<close> finds on the way: an unresolved
  node fails both in the same way, and a key that is found or absent is inserted, unless it
  would end inside a branch. Nothing panics.
\<close>

definition insert_outcome :: "mpt \<Rightarrow> u8 list \<Rightarrow> bytes \<Rightarrow> bool" where
  "insert_outcome t ks v =
     (case get_internal t ks of
        Ok x \<Rightarrow> snd (insert_internal t ks v) \<in> {Ok (x \<noteq> Some v), Err ValueInBranch}
      | Err e \<Rightarrow> insert_internal t ks v = (t, Err e)
      | Panic \<Rightarrow> False)"

lemma lcp_eq_lengths_iff: "lcp as bs = length as \<and> lcp as bs = length bs \<longleftrightarrow> as = bs"
  using lcp_full [of as bs] lcp_full' [of as bs] lcp_prefix [of as "[]"] by auto

lemma insert_outcome_leaf:
  assumes "wf_trie (MptNode (Leaf p old) c)" and "nibbles ks"
  shows "insert_outcome (MptNode (Leaf p old) c) ks v"
proof -
  obtain ss where ss: "nibbles ss" "prefix_nibs p = Some ss"
    using assms(1) by (auto simp: wf_trie_def elim: valid_pathE)
  show ?thesis
  proof (cases "lcp ss ks = length ss \<or> lcp ss ks = length ks")
    case True
    then show ?thesis using ss lcp_eq_lengths_iff [of ss ks]
      by (auto simp: insert_outcome_def Let_def)
  next
    case False
    let ?old = "node_of (Leaf (to_encoded_path (drop (Suc (lcp ss ks)) ss) True) old)"
    let ?new = "node_of (Leaf (to_encoded_path (drop (Suc (lcp ss ks)) ks) True) v)"
    obtain cs where "split_children (ss ! lcp ss ks) ?old (ks ! lcp ss ks) ?new = Some cs"
      using split_after_lcp [OF _ _ ss(1) assms(2), of ?old ?new] False by metis
    then show ?thesis using ss False lcp_eq_lengths_iff [of ss ks]
      by (auto simp: insert_outcome_def Let_def)
  qed
qed

lemma insert_outcome_extension:
  assumes "wf_trie (MptNode (Extension p n) c)" and "nibbles ks"
    and IH: "\<And>ks. nibbles ks \<Longrightarrow> insert_outcome n ks v"
  shows "insert_outcome (MptNode (Extension p n) c) ks v"
proof -
  obtain ss where ss: "nibbles ss" "prefix_nibs p = Some ss"
    using assms(1) by (auto simp: wf_trie_def elim: valid_pathE)
  consider (down) tail where "ks = ss @ tail" | (short) "lcp ss ks \<noteq> length ss" "lcp ss ks = length ks"
    | (split) "lcp ss ks \<noteq> length ss" "lcp ss ks \<noteq> length ks"
    using lcp_full [of ss ks] by blast
  then show ?thesis
  proof cases
    case (down tail)
    have "insert_outcome n tail v" using IH assms(2) by (simp add: down)
    then show ?thesis using ss
      by (cases "insert_internal n tail v")
        (auto simp: insert_outcome_def down lcp_prefix split: res.splits bool.splits)
  next
    case short
    then have "strip_prefix ss ks = None" by (auto simp: strip_prefix_None lcp_prefix)
    then show ?thesis using ss short by (simp add: insert_outcome_def Let_def)
  next
    case split
    then have "strip_prefix ss ks = None" by (auto simp: strip_prefix_None lcp_prefix)
    let ?old = "if Suc (lcp ss ks) < length ss
      then node_of (Extension (to_encoded_path (drop (Suc (lcp ss ks)) ss) False) n) else n"
    let ?new = "node_of (Leaf (to_encoded_path (drop (Suc (lcp ss ks)) ks) True) v)"
    obtain cs where "split_children (ss ! lcp ss ks) ?old (ks ! lcp ss ks) ?new = Some cs"
      using split_after_lcp [OF split ss(1) assms(2), of ?old ?new] by metis
    then show ?thesis using ss split \<open>strip_prefix ss ks = None\<close>
      by (simp add: insert_outcome_def Let_def)
  qed
qed

lemma insert_internal_outcome:
  "wf_trie t \<Longrightarrow> nibbles ks \<Longrightarrow> insert_outcome t ks v"
proof (induction t arbitrary: ks rule: mpt_induct)
  case (Branch children c)
  have len: "length children = 16" using Branch.prems(1) by (simp add: wf_trie_def)
  show ?case
  proof (cases ks)
    case (Cons i tail)
    then have i: "unat i < 16" "nibbles tail" using Branch.prems(2) by (auto simp: nibble_unat)
    show ?thesis
    proof (cases "children ! unat i")
      case (Some n)
      then have "canon n" using Branch.prems(1) i len by (auto simp: wf_trie_def list_all_children)
      then have "insert_outcome n tail v"
        using Branch.IH [of "unat i" n] Some i len by (auto simp: wf_trie_def)
      then show ?thesis using Some i len list_update_id [of children "unat i"]
        by (cases "insert_internal n tail v")
          (auto simp: insert_outcome_def Cons split: res.splits bool.splits)
    qed (use i len in \<open>auto simp: insert_outcome_def Cons\<close>)
  qed (simp add: insert_outcome_def)
next
  case (Leaf p old c)
  then show ?case by (intro insert_outcome_leaf)
next
  case (Extension p n c)
  moreover have "wf_trie n" using Extension.prems(1) by (simp add: wf_trie_def)
  ultimately show ?case by (intro insert_outcome_extension) auto
qed (auto simp: insert_outcome_def)

section \<open>Keys of one length\<close>

text \<open>
  When all keys have the length of the inserted one, no key ends inside a branch, and the
  insertion keeps the length.
\<close>

definition insert_len :: "nat \<Rightarrow> mpt \<Rightarrow> u8 list \<Rightarrow> bytes \<Rightarrow> bool" where
  "insert_len L t ks v =
     (case insert_internal t ks v of (t', r) \<Rightarrow>
        r \<noteq> Err ValueInBranch \<and> (\<forall>b. r = Ok b \<longrightarrow> fixed_len L t'))"

lemma insert_len_leaf:
  assumes "nibbles ks" and "fixed_len L (MptNode (Leaf p old) c)" and "length ks = L"
  shows "insert_len L (MptNode (Leaf p old) c) ks v"
proof -
  obtain ss where ss: "prefix_nibs p = Some ss" "length ss = L" "nibbles ss"
    using assms(2) by (auto dest: hp.dec_nibbles split: option.splits)
  show ?thesis
  proof (cases "lcp ss ks = length ss")
    case True
    then show ?thesis using ss assms(3) by (auto simp: insert_len_def Let_def)
  next
    case False
    then have ne: "lcp ss ks \<noteq> length ss" "lcp ss ks \<noteq> length ks" using ss assms(3) by auto
    let ?old = "node_of (Leaf (to_encoded_path (drop (Suc (lcp ss ks)) ss) True) old)"
    let ?new = "node_of (Leaf (to_encoded_path (drop (Suc (lcp ss ks)) ks) True) v)"
    obtain ps x xs y ys cs where sp: "ss = ps @ x # xs" "ks = ps @ y # ys" "x \<noteq> y"
      "lcp ss ks = length ps" "split_children (ss ! lcp ss ks) ?old (ks ! lcp ss ks) ?new = Some cs"
      "split_children x ?old y ?new = Some cs" "nibbles ps" "x < 16" "nibbles xs" "y < 16" "nibbles ys"
      by (rule split_after_lcp [OF ne ss(3) assms(1)])
    have tk: "take (lcp ss ks) ss = ps" unfolding sp(4) by (simp add: sp(1))
    have "fixed_len L (MptNode (split_node ps cs) None)"
      using sp ss(2) assms(3)
      by (intro fixed_len_split_node [OF sp(6,7), where D = "L - Suc (length ps)"])
        (auto simp: node_of_def hp.dec_enc)
    then show ?thesis using ss ne sp(5) by (simp add: insert_len_def Let_def tk)
  qed
qed

lemma insert_len_extension:
  assumes "wf_trie (MptNode (Extension p n) c)" and "nibbles ks"
    and "fixed_len L (MptNode (Extension p n) c)" and "length ks = L"
    and IH: "\<And>ks L. nibbles ks \<Longrightarrow> fixed_len L n \<Longrightarrow> length ks = L \<Longrightarrow> insert_len L n ks v"
  shows "insert_len L (MptNode (Extension p n) c) ks v"
proof -
  obtain ss where ss: "prefix_nibs p = Some ss" "length ss \<le> L" "nibbles ss"
    "fixed_len (L - length ss) n"
    using assms(3) by (auto dest: hp.dec_nibbles split: option.splits)
  show ?thesis
  proof (cases "lcp ss ks = length ss")
    case True
    then obtain tail where ks: "ks = ss @ tail" using lcp_full by blast
    have "insert_len (L - length ss) n tail v"
      using IH [of tail "L - length ss"] assms(2,4) ss by (simp add: ks)
    then show ?thesis using ss
      by (auto simp: insert_len_def ks lcp_prefix split: prod.splits res.splits bool.splits)
  next
    case False
    have "lcp ss ks \<noteq> length ks"
    proof
      assume "lcp ss ks = length ks"
      then have "length ks \<le> length ss" using lcp_le(1) [of ss ks] by simp
      with ss(2) assms(4) False \<open>lcp ss ks = length ks\<close> show False by simp
    qed
    with False have ne: "lcp ss ks \<noteq> length ss" "lcp ss ks \<noteq> length ks" by auto
    let ?old = "if Suc (lcp ss ks) < length ss
      then node_of (Extension (to_encoded_path (drop (Suc (lcp ss ks)) ss) False) n) else n"
    let ?new = "node_of (Leaf (to_encoded_path (drop (Suc (lcp ss ks)) ks) True) v)"
    obtain ps x xs y ys cs where sp: "ss = ps @ x # xs" "ks = ps @ y # ys" "x \<noteq> y"
      "lcp ss ks = length ps" "split_children (ss ! lcp ss ks) ?old (ks ! lcp ss ks) ?new = Some cs"
      "split_children x ?old y ?new = Some cs" "nibbles ps" "x < 16" "nibbles xs" "y < 16" "nibbles ys"
      by (rule split_after_lcp [OF ne ss(3) assms(2)])
    have tk: "take (lcp ss ks) ss = ps" unfolding sp(4) by (simp add: sp(1))
    have "?old = (if xs = [] then n else node_of (Extension (to_encoded_path xs False) n))"
      using sp(4) by (simp add: sp(1))
    moreover have "L - Suc (length ps) - length xs = L - length ss" "length xs \<le> L - Suc (length ps)"
      using ss(2) by (simp_all add: sp(1))
    ultimately have "fixed_len (L - Suc (length ps)) ?old"
      using ss(4) sp(9) by (cases "xs = []") (simp_all add: node_of_def hp.dec_enc)
    then have "fixed_len L (MptNode (split_node ps cs) None)"
      using sp ss(2) assms(4)
      by (intro fixed_len_split_node [OF sp(6,7), where D = "L - Suc (length ps)"])
        (auto simp: node_of_def hp.dec_enc)
    then show ?thesis using ss ne sp(5) by (simp add: insert_len_def Let_def tk)
  qed
qed

lemma insert_internal_len:
  "wf_trie t \<Longrightarrow> nibbles ks \<Longrightarrow> fixed_len L t \<Longrightarrow> length ks = L \<Longrightarrow> insert_len L t ks v"
proof (induction t arbitrary: ks L rule: mpt_induct)
  case (Branch children c)
  have len: "length children = 16" using Branch.prems(1) by (simp add: wf_trie_def)
  have fx: "list_all (\<lambda>child. case child of None \<Rightarrow> True | Some n \<Rightarrow> fixed_len (L - Suc 0) n) children"
    using Branch.prems(3) by simp
  obtain i tail where ks: "ks = i # tail" using Branch.prems(3,4) by (cases ks) auto
  then have i: "unat i < 16" "nibbles tail" "length tail = L - Suc 0"
    using Branch.prems(2,4) by (auto simp: nibble_unat)
  have upd: "fixed_len L (MptNode (Branch (children[unat i := Some n])) c')"
    if "fixed_len (L - Suc 0) n" for n c'
    using list_all_children_update [OF fx, of "Some n" "unat i"] that Branch.prems(3) by simp
  show ?case
  proof (cases "children ! unat i")
    case None
    then show ?thesis using i len upd [of "node_of (Leaf (to_encoded_path tail True) v)"]
      by (simp add: insert_len_def ks node_of_def hp.dec_enc)
  next
    case (Some n)
    have "canon n" "fixed_len (L - Suc 0) n"
      using Branch.prems(1) fx Some i len unfolding list_all_children wf_trie_def
      by (auto simp: list_all_children)
    then have "insert_len (L - Suc 0) n tail v"
      using Branch.IH [of "unat i" n tail "L - Suc 0"] Some i len by (auto simp: wf_trie_def)
    then show ?thesis using Some i len upd
      by (auto simp: insert_len_def ks split: prod.splits res.splits bool.splits)
  qed
next
  case (Leaf p old c)
  then show ?case by (intro insert_len_leaf)
next
  case (Extension p n c)
  moreover have "wf_trie n" using Extension.prems(1) by (simp add: wf_trie_def)
  ultimately show ?case by (intro insert_len_extension) auto
qed (auto simp: insert_len_def hp.dec_enc)

end
