(* ===== verification/Mpt_Canonical.thy ===== *)
theory Mpt_Canonical
  imports Mpt_Map
begin

text \<open>
  Canonical tries are determined by what they answer: two well-formed tries that give the
  same answer on every nibble path are the same up to caches. The proof reads the shape of a
  node off its support, the set of paths on which it does not answer \<open>Ok(None)\<close>.
\<close>

definition same_reads :: "mpt \<Rightarrow> mpt \<Rightarrow> bool" where
  "same_reads a b \<longleftrightarrow> (\<forall>ks. nibbles ks \<longrightarrow> get_internal a ks = get_internal b ks)"

definition hits :: "mpt \<Rightarrow> u8 list set" where
  "hits t = {ks. nibbles ks \<and> get_internal t ks \<noteq> Ok None}"

lemma same_reads_hits: "same_reads a b \<Longrightarrow> hits a = hits b"
  by (auto simp: same_reads_def hits_def)

lemma same_readsD: "same_reads a b \<Longrightarrow> nibbles ks \<Longrightarrow> get_internal b ks = get_internal a ks"
  by (simp add: same_reads_def)

lemma same_reads_sym: "same_reads a b \<Longrightarrow> same_reads b a"
  by (simp add: same_reads_def)

lemma same_reads_trans: "same_reads a b \<Longrightarrow> same_reads b c \<Longrightarrow> same_reads a c"
  by (simp add: same_reads_def)

section \<open>The support of each kind of node\<close>

lemma hits_branch:
  assumes "length cs = 16"
  shows "i # tail \<in> hits (MptNode (Branch cs) c) \<longleftrightarrow>
    i < 16 \<and> (\<exists>n. cs ! unat i = Some n \<and> tail \<in> hits n)"
  using assms by (auto simp: hits_def nibble_unat split: option.splits)

lemma hits_branch_Nil: "[] \<notin> hits (MptNode (Branch cs) c)"
  by (simp add: hits_def)

lemma hits_extension:
  assumes "prefix_nibs p = Some ss" and "nibbles ss"
  shows "hits (MptNode (Extension p n) c) = (\<lambda>tail. ss @ tail) ` hits n"
  using assms by (auto simp: hits_def strip_prefix_Some image_iff split: option.splits)

lemma hits_leaf:
  assumes "prefix_nibs p = Some ss" and "nibbles ss"
  shows "hits (MptNode (Leaf p v) c) = {ss}"
  using assms by (auto simp: hits_def)

lemma hits_digest: "hits (MptNode (Digest h) c) = {ks. nibbles ks}"
  by (simp add: hits_def)

lemma hits_null: "hits (MptNode Null c) = {}"
  by (simp add: hits_def)

lemma hits_nonempty: "canon t \<Longrightarrow> hits t \<noteq> {}"
proof (induction t rule: mpt_induct)
  case (Branch cs c)
  then have "length cs = 16" "2 \<le> length (occupied 0 cs)" by auto
  then obtain j n where j: "j < 16" "cs ! j = Some n" by (metis occupied_two)
  then obtain ks where "ks \<in> hits n"
    using Branch by (fastforce simp: list_all_children)
  then have "of_nat j # ks \<in> hits (MptNode (Branch cs) c)"
    using j \<open>length cs = 16\<close> by (simp add: hits_branch nibble_of_nat)
  then show ?case by blast
next
  case (Leaf p v c)
  then show ?case by (auto simp: hits_leaf elim: valid_pathE)
next
  case (Extension p n c)
  then show ?case by (auto simp: hits_extension elim: valid_pathE)
next
  case (Digest h c)
  have "[] \<in> hits (MptNode (Digest h) c)" by (simp add: hits_digest)
  then show ?case by blast
qed simp

lemma hits_wf_empty: "wf_trie t \<Longrightarrow> hits t = {} \<longleftrightarrow> is_empty t"
  using hits_nonempty [of t] by (cases t rule: canon.cases) (auto simp: wf_trie_def hits_null)

lemma hits_branch_heads:
  assumes "canon (MptNode (Branch cs) c)"
  obtains i j xs ys where "i \<noteq> j"
    "i # xs \<in> hits (MptNode (Branch cs) c)" "j # ys \<in> hits (MptNode (Branch cs) c)"
proof -
  have len: "length cs = 16" and two: "2 \<le> length (occupied 0 cs)"
    and all: "\<And>i n. i < 16 \<Longrightarrow> cs ! i = Some n \<Longrightarrow> canon n"
    using assms by (auto simp: list_all_children)
  from two obtain j k m n where jk: "j \<noteq> k" "j < 16" "k < 16" "cs ! j = Some m" "cs ! k = Some n"
    using len by (metis occupied_two)
  obtain xs ys where "xs \<in> hits m" "ys \<in> hits n"
    using jk all hits_nonempty by blast
  moreover have "(of_nat j :: u8) \<noteq> of_nat k"
    using jk(1-3) unat_of_nat_nibble by metis
  ultimately show thesis
    using jk len by (intro that [of "of_nat j" "of_nat k" xs ys]) (auto simp: hits_branch nibble_of_nat)
qed

text \<open>Only a leaf has a single path in its support.\<close>

lemma hits_two:
  assumes "canon t" and "hits t = {ks}"
  obtains p v c where "t = MptNode (Leaf p v) c"
proof (cases t rule: canon.cases)
  case (2 cs c)
  then show ?thesis using assms hits_branch_heads [of cs c] by (metis list.inject singletonD)
next
  case (4 p n c)
  then obtain ss where ss: "prefix_nibs p = Some ss" "nibbles ss"
    using assms(1) by (auto elim: valid_pathE)
  from assms(1) 4 have n: "is_branch n \<or> is_digest n" "canon n" by auto
  have "\<exists>xs ys. xs \<noteq> ys \<and> xs \<in> hits n \<and> ys \<in> hits n"
  proof (cases n rule: canon.cases)
    case (2 cs c)
    then show ?thesis using n(2) hits_branch_heads [of cs c] by (metis list.inject)
  next
    case (5 h c)
    then have "[] \<in> hits n" "[0] \<in> hits n" by (simp_all add: hits_digest)
    then show ?thesis by blast
  qed (use n in auto)
  then obtain xs ys where xy: "xs \<noteq> ys" "xs \<in> hits n" "ys \<in> hits n" by blast
  then have "ss @ xs \<in> hits t" "ss @ ys \<in> hits t" using ss by (auto simp: 4 hits_extension)
  then show ?thesis using assms(2) xy(1) by auto
next
  case (5 h c)
  then have "[] \<in> hits t" "[0] \<in> hits t" by (simp_all add: hits_digest)
  then show ?thesis using assms(2) by auto
qed (use assms that in auto)

text \<open>The path of an extension is the longest common prefix of its support.\<close>

lemma hits_extension_lcp:
  assumes c: "canon (MptNode (Extension p n) c)" and p: "prefix_nibs p = Some ss"
    and all: "\<And>ks. ks \<in> hits (MptNode (Extension p n) c) \<Longrightarrow> \<exists>tail. ks = qs @ tail"
  obtains rest where "ss = qs @ rest"
proof -
  have ss: "nibbles ss" using c p by (auto elim: valid_pathE)
  have n: "is_branch n \<or> is_digest n" "canon n" using c by auto
  show thesis
  proof (cases n rule: canon.cases)
    case (2 cs c')
    then obtain i j xs ys where ij: "i \<noteq> j" "i # xs \<in> hits n" "j # ys \<in> hits n"
      using n(2) hits_branch_heads [of cs c'] by metis
    then obtain t1 t2 where t: "ss @ i # xs = qs @ t1" "ss @ j # ys = qs @ t2"
      using all p ss by (fastforce simp: hits_extension)
    show thesis
    proof (cases "length qs \<le> length ss")
      case True
      then have "ss = qs @ drop (length qs) ss"
        using t(1) by (metis append_eq_append_conv_if append_take_drop_id)
      then show thesis by (rule that)
    next
      case False
      then have "qs ! length ss = i" "qs ! length ss = j"
        using t by (metis nth_append nth_append_length not_le)+
      with ij(1) show thesis by simp
    qed
  next
    case (5 h c')
    then have "ss \<in> hits (MptNode (Extension p n) c)"
      using p ss by (auto simp: hits_extension hits_digest)
    then show thesis using all that by blast
  qed (use n in auto)
qed

section \<open>Uniqueness\<close>

lemma erase_any_cache: "erase (MptNode d c) = erase (MptNode d c')"
  by simp

lemma same_reads_digest:
  assumes "wf_trie a" and "get_internal a [] = Err (NodeNotResolved h)"
  obtains c where "a = MptNode (Digest h) c"
proof (cases a rule: canon.cases)
  case (3 p v c)
  then show ?thesis using assms
    by (auto simp: wf_trie_def split: if_splits elim!: valid_pathE)
next
  case (4 p n c)
  then obtain ss where "prefix_nibs p = Some ss" "ss \<noteq> []"
    using assms(1) by (auto simp: wf_trie_def elim: valid_pathE)
  then show ?thesis using assms(2) 4 by (cases ss) auto
qed (use assms that in auto)

lemma same_reads_leaf:
  assumes "canon (MptNode (Leaf p v) c)" and "canon b" and "same_reads (MptNode (Leaf p v) c) b"
  shows "erase (MptNode (Leaf p v) c) = erase b"
proof -
  obtain ss where ss: "prefix_nibs p = Some ss" "nibbles ss" "p = to_encoded_path ss True"
    using assms(1) by (auto elim: valid_pathE)
  have "hits b = {ss}" using same_reads_hits [OF assms(3)] ss by (simp add: hits_leaf)
  then obtain q w c' where b: "b = MptNode (Leaf q w) c'" using assms(2) hits_two by blast
  obtain ts where ts: "prefix_nibs q = Some ts" "nibbles ts" "q = to_encoded_path ts True"
    using assms(2) b by (auto elim: valid_pathE)
  have "ts = ss" using \<open>hits b = {ss}\<close> ts by (simp add: b hits_leaf)
  moreover note same_readsD [OF assms(3) ss(2)]
  ultimately show ?thesis using ss ts by (simp add: b)
qed

lemma same_reads_child:
  assumes "same_reads (MptNode (Branch cs) c) (MptNode (Branch ds) c')"
    and "length cs = 16" and "length ds = 16" and "k < 16"
    and "cs ! k = Some m" and "ds ! k = Some n"
  shows "same_reads m n"
  unfolding same_reads_def
proof (intro allI impI)
  fix ks assume "nibbles ks"
  then have "nibbles (of_nat k # ks)" using assms(4) by (simp add: nibble_of_nat)
  then have "get_internal (MptNode (Branch cs) c) (of_nat k # ks) =
    get_internal (MptNode (Branch ds) c') (of_nat k # ks)"
    using assms(1) unfolding same_reads_def by blast
  then show "get_internal m ks = get_internal n ks" using assms(2-) by simp
qed

lemma same_reads_branch_slot:
  assumes "same_reads (MptNode (Branch cs) c) (MptNode (Branch ds) c')"
    and c: "canon (MptNode (Branch cs) c)" and d: "canon (MptNode (Branch ds) c')"
    and "k < 16" and "cs ! k = Some m"
  obtains n where "ds ! k = Some n"
proof -
  have "canon m" "length cs = 16" "length ds = 16"
    using assms by (auto simp: list_all_children)
  then obtain ks where "ks \<in> hits m" using hits_nonempty by blast
  then have "of_nat k # ks \<in> hits (MptNode (Branch ds) c')"
    using assms same_reads_hits [OF assms(1)] \<open>length cs = 16\<close>
    by (metis hits_branch nibble_of_nat unat_of_nat_nibble)
  then show thesis using that \<open>length ds = 16\<close> assms(4) by (auto simp: hits_branch)
qed

lemma same_reads_extension_path:
  assumes "canon (MptNode (Extension p m) c)" and "canon (MptNode (Extension q n) c')"
    and "prefix_nibs p = Some ss" and "prefix_nibs q = Some ts" and "nibbles ts"
    and "hits (MptNode (Extension p m) c) = hits (MptNode (Extension q n) c')"
  shows "\<exists>rest. ss = ts @ rest"
proof -
  have "\<exists>tail. ks = ts @ tail" if "ks \<in> hits (MptNode (Extension p m) c)" for ks
    using that hits_extension [OF assms(4,5), of n c'] by (auto simp: assms(6))
  then show ?thesis using hits_extension_lcp [OF assms(1,3), of ts] by metis
qed

lemma two_heads_branch:
  assumes "canon b" and nil: "get_internal b [] = Ok None"
    and ij: "i \<noteq> j" "i # xs \<in> hits b" "j # ys \<in> hits b"
  obtains ds c where "b = MptNode (Branch ds) c"
proof (cases b rule: canon.cases)
  case (3 p v c)
  then obtain ss where "prefix_nibs p = Some ss" "nibbles ss"
    using assms(1) by (auto elim: valid_pathE)
  then have "hits b = {ss}" by (simp add: 3 hits_leaf)
  then have "i # xs = j # ys" using ij(2,3) by simp
  then show ?thesis using ij(1) by simp
next
  case (4 p n c)
  then obtain s ss where "prefix_nibs p = Some (s # ss)" "nibbles (s # ss)"
    using assms(1) by (metis canon.simps(4) list.exhaust valid_pathE)
  then have "hits b = (\<lambda>tail. (s # ss) @ tail) ` hits n" by (simp only: 4 hits_extension)
  then have "hd ks = s" if "ks \<in> hits b" for ks using that by auto
  from this [OF ij(2)] this [OF ij(3)] ij(1) show ?thesis by simp
qed (use assms that in auto)

theorem canonical_unique:
  "canon a \<Longrightarrow> canon b \<Longrightarrow> same_reads a b \<Longrightarrow> erase a = erase b"
proof (induction a arbitrary: b rule: mpt_induct)
  case (Branch cs c)
  obtain i j xs ys where "i \<noteq> j" and ij: "i # xs \<in> hits b" "j # ys \<in> hits b"
    using hits_branch_heads [OF Branch.prems(1)] same_reads_hits [OF Branch.prems(3)] by metis
  have nil: "get_internal b [] = Ok None" using same_readsD [OF Branch.prems(3), of "[]"] by simp
  obtain ds c' where b: "b = MptNode (Branch ds) c'"
    using two_heads_branch [OF Branch.prems(2) nil \<open>i \<noteq> j\<close> ij] .
  have len: "length cs = 16" "length ds = 16" using Branch.prems b by auto
  have "map (map_option erase) cs = map (map_option erase) ds"
  proof (rule nth_equalityI)
    fix k assume "k < length (map (map_option erase) cs)"
    then have k: "k < 16" using len by simp
    have "map_option erase (cs ! k) = map_option erase (ds ! k)"
    proof (cases "cs ! k")
      case None
      then show ?thesis
        using same_reads_branch_slot [OF same_reads_sym [OF Branch.prems(3) [unfolded b]]
            Branch.prems(2) [unfolded b] Branch.prems(1) k]
        by (cases "ds ! k") auto
    next
      case (Some m)
      obtain n where n: "ds ! k = Some n"
        using same_reads_branch_slot [OF Branch.prems(3) [unfolded b] Branch.prems(1)
            Branch.prems(2) [unfolded b] k Some] by blast
      have "canon m" "canon n" using Branch.prems Some n k len b by (auto simp: list_all_children)
      moreover have "same_reads m n"
        using same_reads_child [OF Branch.prems(3) [unfolded b] len k Some n] .
      ultimately show ?thesis using Branch.IH [of k m n] Some n k len by simp
    qed
    then show "map (map_option erase) cs ! k = map (map_option erase) ds ! k" using k len by simp
  qed (simp add: len)
  then show ?case by (simp add: b)
next
  case (Leaf p v c)
  then show ?case by (rule same_reads_leaf)
next
  case (Extension p m c)
  obtain ss where ss: "prefix_nibs p = Some ss" "nibbles ss" "ss \<noteq> []" "p = to_encoded_path ss False"
    using Extension.prems(1) by (auto elim: valid_pathE)
  have hits: "hits b = (\<lambda>tail. ss @ tail) ` hits m"
    using same_reads_hits [OF Extension.prems(3)] ss by (simp add: hits_extension)
  have nil: "get_internal b [] = Ok None"
    using same_readsD [OF Extension.prems(3), of "[]"] ss by (cases ss) auto
  obtain q n c' where b: "b = MptNode (Extension q n) c'"
  proof (cases b rule: canon.cases)
    case (2 ds c')
    then show ?thesis using hits_branch_heads [of ds c'] Extension.prems(2) hits ss(3)
      by (smt (verit) hd_append2 image_iff list.sel(1))
  next
    case (3 q v c')
    then obtain ts where "hits b = {ts}" using Extension.prems(2) by (auto simp: hits_leaf elim!: valid_pathE)
    then show ?thesis using hits_two [OF Extension.prems(1)] same_reads_hits [OF Extension.prems(3)] by blast
  qed (use Extension.prems nil that in auto)
  obtain ts where ts: "prefix_nibs q = Some ts" "nibbles ts" "ts \<noteq> []" "q = to_encoded_path ts False"
    using Extension.prems(2) by (auto simp: b elim: valid_pathE)
  have eq: "hits (MptNode (Extension p m) c) = hits (MptNode (Extension q n) c')"
    using same_reads_hits [OF Extension.prems(3)] by (simp add: b)
  obtain r1 r2 where "ss = ts @ r1" "ts = ss @ r2"
    using same_reads_extension_path [OF Extension.prems(1) _ ss(1) ts(1,2) eq]
      same_reads_extension_path [OF _ Extension.prems(1) ts(1) ss(1,2) eq [symmetric]]
      Extension.prems(2) b by blast
  then have st: "ts = ss" by simp
  have "same_reads m n"
    unfolding same_reads_def
  proof (intro allI impI)
    fix ks assume "nibbles ks"
    then show "get_internal m ks = get_internal n ks"
      using same_readsD [OF Extension.prems(3), of "ss @ ks"] ss ts st by (simp add: b)
  qed
  then show ?case using Extension.IH [of n] Extension.prems ss(4) ts(4) st by (simp add: b)
next
  case (Digest h c)
  have "get_internal b [] = Err (NodeNotResolved h)"
    using same_readsD [OF Digest.prems(3), of "[]"] by simp
  then obtain c' where "b = MptNode (Digest h) c'"
    using Digest.prems(2) same_reads_digest by (auto simp: wf_trie_def)
  then show ?case by simp
qed simp

end
