(* ===== verification/Mpt_Delete.thy ===== *)
theory Mpt_Delete
  imports Mpt_Canonical
begin

text \<open>Correctness of \<open>delete_internal\<close>, with the two rebuilding steps it ends in.\<close>

section \<open>A failed or ineffective deletion changes nothing\<close>

lemma delete_internal_unchanged:
  "delete_internal t ks = (t', r) \<Longrightarrow> r \<noteq> Ok True \<Longrightarrow> r \<noteq> Panic \<Longrightarrow> t' = t"
proof (induction t arbitrary: ks t' r rule: mpt_induct)
  case (Branch children c)
  show ?case
  proof (cases ks)
    case (Cons i tail)
    show ?thesis
    proof (cases "unat i < length children \<and> children ! unat i \<noteq> None")
      case True
      then obtain node where node: "unat i < length children" "children ! unat i = Some node" by auto
      obtain node' r' where rec: "delete_internal node tail = (node', r')"
        by (cases "delete_internal node tail")
      have "r' \<noteq> Ok True \<Longrightarrow> r' \<noteq> Panic \<Longrightarrow> children[unat i := Some node'] = children"
        using Branch.IH [OF node rec] node by (metis list_update_id)
      then show ?thesis
        using Branch.prems node rec
        by (auto simp: Cons Let_def split: res.splits bool.splits option.splits)
    next
      case False
      then show ?thesis using Branch.prems by (auto simp: Cons split: if_splits)
    qed
  qed (use Branch.prems in simp)
next
  case (Extension p n c)
  show ?case
  proof (cases "prefix_nibs p")
    case (Some ss)
    show ?thesis
    proof (cases "strip_prefix ss ks")
      case (Some tail)
      obtain n' r' where rec: "delete_internal n tail = (n', r')" by (cases "delete_internal n tail")
      show ?thesis
        using Extension.prems Extension.IH [OF rec] \<open>prefix_nibs p = Some ss\<close> Some rec
        by (auto split: res.splits bool.splits option.splits)
    qed (use Extension.prems Some in simp)
  qed (use Extension.prems in simp)
qed (auto split: if_splits option.splits)

section \<open>Collapsing a branch\<close>

lemma get_single_child:
  assumes "occupied 0 children = [(index, orphan)]" and "length children = 16" and "nibbles ks"
  shows "get_internal (MptNode (Branch children) c) ks =
    (case strip_prefix [of_nat index] ks of
       Some tail \<Rightarrow> get_internal orphan tail | None \<Rightarrow> Ok None)"
proof -
  have at: "(j, n) \<in> set (occupied 0 children) \<longleftrightarrow> j < 16 \<and> children ! j = Some n" for j n
    using assms(2) by (simp add: occupied_iff)
  then have ix: "index < 16" "children ! index = Some orphan" using assms(1) by auto
  have others: "children ! j = None" if "j < 16" "j \<noteq> index" for j
    using at [of j] that assms(1) by (cases "children ! j") auto
  show ?thesis
  proof (cases ks)
    case (Cons x tail)
    have x: "unat x < 16" using assms(3) by (simp add: Cons nibble_unat)
    have "x = of_nat index \<longleftrightarrow> unat x = index"
      using ix(1) by (auto simp: word_unat_eq_iff)
    then show ?thesis
      using x ix others [of "unat x"] assms(2) by (auto simp: Cons)
  qed simp
qed

lemma collapse_branch_correct:
  assumes "length children = 16" and "occupied 0 children \<noteq> []"
    and "list_all (\<lambda>child. case child of None \<Rightarrow> True | Some n \<Rightarrow> canon n) children"
  shows "\<exists>d. collapse_branch children = Some d \<and> canon (MptNode d c) \<and>
    same_reads (MptNode d c) (MptNode (Branch children) c') \<and>
    (fixed_len L (MptNode (Branch children) c') \<longrightarrow> fixed_len L (MptNode d c))"
proof (cases "\<exists>index orphan. occupied 0 children = [(index, orphan)]")
  case False
  then have "collapse_branch children = Some (Branch children)" "2 \<le> length (occupied 0 children)"
    using assms(2) by (auto simp: collapse_branch_def Suc_le_length_iff numeral_2_eq_2
        neq_Nil_conv split: list.splits)
  then show ?thesis using assms(1,3)
    by (auto simp: same_reads_def get_internal_any_cache [of _ c _ c'] fixed_len_any_cache [of _ _ c c'])
next
  case True
  then obtain index orphan where one: "occupied 0 children = [(index, orphan)]" by blast
  then have "(index, orphan) \<in> set (occupied 0 children)" by simp
  then have ix: "index < 16" "children ! index = Some orphan"
    using assms(1) by (simp_all add: occupied_iff)
  have orphan: "canon orphan"
    using assms(1,3) ix by (simp add: list_all_children)
  have flen: "0 < L \<and> fixed_len (L - 1) orphan" if "fixed_len L (MptNode (Branch children) c')"
    using that ix assms(1) by (simp add: list_all_children)
  note reads = get_single_child [OF one assms(1), of _ c']
  have idx: "of_nat index < (16 :: u8)" using ix(1) by (rule nibble_of_nat)
  obtain od oc where od: "orphan = MptNode od oc" by (cases orphan)
  show ?thesis
  proof (cases od)
    case Null
    then show ?thesis using orphan by (simp add: od)
  next
    case (Leaf p v)
    then obtain ns where ns: "nibbles ns" "prefix_nibs p = Some ns"
      using orphan by (auto simp: od elim: valid_pathE)
    show ?thesis using ns idx flen reads
      by (auto simp: collapse_branch_def one od Leaf same_reads_def hp.dec_enc
          split: option.splits) (auto simp: strip_prefix_Some strip_prefix_None)
  next
    case (Extension p n)
    then obtain ns where ns: "nibbles ns" "prefix_nibs p = Some ns"
      using orphan by (auto simp: od elim: valid_pathE)
    have "strip_prefix (of_nat index # ns) ks = (case strip_prefix [of_nat index] ks of
        None \<Rightarrow> None | Some tail \<Rightarrow> strip_prefix ns tail)" for ks
      using strip_prefix_add [of "[of_nat index]" ns ks] by simp
    then show ?thesis using ns idx flen reads orphan
      by (auto simp: collapse_branch_def one od Extension same_reads_def hp.dec_enc
          split: option.splits)
  next
    case (Branch cs)
    then show ?thesis using idx flen reads [unfolded od Branch] orphan
      by (auto simp: collapse_branch_def one od same_reads_def hp.dec_enc)
  next
    case (Digest h)
    then show ?thesis using idx flen reads [unfolded od Digest]
      by (auto simp: collapse_branch_def one od same_reads_def hp.dec_enc)
  qed
qed

lemma merge_extension_correct:
  assumes "wf_trie child" and "nibbles ss" and "ss \<noteq> []"
    and "prefix_nibs p = Some ss" and "p = to_encoded_path ss False"
  shows "\<exists>d. merge_extension p ss child = Some d \<and> wf_trie (MptNode d c) \<and>
    same_reads (MptNode d c) (MptNode (Extension p child) c') \<and>
    (fixed_len L (MptNode (Extension p child) c') \<longrightarrow> fixed_len L (MptNode d c))"
proof -
  obtain cd cc where cd: "child = MptNode cd cc" by (cases child)
  show ?thesis
  proof (cases cd)
    case Null
    then show ?thesis using assms
      by (auto simp: merge_extension_def cd wf_trie_def same_reads_def split: option.splits)
  next
    case (Leaf q v)
    then obtain ns where ns: "nibbles ns" "prefix_nibs q = Some ns"
      using assms(1) by (auto simp: cd wf_trie_def elim: valid_pathE)
    show ?thesis using ns assms
      by (auto simp: merge_extension_def cd Leaf wf_trie_def same_reads_def hp.dec_enc
          strip_prefix_Some strip_prefix_None split: option.splits)
  next
    case (Extension q n)
    then obtain ns where ns: "nibbles ns" "prefix_nibs q = Some ns" "ns \<noteq> []"
      and n: "is_branch n \<or> is_digest n" "canon n"
      using assms(1) by (auto simp: cd wf_trie_def elim: valid_pathE)
    show ?thesis using ns n assms
      by (auto simp: merge_extension_def cd Extension wf_trie_def same_reads_def hp.dec_enc
          strip_prefix_add split: option.splits)
  qed (use assms in \<open>auto simp: merge_extension_def cd wf_trie_def same_reads_def split: option.splits\<close>)
qed

section \<open>The effect of a deletion\<close>

text \<open>
  \<open>delete_outcome\<close> covers every branch: a key that is found is removed and the answer is
  \<open>Ok(true)\<close>; an absent key leaves the trie alone with \<open>Ok(false)\<close>, or \<open>ValueInBranch\<close>
  when it ends inside a branch; an unresolved node is reported. \<open>deleted\<close> is the effect.
\<close>

definition deleted :: "mpt \<Rightarrow> u8 list \<Rightarrow> mpt \<Rightarrow> bool" where
  "deleted t ks t' \<longleftrightarrow> wf_trie t' \<and>
    (\<forall>ks'. nibbles ks' \<longrightarrow>
      get_internal t' ks' = (if ks' = ks then Ok None else get_internal t ks'))"

definition delete_outcome :: "mpt \<Rightarrow> u8 list \<Rightarrow> bool" where
  "delete_outcome t ks =
     (case get_internal t ks of
        Ok (Some v) \<Rightarrow> (\<exists>t'. delete_internal t ks = (t', Ok True) \<and> deleted t ks t')
      | Ok None \<Rightarrow> delete_internal t ks \<in> {(t, Ok False), (t, Err ValueInBranch)}
      | Err e \<Rightarrow> delete_internal t ks = (t, Err e)
      | Panic \<Rightarrow> False)"

definition delete_len :: "nat \<Rightarrow> mpt \<Rightarrow> u8 list \<Rightarrow> bool" where
  "delete_len L t ks \<longleftrightarrow> (fixed_len L t \<longrightarrow> length ks = L \<longrightarrow>
     snd (delete_internal t ks) \<noteq> Err ValueInBranch \<and>
     (\<forall>t' b. delete_internal t ks = (t', Ok b) \<longrightarrow> fixed_len L t'))"

lemma same_reads_deleted:
  "deleted t ks t' \<Longrightarrow> wf_trie s \<Longrightarrow> same_reads s t' \<Longrightarrow> deleted t ks s"
  by (simp add: deleted_def same_reads_def)

lemma delete_branch_child:
  assumes wf: "wf_trie (MptNode (Branch children) c)" and ks: "nibbles (i # tail)"
    and node: "children ! unat i = Some node"
    and rec: "delete_internal node tail = (node', Ok True)" and eff: "deleted node tail node'"
    and fl: "fixed_len L (MptNode (Branch children) c) \<Longrightarrow> fixed_len (L - 1) node'"
  shows "\<exists>t'. delete_internal (MptNode (Branch children) c) (i # tail) = (t', Ok True) \<and>
    deleted (MptNode (Branch children) c) (i # tail) t' \<and>
    (fixed_len L (MptNode (Branch children) c) \<longrightarrow> fixed_len L t')"
proof -
  define x where "x = (if is_empty node' then None else Some node')"
  define cs where "cs = children[unat i := x]"
  have i: "i < 16" "unat i < 16" "nibbles tail" using ks by (auto simp: nibble_unat)
  have len: "length children = 16" and two: "2 \<le> length (occupied 0 children)"
    and all: "list_all (\<lambda>child. case child of None \<Rightarrow> True | Some n \<Rightarrow> canon n) children"
    using wf by (auto simp: wf_trie_def)
  have lcs: "length cs = 16" by (simp add: cs_def len)
  have "occupied 0 cs \<noteq> []"
    using two filter_update_any [of children "unat i" x]
      length_occupied [of 0 children] length_occupied [of 0 cs]
    by (auto simp: cs_def)
  moreover have "list_all (\<lambda>child. case child of None \<Rightarrow> True | Some n \<Rightarrow> canon n) cs"
    unfolding cs_def using all eff
    by (intro list_all_children_update) (auto simp: x_def deleted_def wf_trie_def)
  ultimately obtain d where d: "collapse_branch cs = Some d" "canon (MptNode d None)"
    "same_reads (MptNode d None) (MptNode (Branch cs) None)"
    "fixed_len L (MptNode (Branch cs) None) \<longrightarrow> fixed_len L (MptNode d None)"
    using collapse_branch_correct [OF lcs, of None None L] by blast
  have "delete_internal (MptNode (Branch children) c) (i # tail) = (MptNode d None, Ok True)"
    using node rec i len d(1) by (simp add: Let_def cs_def x_def)
  moreover have x_reads: "(case x of Some n \<Rightarrow> get_internal n ms | None \<Rightarrow> Ok None) =
      get_internal node' ms" for ms
    by (cases node' rule: canon.cases) (auto simp: x_def is_empty_def)
  have "get_internal (MptNode (Branch cs) None) ms = (if ms = i # tail then Ok None
      else get_internal (MptNode (Branch children) c) ms)" if ms: "nibbles ms" for ms
  proof (cases ms)
    case (Cons j rest)
    have j: "unat j < 16" "nibbles rest" using ms by (auto simp: Cons nibble_unat)
    have ji: "unat j = unat i \<longleftrightarrow> j = i" by (simp add: word_unat_eq_iff)
    show ?thesis
    proof (cases "j = i")
      case True
      have "get_internal (MptNode (Branch cs) None) ms = get_internal node' rest"
        using i lcs len x_reads [of rest] by (simp add: Cons True cs_def split: option.splits)
      then show ?thesis using eff j i node len by (simp add: Cons True deleted_def)
    next
      case False
      then show ?thesis using j ji lcs len by (simp add: Cons cs_def)
    qed
  qed simp
  then have "deleted (MptNode (Branch children) c) (i # tail) (MptNode d None)"
    using d(2,3) by (simp add: deleted_def same_reads_def wf_trie_def)
  moreover have "fixed_len L (MptNode (Branch children) c) \<longrightarrow> fixed_len L (MptNode d None)"
  proof
    assume f: "fixed_len L (MptNode (Branch children) c)"
    then have "fixed_len L (MptNode (Branch cs) None)"
      using fl [OF f] unfolding cs_def
      by (auto intro!: list_all_children_update simp: x_def)
    with d(4) show "fixed_len L (MptNode d None)" by blast
  qed
  ultimately show ?thesis by blast
qed

lemma delete_extension_child:
  assumes p: "prefix_nibs p = Some ss" "p = to_encoded_path ss False" "nibbles ss" "ss \<noteq> []"
    and rec: "delete_internal n tail = (n', Ok True)" and eff: "deleted n tail n'"
    and fl: "fixed_len L (MptNode (Extension p n) c) \<Longrightarrow> fixed_len (L - length ss) n'"
  shows "\<exists>t'. delete_internal (MptNode (Extension p n) c) (ss @ tail) = (t', Ok True) \<and>
    deleted (MptNode (Extension p n) c) (ss @ tail) t' \<and>
    (fixed_len L (MptNode (Extension p n) c) \<longrightarrow> fixed_len L t')"
proof -
  obtain d where d: "merge_extension p ss n' = Some d" "wf_trie (MptNode d None)"
    "same_reads (MptNode d None) (MptNode (Extension p n') None)"
    "fixed_len L (MptNode (Extension p n') None) \<longrightarrow> fixed_len L (MptNode d None)"
    using merge_extension_correct [of n' ss p None None L] p eff by (auto simp: deleted_def)
  have "delete_internal (MptNode (Extension p n) c) (ss @ tail) = (MptNode d None, Ok True)"
    using p rec d(1) by simp
  moreover have "get_internal (MptNode (Extension p n') None) ms = (if ms = ss @ tail then Ok None
      else get_internal (MptNode (Extension p n) c) ms)" if "nibbles ms" for ms
    using p(1) eff that by (auto simp: deleted_def strip_prefix_Some split: option.splits)
  then have "deleted (MptNode (Extension p n) c) (ss @ tail) (MptNode d None)"
    using d(2,3) by (simp add: deleted_def same_reads_def)
  moreover have "fixed_len L (MptNode (Extension p n) c) \<longrightarrow> fixed_len L (MptNode d None)"
    using fl d(4) p(1) by auto
  ultimately show ?thesis by blast
qed

lemma delete_correct_branch:
  assumes wf: "wf_trie (MptNode (Branch children) c)" and ks: "nibbles (i # tail)"
    and n: "children ! unat i = Some n"
    and IH: "delete_outcome n tail" "delete_len (L - 1) n tail"
  shows "delete_outcome (MptNode (Branch children) c) (i # tail) \<and>
    delete_len L (MptNode (Branch children) c) (i # tail)"
proof -
  have len: "length children = 16" using wf by (simp add: wf_trie_def)
  have i: "unat i < 16" "nibbles tail" using ks by (auto simp: nibble_unat)
  have fn: "0 < L \<and> fixed_len (L - 1) n" if "fixed_len L (MptNode (Branch children) c)"
    using that n i len by (simp add: list_all_children)
  have same: "children[unat i := Some n] = children" using n by (metis list_update_id)
  show ?thesis
  proof (cases "get_internal n tail")
    case (Ok x)
    show ?thesis
    proof (cases x)
      case None
      then show ?thesis using IH Ok n i len same fn
        by (auto simp: delete_outcome_def delete_len_def)
    next
      case (Some v)
      then obtain n' where n': "delete_internal n tail = (n', Ok True)" "deleted n tail n'"
        using IH(1) Ok by (auto simp: delete_outcome_def)
      have fl: "fixed_len (L - 1) n'"
        if "length (i # tail) = L" "fixed_len L (MptNode (Branch children) c)"
        using that fn IH(2) n'(1) by (auto simp: delete_len_def)
      note child = delete_branch_child [OF wf ks n n']
      have "\<exists>t'. delete_internal (MptNode (Branch children) c) (i # tail) = (t', Ok True) \<and>
        deleted (MptNode (Branch children) c) (i # tail) t' \<and>
        (fixed_len L (MptNode (Branch children) c) \<longrightarrow> length (i # tail) = L \<longrightarrow> fixed_len L t')"
      proof (cases "length (i # tail) = L")
        case True
        show ?thesis using child [OF fl [OF True]] by blast
      next
        case False
        show ?thesis using child [of 0] False by fastforce
      qed
      then show ?thesis using Ok Some n i len
        by (auto simp: delete_outcome_def delete_len_def)
    qed
  next
    case (Err e)
    then show ?thesis using IH n i len same fn
      by (auto simp: delete_outcome_def delete_len_def)
  next
    case Panic
    then show ?thesis using IH by (simp add: delete_outcome_def)
  qed
qed

lemma delete_correct_extension:
  assumes ss: "prefix_nibs p = Some ss" "p = to_encoded_path ss False" "nibbles ss" "ss \<noteq> []"
    and IH: "delete_outcome n tail" "delete_len (L - length ss) n tail"
  shows "delete_outcome (MptNode (Extension p n) c) (ss @ tail) \<and>
    delete_len L (MptNode (Extension p n) c) (ss @ tail)"
proof (cases "get_internal n tail")
  case (Ok x)
  show ?thesis
  proof (cases x)
    case None
    then show ?thesis using IH Ok ss by (auto simp: delete_outcome_def delete_len_def)
  next
    case (Some v)
    then obtain n' where n': "delete_internal n tail = (n', Ok True)" "deleted n tail n'"
      using IH(1) Ok by (auto simp: delete_outcome_def)
    have fl: "fixed_len (L - length ss) n'"
      if "length (ss @ tail) = L" "fixed_len L (MptNode (Extension p n) c)"
      using that ss(1) IH(2) n'(1) by (auto simp: delete_len_def)
    note child = delete_extension_child [OF ss n']
    have "\<exists>t'. delete_internal (MptNode (Extension p n) c) (ss @ tail) = (t', Ok True) \<and>
      deleted (MptNode (Extension p n) c) (ss @ tail) t' \<and>
      (fixed_len L (MptNode (Extension p n) c) \<longrightarrow> length (ss @ tail) = L \<longrightarrow> fixed_len L t')"
    proof (cases "length (ss @ tail) = L")
      case True
      show ?thesis using child [OF fl [OF True]] by blast
    next
      case False
      show ?thesis using child [of 0 c] False ss(1,4) by fastforce
    qed
    then show ?thesis using Ok Some ss(1) by (auto simp: delete_outcome_def delete_len_def)
  qed
next
  case (Err e)
  then show ?thesis using IH ss by (auto simp: delete_outcome_def delete_len_def)
next
  case Panic
  then show ?thesis using IH by (simp add: delete_outcome_def)
qed

lemma delete_internal_correct:
  "wf_trie t \<Longrightarrow> nibbles ks \<Longrightarrow> delete_outcome t ks \<and> delete_len L t ks"
proof (induction t arbitrary: ks L rule: mpt_induct)
  case (Branch children c)
  have len: "length children = 16" using Branch.prems(1) by (simp add: wf_trie_def)
  show ?case
  proof (cases ks)
    case Nil
    then show ?thesis by (auto simp: delete_outcome_def delete_len_def)
  next
    case (Cons i tail)
    then have i: "unat i < 16" "nibbles tail" using Branch.prems(2) by (auto simp: nibble_unat)
    show ?thesis
    proof (cases "children ! unat i")
      case None
      then show ?thesis using i len by (auto simp: delete_outcome_def delete_len_def Cons)
    next
      case (Some n)
      then have "canon n" using Branch.prems(1) i len by (auto simp: wf_trie_def list_all_children)
      then have "delete_outcome n tail \<and> delete_len (L - 1) n tail"
        using Branch.IH [of "unat i" n tail] Some i len by (auto simp: wf_trie_def)
      then show ?thesis
        using delete_correct_branch Branch.prems Some unfolding Cons by blast
    qed
  qed
next
  case (Leaf p v c)
  then obtain ss where "nibbles ss" "prefix_nibs p = Some ss"
    by (auto simp: wf_trie_def elim: valid_pathE)
  then show ?case by (auto simp: delete_outcome_def delete_len_def deleted_def wf_trie_def)
next
  case (Extension p n c)
  then obtain ss where ss: "nibbles ss" "prefix_nibs p = Some ss" "p = to_encoded_path ss False"
    "ss \<noteq> []" "canon n"
    by (auto simp: wf_trie_def elim: valid_pathE)
  show ?case
  proof (cases "strip_prefix ss ks")
    case None
    then show ?thesis using ss by (auto simp: delete_outcome_def delete_len_def)
  next
    case (Some tail)
    then have ks: "ks = ss @ tail" by (simp add: strip_prefix_Some)
    have "delete_outcome n tail \<and> delete_len (L - length ss) n tail"
      using Extension.IH [of tail] Extension.prems(2) ss by (auto simp: ks wf_trie_def)
    then show ?thesis unfolding ks using delete_correct_extension [OF ss(2,3,1,4)] by blast
  qed
qed (auto simp: delete_outcome_def delete_len_def)

end
