(* ===== verification/Sparse_Map.thy ===== *)
theory Sparse_Map
  imports Prelude
begin

text \<open>
  The interface between a sparse key-value store and its users: what a lookup answers after
  an update, and that an update fails exactly where a lookup of its key fails. The trie of
  \<open>mpt.rs\<close> provides it; the loops of \<open>EthereumState::update\<close> use it.
\<close>

text \<open>
  One update, and a loop of updates each of which is unwrapped: \<open>Some v\<close> stores \<open>v\<close>,
  \<open>None\<close> removes the key.
\<close>

definition apply_update ::
  "('t \<Rightarrow> 'k \<Rightarrow> 'v \<Rightarrow> 't \<times> ('e, bool) res) \<Rightarrow> ('t \<Rightarrow> 'k \<Rightarrow> 't \<times> ('e, bool) res) \<Rightarrow>
   'k \<times> 'v option \<Rightarrow> 't \<Rightarrow> ('e, 't) res" where
  "apply_update ins del u t =
     (case (case snd u of Some v \<Rightarrow> ins t (fst u) v | None \<Rightarrow> del t (fst u)) of
        (t', r) \<Rightarrow> res_bind (unwrap_res r) (\<lambda>_. Ok t'))"

definition apply_updates ::
  "('t \<Rightarrow> 'k \<Rightarrow> 'v \<Rightarrow> 't \<times> ('e, bool) res) \<Rightarrow> ('t \<Rightarrow> 'k \<Rightarrow> 't \<times> ('e, bool) res) \<Rightarrow>
   ('k \<times> 'v option) list \<Rightarrow> 't \<Rightarrow> ('e, 't) res" where
  "apply_updates ins del = res_fold (apply_update ins del)"

lemma apply_updates_simps [simp]:
  "apply_updates ins del [] t = Ok t"
  "apply_updates ins del (u # us) t =
     res_bind (apply_update ins del u t) (apply_updates ins del us)"
  by (simp_all add: apply_updates_def)

text \<open>
  \<open>path_ok\<close> are the keys a lookup accepts, \<open>key_ok\<close> the ones the store holds.
\<close>

locale sparse_map =
  fixes inv :: "'t \<Rightarrow> bool"
    and path_ok :: "'k \<Rightarrow> bool"
    and key_ok :: "'k \<Rightarrow> bool"
    and look :: "'t \<Rightarrow> 'k \<Rightarrow> ('e, 'v option) res"
    and ins :: "'t \<Rightarrow> 'k \<Rightarrow> 'v \<Rightarrow> 't \<times> ('e, bool) res"
    and del :: "'t \<Rightarrow> 'k \<Rightarrow> 't \<times> ('e, bool) res"
  assumes key_path: "key_ok k \<Longrightarrow> path_ok k"
    and look_total: "inv t \<Longrightarrow> path_ok k \<Longrightarrow> look t k \<noteq> Panic"
    and ins_ok: "inv t \<Longrightarrow> key_ok k \<Longrightarrow> look t k = Ok x \<Longrightarrow>
      \<exists>t'. ins t k v = (t', Ok (x \<noteq> Some v)) \<and> inv t' \<and>
        (\<forall>k'. path_ok k' \<longrightarrow> look t' k' = (if k' = k then Ok (Some v) else look t k'))"
    and ins_err: "inv t \<Longrightarrow> key_ok k \<Longrightarrow> look t k = Err e \<Longrightarrow> ins t k v = (t, Err e)"
    and del_ok: "inv t \<Longrightarrow> key_ok k \<Longrightarrow> look t k = Ok x \<Longrightarrow>
      \<exists>t'. del t k = (t', Ok (x \<noteq> None)) \<and> inv t' \<and>
        (\<forall>k'. path_ok k' \<longrightarrow> look t' k' = (if k' = k then Ok None else look t k'))"
    and del_err: "inv t \<Longrightarrow> key_ok k \<Longrightarrow> look t k = Err e \<Longrightarrow> del t k = (t, Err e)"
begin

text \<open>The keys of a loop of updates are all resolved.\<close>

definition resolved :: "'t \<Rightarrow> 'k list \<Rightarrow> bool" where
  "resolved t ks \<longleftrightarrow> (\<forall>k \<in> set ks. key_ok k \<and> (\<exists>x. look t k = Ok x))"

lemma update_ok:
  assumes "inv t" and "key_ok k" and "look t k = Ok x"
  obtains t' where "apply_update ins del (k, w) t = Ok t'" "inv t'"
    "\<And>k'. path_ok k' \<Longrightarrow> look t' k' = (if k' = k then Ok w else look t k')"
proof (cases w)
  case None
  then show thesis using del_ok [OF assms] that by (auto simp: apply_update_def)
next
  case (Some v)
  then show thesis using ins_ok [OF assms, of v] that by (auto simp: apply_update_def)
qed

lemma update_err:
  assumes "inv t" and "key_ok k" and "look t k = Err e"
  shows "apply_update ins del (k, w) t = Panic"
  using ins_err [OF assms] del_err [OF assms] by (cases w) (auto simp: apply_update_def)

text \<open>After a loop over distinct keys every lookup is known.\<close>

lemma updates_ok:
  assumes "inv t" and "distinct (map fst us)" and "resolved t (map fst us)"
  obtains t' where "apply_updates ins del us t = Ok t'" "inv t'"
    "\<And>k. path_ok k \<Longrightarrow> look t' k =
      (case map_of us k of Some w \<Rightarrow> Ok w | None \<Rightarrow> look t k)"
  using assms
proof (induction us arbitrary: t thesis)
  case (Cons u us)
  obtain k w where u: "u = (k, w)" by (cases u)
  obtain x where x: "look t k = Ok x" "key_ok k" using Cons.prems(4) by (auto simp: resolved_def u)
  obtain s where s: "apply_update ins del (k, w) t = Ok s" "inv s"
    "\<And>k'. path_ok k' \<Longrightarrow> look s k' = (if k' = k then Ok w else look t k')"
    using update_ok [OF Cons.prems(2) x(2,1), of w] by blast
  have "resolved s (map fst us)"
    using Cons.prems(4) s(3) key_path by (auto simp: resolved_def u)
  moreover have "distinct (map fst us)" using Cons.prems(3) by simp
  ultimately obtain t' where t': "apply_updates ins del us s = Ok t'" "inv t'"
    "\<And>k. path_ok k \<Longrightarrow> look t' k = (case map_of us k of Some w \<Rightarrow> Ok w | None \<Rightarrow> look s k)"
    using Cons.IH [OF _ s(2)] by blast
  have "k \<notin> set (map fst us)" using Cons.prems(3) by (simp add: u)
  then have "map_of us k = None" by (simp add: map_of_eq_None_iff)
  then show ?case
    using s t' by (intro Cons.prems(1) [of t']) (auto simp: u split: option.splits)
qed simp

text \<open>Any loop of updates, of repeated keys as well: the last one of a key decides.\<close>

lemma updates_any:
  assumes "inv t" and "\<And>k. k \<in> set (map fst us) \<Longrightarrow> key_ok k \<and> (\<exists>x. look t k = Ok x)"
  obtains t' where "apply_updates ins del us t = Ok t'" "inv t'"
    "\<And>k. path_ok k \<Longrightarrow> look t' k = fold (\<lambda>(k, w) f. f(k := Ok w)) us (look t) k"
  using assms
proof (induction us arbitrary: t thesis)
  case (Cons u us)
  obtain k w where u: "u = (k, w)" by (cases u)
  obtain x where x: "look t k = Ok x" "key_ok k" using Cons.prems(3) [of k] by (auto simp: u)
  obtain s where s: "apply_update ins del (k, w) t = Ok s" "inv s"
    "\<And>k'. path_ok k' \<Longrightarrow> look s k' = (if k' = k then Ok w else look t k')"
    using update_ok [OF Cons.prems(2) x(2,1), of w] by blast
  have "key_ok k' \<and> (\<exists>x. look s k' = Ok x)" if "k' \<in> set (map fst us)" for k'
    using Cons.prems(3) [of k'] that s(3) [of k'] key_path by (auto simp: u)
  then obtain t' where t': "apply_updates ins del us s = Ok t'" "inv t'"
    "\<And>k. path_ok k \<Longrightarrow> look t' k = fold (\<lambda>(k, w) f. f(k := Ok w)) us (look s) k"
    using Cons.IH [OF _ s(2)] by blast
  have agree: "fold (\<lambda>(k, w) f. f(k := Ok w)) us f k' = fold (\<lambda>(k, w) f. f(k := Ok w)) us g k'"
    if "f k' = g k'" for k' and f g :: "'k \<Rightarrow> ('e, 'v option) res"
    using that
  proof (induction us arbitrary: f g)
    case (Cons v vs)
    obtain j z where v: "v = (j, z)" by (cases v)
    show ?case using Cons.IH [of "f(j := Ok z)" "g(j := Ok z)"] Cons.prems by (simp add: v)
  qed simp
  have "look t' k' = fold (\<lambda>(k, w) f. f(k := Ok w)) us ((look t)(k := Ok w)) k'" if "path_ok k'" for k'
    using t'(3) [OF that] agree [of "look s" k' "(look t)(k := Ok w)"] s(3) [OF that] by simp
  then have "look t' k' = fold (\<lambda>(k, w) f. f(k := Ok w)) (u # us) (look t) k'" if "path_ok k'" for k'
    using that by (simp only: u fold.simps comp_def prod.case)
  moreover have "apply_updates ins del (u # us) t = Ok t'" using s(1) t'(1) by (simp add: u)
  ultimately show ?case using t'(2) by (intro Cons.prems(1) [of t'])
qed simp

lemma updates_unresolved:
  assumes "inv t" and "distinct (map fst us)" and "\<And>k. k \<in> set (map fst us) \<Longrightarrow> key_ok k"
    and "\<not> resolved t (map fst us)"
  shows "apply_updates ins del us t = Panic"
  using assms
proof (induction us arbitrary: t)
  case (Cons u us)
  obtain k w where u: "u = (k, w)" by (cases u)
  have k: "key_ok k" using Cons.prems(3) by (simp add: u)
  show ?case
  proof (cases "look t k")
    case (Ok x)
    obtain s where s: "apply_update ins del (k, w) t = Ok s" "inv s"
      "\<And>k'. path_ok k' \<Longrightarrow> look s k' = (if k' = k then Ok w else look t k')"
      using update_ok [OF Cons.prems(1) k Ok, of w] by blast
    have "look s k' = look t k'" if "k' \<in> set (map fst us)" for k'
      using s(3) [of k'] that Cons.prems(2,3) key_path by (auto simp: u)
    then have "\<not> resolved s (map fst us)"
      using Cons.prems(3,4) Ok k by (auto simp: resolved_def u)
    then show ?thesis using Cons.IH [OF s(2)] Cons.prems(2,3) s(1) by (simp add: u)
  next
    case (Err e)
    then show ?thesis using update_err [OF Cons.prems(1) k Err] by (simp add: u)
  next
    case Panic
    then show ?thesis using look_total [OF Cons.prems(1) key_path [OF k]] by simp
  qed
qed (simp add: resolved_def)

end

text \<open>
  A store whose contents determine its representation: \<open>repr\<close> of two states with the same
  lookups agree.
\<close>

locale canonical_map = sparse_map inv path_ok key_ok look ins del
  for inv :: "'t \<Rightarrow> bool"
    and path_ok :: "'k \<Rightarrow> bool"
    and key_ok :: "'k \<Rightarrow> bool"
    and look :: "'t \<Rightarrow> 'k \<Rightarrow> ('e, 'v option) res"
    and ins :: "'t \<Rightarrow> 'k \<Rightarrow> 'v \<Rightarrow> 't \<times> ('e, bool) res"
    and del :: "'t \<Rightarrow> 'k \<Rightarrow> 't \<times> ('e, bool) res" +
  fixes repr :: "'t \<Rightarrow> 'r"
  assumes repr_unique: "inv s \<Longrightarrow> inv t \<Longrightarrow>
    (\<And>k. path_ok k \<Longrightarrow> look s k = look t k) \<Longrightarrow> repr s = repr t"
begin

lemma resolved_cong:
  assumes "resolved t ks" and "set ks = set ks'" and "\<And>k. path_ok k \<Longrightarrow> look t k = look t' k"
  shows "resolved t' ks'"
  using assms key_path unfolding resolved_def by metis

lemma same_repr_updates:
  assumes "inv t" and "distinct (map fst us)" and "resolved t (map fst us)"
    and "inv t'" and "distinct (map fst vs)" and "set us = set vs"
    and same: "\<And>k. path_ok k \<Longrightarrow> look t k = look t' k"
  obtains s s' where "apply_updates ins del us t = Ok s" "apply_updates ins del vs t' = Ok s'"
    "repr s = repr s'" "inv s" "inv s'" "\<And>k. path_ok k \<Longrightarrow> look s k = look s' k"
proof -
  have maps: "map_of us = map_of vs"
    using assms(2,5,6) by (simp add: map_of_inject_set)
  have keys: "set (map fst us) = set (map fst vs)" using assms(6) by simp
  have "resolved t' (map fst vs)" by (rule resolved_cong [OF assms(3) keys same])
  then obtain s' where s': "apply_updates ins del vs t' = Ok s'" "inv s'"
    "\<And>k. path_ok k \<Longrightarrow> look s' k = (case map_of vs k of Some w \<Rightarrow> Ok w | None \<Rightarrow> look t' k)"
    using updates_ok [OF assms(4,5)] by metis
  obtain s where s: "apply_updates ins del us t = Ok s" "inv s"
    "\<And>k. path_ok k \<Longrightarrow> look s k = (case map_of us k of Some w \<Rightarrow> Ok w | None \<Rightarrow> look t k)"
    using updates_ok [OF assms(1-3)] by metis
  have look: "look s k = look s' k" if "path_ok k" for k
    using s(3) [OF that] s'(3) [OF that] maps same [OF that] by (simp split: option.split)
  then have r: "repr s = repr s'" using repr_unique [OF s(2) s'(2)] by blast
  show thesis using that [OF s(1) s'(1) r s(2) s'(2)] look by blast
qed

text \<open>
  The loop gives the same representation (or panics alike) for every order of the updates,
  from two states with the same lookups.
\<close>

lemma order_irrelevant:
  assumes "inv t" and "inv t'" and "distinct (map fst us)" and "distinct (map fst vs)"
    and "set us = set vs" and "\<And>k. k \<in> set (map fst us) \<Longrightarrow> key_ok k"
    and same: "\<And>k. path_ok k \<Longrightarrow> look t k = look t' k"
  shows "map_res repr (apply_updates ins del us t) = map_res repr (apply_updates ins del vs t')"
proof (cases "resolved t (map fst us)")
  case True
  obtain s s' where "apply_updates ins del us t = Ok s" "apply_updates ins del vs t' = Ok s'"
    "repr s = repr s'"
    using same_repr_updates [OF assms(1,3) True assms(2,4,5) same] by metis
  then show ?thesis by simp
next
  case False
  have keys: "set (map fst vs) = set (map fst us)" using assms(5) by simp
  have "\<not> resolved t' (map fst vs)"
    using False resolved_cong [OF _ keys, of t' t] same by metis
  moreover have "\<And>k. k \<in> set (map fst vs) \<Longrightarrow> key_ok k" using assms(6) keys by blast
  ultimately show ?thesis
    using updates_unresolved [OF assms(1,3,6) False] updates_unresolved [OF assms(2,4)] by simp
qed

end

end
