(* ===== verification/Mpt_Interface.thy ===== *)
theory Mpt_Interface
  imports Mpt_Insert Mpt_Delete Sparse_Map
begin

text \<open>
  The trie provides the sparse-map interface: \<open>get\<close>, \<open>insert\<close> and \<open>delete\<close> on the keys of
  one length, and the canonical form determined by the contents. The facts about the public
  operations on 32-byte keys follow.
\<close>

definition trie_inv :: "nat \<Rightarrow> mpt \<Rightarrow> bool" where
  "trie_inv L t \<longleftrightarrow> wf_trie t \<and> fixed_len L t"

definition trie_key :: "nat \<Rightarrow> u8 list \<Rightarrow> bool" where
  "trie_key L ks \<longleftrightarrow> nibbles ks \<and> length ks = L"

lemma trie_key_to_nibs [simp]: "trie_key L (to_nibs key) \<longleftrightarrow> 2 * length key = L"
  by (simp add: trie_key_def)

lemma get_internal_no_panic: "wf_trie t \<Longrightarrow> nibbles ks \<Longrightarrow> get_internal t ks \<noteq> Panic"
  using delete_internal_correct [of t ks] by (auto simp: delete_outcome_def)

lemma insert_internal_ok:
  assumes "trie_inv L t" and "trie_key L ks" and "get_internal t ks = Ok x"
  shows "\<exists>t'. insert_internal t ks v = (t', Ok (x \<noteq> Some v)) \<and> trie_inv L t' \<and>
    (\<forall>ks'. nibbles ks' \<longrightarrow>
      get_internal t' ks' = (if ks' = ks then Ok (Some v) else get_internal t ks'))"
proof -
  have t: "wf_trie t" "fixed_len L t" "nibbles ks" "length ks = L"
    using assms(1,2) by (simp_all add: trie_inv_def trie_key_def)
  obtain t' r where r: "insert_internal t ks v = (t', r)" by (cases "insert_internal t ks v")
  have "r = Ok (x \<noteq> Some v)" "fixed_len L t'"
    using insert_internal_outcome [OF t(1,3), of v] insert_internal_len [OF t(1,3,2,4), of v] assms(3) r
    by (auto simp: insert_outcome_def insert_len_def)
  moreover have "inserted t ks v t'"
    using insert_internal_correct [OF t(1,3)] r calculation(1) by blast
  ultimately show ?thesis using r by (auto simp: inserted_def trie_inv_def wf_trie_def)
qed

lemma insert_internal_err:
  assumes "trie_inv L t" and "trie_key L ks" and "get_internal t ks = Err e"
  shows "insert_internal t ks v = (t, Err e)"
  using insert_internal_outcome [of t ks v] insert_internal_unchanged [of t ks v] assms
  by (cases "insert_internal t ks v") (auto simp: insert_outcome_def trie_inv_def trie_key_def)

lemma delete_internal_ok:
  assumes "trie_inv L t" and "trie_key L ks" and "get_internal t ks = Ok x"
  shows "\<exists>t'. delete_internal t ks = (t', Ok (x \<noteq> None)) \<and> trie_inv L t' \<and>
    (\<forall>ks'. nibbles ks' \<longrightarrow>
      get_internal t' ks' = (if ks' = ks then Ok None else get_internal t ks'))"
proof -
  have t: "wf_trie t" "fixed_len L t" "nibbles ks" "length ks = L"
    using assms(1,2) by (simp_all add: trie_inv_def trie_key_def)
  have d: "delete_outcome t ks" "delete_len L t ks" using delete_internal_correct t by blast+
  show ?thesis
  proof (cases x)
    case None
    then have "delete_internal t ks = (t, Ok False)"
      using d assms(3) t by (auto simp: delete_outcome_def delete_len_def)
    then show ?thesis using assms None t by auto
  next
    case (Some w)
    then show ?thesis
      using d assms(3) t by (auto simp: delete_outcome_def delete_len_def deleted_def trie_inv_def)
  qed
qed

lemma delete_internal_err:
  assumes "trie_inv L t" and "trie_key L ks" and "get_internal t ks = Err e"
  shows "delete_internal t ks = (t, Err e)"
  using delete_internal_correct [of t ks L] assms
  by (auto simp: delete_outcome_def trie_inv_def trie_key_def)

lemma same_reads_erase:
  assumes "wf_trie a" and "wf_trie b" and "same_reads a b"
  shows "erase a = erase b"
proof (cases "is_empty a")
  case True
  then have "is_empty b" using hits_wf_empty assms same_reads_hits by blast
  with True show ?thesis by (cases a; cases b) (auto simp: is_empty_def split: node_data.splits)
next
  case False
  then have "\<not> is_empty b" using hits_wf_empty assms same_reads_hits by blast
  then show ?thesis using False assms canonical_unique by (auto simp: wf_trie_def)
qed

interpretation tr: canonical_map "trie_inv L" nibbles "trie_key L"
  get_internal insert_internal delete_internal erase for L
proof
  show "trie_key L k \<Longrightarrow> nibbles k" for k by (simp add: trie_key_def)
  show "trie_inv L t \<Longrightarrow> nibbles k \<Longrightarrow> get_internal t k \<noteq> Panic" for t k
    by (simp add: get_internal_no_panic trie_inv_def)
  show "erase s = erase t"
    if "trie_inv L s" "trie_inv L t" "\<And>k. nibbles k \<Longrightarrow> get_internal s k = get_internal t k" for s t
    using that by (intro same_reads_erase) (auto simp: trie_inv_def same_reads_def)
qed (use insert_internal_ok insert_internal_err delete_internal_ok delete_internal_err in blast)+

section \<open>Tries built from the empty one\<close>

text \<open>
  A sequence of \<open>insert\<close>s (of non-empty values) and \<open>delete\<close>s, each unwrapped, and the map from keys
  to values it amounts to.
\<close>

definition run_updates :: "(bytes \<times> bytes option) list \<Rightarrow> mpt \<Rightarrow> (mpt_error, mpt) res" where
  "run_updates = apply_updates insert delete"

definition final_map :: "(bytes \<times> bytes option) list \<Rightarrow> bytes \<Rightarrow> bytes option" where
  "final_map us = fold (\<lambda>(k, w) m. m(k := w)) us (\<lambda>_. None)"

lemma run_updates_nibs:
  "Some [] \<notin> snd ` set us \<Longrightarrow>
    run_updates us t = apply_updates insert_internal delete_internal (map (map_prod to_nibs id) us) t"
  unfolding run_updates_def
proof (induction us arbitrary: t)
  case (Cons u us)
  have "apply_update insert delete u t = apply_update insert_internal delete_internal (map_prod to_nibs id u) t"
    using Cons.prems by (cases u) (auto simp: apply_update_def insert_def delete_def split: option.split)
  moreover have "apply_updates insert delete us = apply_updates insert_internal delete_internal (map (map_prod to_nibs id) us)"
    by (rule ext, rule Cons.IH) (use Cons.prems in simp)
  ultimately show ?case by (simp only: list.map apply_updates_simps)
qed simp

lemma final_map_nibs:
  "fold (\<lambda>(k, w) f. f(k := Ok w)) (map (map_prod to_nibs id) us) (\<lambda>_. Ok None) ks =
    (Ok (if \<exists>key. ks = to_nibs key then final_map us (pack_pairs ks) else None) :: ('e, bytes option) res)"
proof (induction us rule: rev_induct)
  case (snoc u us)
  then show ?case by (cases u) (auto simp: final_map_def)
qed (simp add: final_map_def)

text \<open>From the empty trie, with keys of one length, the result is determined by the final map.\<close>

lemma run_updates_empty:
  assumes "\<And>k w. (k, w) \<in> set us \<Longrightarrow> 2 * length k = L \<and> w \<noteq> Some []"
  obtains t where "run_updates us mpt_default = Ok t" "trie_inv L t"
    "apply_updates insert_internal delete_internal (map (map_prod to_nibs id) us) mpt_default = Ok t"
    "\<And>ks. nibbles ks \<Longrightarrow> get_internal t ks = Ok (if \<exists>key. ks = to_nibs key then final_map us (pack_pairs ks) else None)"
proof -
  let ?us = "map (map_prod to_nibs id) us"
  have none: "get_internal mpt_default = (\<lambda>_. Ok None)" by (auto simp: mpt_default_def node_of_def)
  have inv: "trie_inv L mpt_default"
    by (simp add: trie_inv_def mpt_default_def node_of_def wf_trie_def)
  have "trie_key L k \<and> (\<exists>x. get_internal mpt_default k = Ok x)" if "k \<in> set (map fst ?us)" for k
    using that assms by (auto simp: none)
  from tr.updates_any [OF inv this, of ?us] obtain t where t:
    "apply_updates insert_internal delete_internal ?us mpt_default = Ok t" "trie_inv L t"
    "\<And>k. nibbles k \<Longrightarrow> get_internal t k = fold (\<lambda>(k, w) f. f(k := Ok w)) ?us (get_internal mpt_default) k"
    by blast
  have "Some [] \<notin> snd ` set us" using assms by force
  then have "run_updates us mpt_default = Ok t" using run_updates_nibs t(1) by simp
  then show thesis using that t by (simp add: none final_map_nibs)
qed

end
