(* ===== verification/Mpt_Conflicts.thy ===== *)
theory Mpt_Conflicts
  imports Mpt_Insert Mpt_Canonical
begin

text \<open>
  When \<open>insert_internal\<close> reports \<open>ValueInBranch\<close>: exactly when the path of the key and another
  path that the trie answers are such that one continues the other, so that one of the two
  values would lie inside a branch.
\<close>

definition overlaps :: "u8 list \<Rightarrow> u8 list \<Rightarrow> bool" where
  "overlaps ks ks' \<longleftrightarrow> ks \<noteq> ks' \<and> (take (length ks) ks' = ks \<or> take (length ks') ks = ks')"

lemma overlaps_simps [simp]:
  "overlaps [] ks' \<longleftrightarrow> ks' \<noteq> []" "overlaps ks [] \<longleftrightarrow> ks \<noteq> []"
  "overlaps (i # ks) (j # ks') \<longleftrightarrow> i = j \<and> overlaps ks ks'"
  "overlaps (ss @ ks) (ss @ ks') \<longleftrightarrow> overlaps ks ks'"
  by (auto simp: overlaps_def)

lemma overlaps_lcp: "overlaps ks ss \<longleftrightarrow> ks \<noteq> ss \<and> (lcp ss ks = length ss \<or> lcp ss ks = length ks)"
proof (induction ks arbitrary: ss)
  case (Cons k ks)
  then show ?case by (cases ss) auto
qed auto

definition conflicts :: "mpt \<Rightarrow> u8 list \<Rightarrow> bool" where
  "conflicts t ks \<longleftrightarrow> (\<exists>ks' \<in> hits t. overlaps ks ks')"

lemma conflicts_branch:
  assumes "length cs = 16" and "i < 16"
  shows "conflicts (MptNode (Branch cs) c) (i # tail) \<longleftrightarrow> (\<exists>n. cs ! unat i = Some n \<and> conflicts n tail)"
proof -
  have "conflicts (MptNode (Branch cs) c) (i # tail) \<longleftrightarrow>
      (\<exists>tail'. i # tail' \<in> hits (MptNode (Branch cs) c) \<and> overlaps tail tail')"
    unfolding conflicts_def
  proof
    assume "\<exists>ks' \<in> hits (MptNode (Branch cs) c). overlaps (i # tail) ks'"
    then obtain ks' where "ks' \<in> hits (MptNode (Branch cs) c)" "overlaps (i # tail) ks'" by blast
    then show "\<exists>tail'. i # tail' \<in> hits (MptNode (Branch cs) c) \<and> overlaps tail tail'"
      using hits_branch_Nil by (cases ks') auto
  qed force
  then show ?thesis using assms by (auto simp: hits_branch conflicts_def)
qed

lemma conflicts_extension:
  assumes "prefix_nibs p = Some ss" and "nibbles ss"
  shows "conflicts (MptNode (Extension p n) c) (ss @ tail) \<longleftrightarrow> conflicts n tail"
  using assms by (auto simp: hits_extension conflicts_def)

lemma overlaps_append:
  assumes "lcp ss ks \<noteq> length ss"
  shows "overlaps ks (ss @ tail) \<longleftrightarrow> lcp ss ks = length ks"
  using assms
proof (induction ks arbitrary: ss)
  case Nil
  then show ?case by auto
next
  case (Cons k ks)
  then show ?case by (cases ss) auto
qed

lemma insert_value_in_branch:
  "wf_trie t \<Longrightarrow> nibbles ks \<Longrightarrow> get_internal t ks = Ok x \<Longrightarrow>
    snd (insert_internal t ks v) = Err ValueInBranch \<longleftrightarrow> conflicts t ks"
proof (induction t arbitrary: ks rule: mpt_induct)
  case (Null c)
  then show ?case by (simp add: conflicts_def hits_null)
next
  case (Branch cs c)
  have len: "length cs = 16" using Branch.prems(1) by (simp add: wf_trie_def)
  show ?case
  proof (cases ks)
    case Nil
    obtain ks' where "ks' \<in> hits (MptNode (Branch cs) c)"
      using hits_nonempty Branch.prems(1) by (fastforce simp: wf_trie_def)
    moreover have "ks' \<noteq> []" using calculation hits_branch_Nil by metis
    ultimately show ?thesis by (auto simp: Nil conflicts_def)
  next
    case (Cons i tail)
    have i: "i < 16" "unat i < 16" "nibbles tail" using Branch.prems(2) by (auto simp: Cons nibble_unat)
    show ?thesis
    proof (cases "cs ! unat i")
      case None
      then show ?thesis using i len by (simp add: Cons conflicts_branch)
    next
      case (Some n)
      have "wf_trie n" using Branch.prems(1) Some i len by (auto simp: wf_trie_def list_all_children)
      then have "snd (insert_internal n tail v) = Err ValueInBranch \<longleftrightarrow> conflicts n tail"
        using Branch.IH [of "unat i" n tail] Branch.prems(3) Some i len by (simp add: Cons)
      then show ?thesis using Some i len
        by (cases "insert_internal n tail v") (auto simp: Cons conflicts_branch split: res.splits bool.splits)
    qed
  qed
next
  case (Leaf p old c)
  then obtain ss where ss: "nibbles ss" "prefix_nibs p = Some ss"
    by (auto simp: wf_trie_def elim: valid_pathE)
  have "conflicts (MptNode (Leaf p old) c) ks \<longleftrightarrow> overlaps ks ss"
    using ss by (simp add: conflicts_def hits_leaf)
  then show ?case using ss lcp_eq_lengths_iff [of ss ks]
    by (auto simp: overlaps_lcp Let_def split: option.splits)
next
  case (Extension p n c)
  then obtain ss where ss: "nibbles ss" "prefix_nibs p = Some ss" and n: "canon n"
    by (auto simp: wf_trie_def elim: valid_pathE)
  show ?case
  proof (cases "lcp ss ks = length ss")
    case True
    then obtain tail where ks: "ks = ss @ tail" using lcp_full by blast
    have "snd (insert_internal n tail v) = Err ValueInBranch \<longleftrightarrow> conflicts n tail"
      using Extension.IH [of tail] Extension.prems n ss by (simp add: ks wf_trie_def)
    then show ?thesis using ss
      by (cases "insert_internal n tail v") (auto simp: ks lcp_prefix conflicts_extension split: res.splits bool.splits)
  next
    case False
    obtain tail where "tail \<in> hits n" using hits_nonempty [OF n] by blast
    then have "conflicts (MptNode (Extension p n) c) ks \<longleftrightarrow> lcp ss ks = length ks"
      using ss by (auto simp: conflicts_def hits_extension overlaps_append [OF False])
    then show ?thesis using ss False by (auto simp: Let_def split: option.splits)
  qed
qed simp

text \<open>The path of a value that is present is in nobody's way.\<close>

lemma insert_present:
  "nibbles ks \<Longrightarrow> get_internal t ks = Ok (Some x) \<Longrightarrow> snd (insert_internal t ks x) = Ok False"
proof (induction t arbitrary: ks rule: mpt_induct)
  case (Branch cs c)
  then obtain i tail n where ks: "ks = i # tail" "unat i < length cs" "cs ! unat i = Some n"
    "get_internal n tail = Ok (Some x)"
    by (auto split: list.splits if_splits option.splits)
  then show ?case using Branch.IH [OF ks(2,3) _ ks(4)] Branch.prems(1)
    by (cases "insert_internal n tail x") auto
next
  case (Leaf p old c)
  then show ?case using lcp_eq_lengths_iff [of ks ks] by (auto simp: Let_def split: option.splits if_splits)
next
  case (Extension p n c)
  then obtain ss tail where ks: "prefix_nibs p = Some ss" "ks = ss @ tail" "get_internal n tail = Ok (Some x)"
    by (auto simp: strip_prefix_Some split: option.splits)
  then show ?case using Extension.IH [OF _ ks(3)] Extension.prems(1)
    by (cases "insert_internal n tail x") (auto simp: lcp_prefix)
qed simp_all

lemma present_no_conflict:
  assumes "wf_trie t" and "nibbles ks" and "get_internal t ks = Ok (Some x)"
  shows "\<not> conflicts t ks"
  using insert_value_in_branch [OF assms, of x] insert_present [OF assms(2,3)] by simp

lemma conflicts_eq: "conflicts t ks \<longleftrightarrow> (\<exists>ks'. nibbles ks' \<and> overlaps ks ks' \<and> get_internal t ks' \<noteq> Ok None)"
  by (auto simp: conflicts_def hits_def)

end
