(* ===== verification/Externs.thy ===== *)
theory Externs
  imports Mpt_Node
begin

text \<open>
  The third-party code the trie crate calls, as one record of functions, and the documented
  behaviour the theorems rely on, as predicates on that record. Every definition that calls
  this code takes the record as its first argument.
\<close>

section \<open>The functions\<close>

text \<open>\<open>rlp::Prototype\<close>, as matched in \<open>MptNode::decode\<close>.\<close>

datatype prototype = PNull | PData nat | PList nat

text \<open>
  From \<open>alloy_primitives\<close>: \<open>keccak256\<close>. From \<open>alloy_rlp\<close>: \<open>EMPTY_STRING_CODE\<close>,
  \<open>Header { list, payload_length }.encode\<close>, \<open>encode\<close> and \<open>length\<close> of byte slices and of
  \<open>B256\<close>, and \<open>length_of_length\<close>; encoders are given by the bytes they append. From \<open>rlp\<close>:
  \<open>prototype\<close>, \<open>at\<close>, \<open>val_at\<close>, \<open>as_val\<close> (at \<open>Vec<u8>\<close>) and \<open>iter\<close> of an \<open>Rlp\<close>, which is
  represented by the bytes it views.
\<close>

record mpt_ext =
  keccak256 :: "bytes \<Rightarrow> b256"
  empty_string_code :: u8
  header_encode :: "bool \<Rightarrow> nat \<Rightarrow> bytes"
  slice_encode :: "bytes \<Rightarrow> bytes"
  slice_length :: "bytes \<Rightarrow> nat"
  b256_encode :: "b256 \<Rightarrow> bytes"
  length_of_length :: "nat \<Rightarrow> nat"
  rlp_prototype :: "bytes \<Rightarrow> (decoder_error, prototype) res"
  rlp_at :: "bytes \<Rightarrow> nat \<Rightarrow> (decoder_error, bytes) res"
  rlp_val_at :: "bytes \<Rightarrow> nat \<Rightarrow> (decoder_error, bytes) res"
  rlp_as_val :: "bytes \<Rightarrow> (decoder_error, bytes) res"
  rlp_iter :: "bytes \<Rightarrow> bytes list"

section \<open>What the code relies on\<close>

text \<open>The lengths the encoders announce are the lengths they write.\<close>

definition length_laws :: "mpt_ext \<Rightarrow> bool" where
  "length_laws X \<longleftrightarrow>
     (\<forall>bs. length (slice_encode X bs) = slice_length X bs) \<and>
     (\<forall>n. length (header_encode X True n) = length_of_length X n) \<and>
     (\<forall>d. length (b256_encode X d) = 32 + length_of_length X 32) \<and>
     length_of_length X 0 = 1"

text \<open>An RLP list of encoded items, and the encoded items: strings and lists of items.\<close>

definition rlp_list :: "mpt_ext \<Rightarrow> bytes list \<Rightarrow> bytes" where
  "rlp_list X items = header_encode X True (length (concat items)) @ concat items"

text \<open>Sizes fit the 64-bit lengths RLP can express.\<close>

definition size_ok :: "nat \<Rightarrow> bool" where
  "size_ok n \<longleftrightarrow> n < 2 ^ 64"

inductive rlp_item :: "mpt_ext \<Rightarrow> bytes \<Rightarrow> bool" for X where
  string: "size_ok (length bs) \<Longrightarrow> rlp_item X (slice_encode X bs)"
| list: "(\<And>i. i \<in> set items \<Longrightarrow> rlp_item X i) \<Longrightarrow> size_ok (length (concat items)) \<Longrightarrow>
    rlp_item X (rlp_list X items)"

text \<open>
  The reader of the \<open>rlp\<close> crate inverts the writer of \<open>alloy_rlp\<close>: a string is read back
  as data, a list as its items; a 32-byte string has a one-byte header and the empty string
  is one byte.
\<close>

definition rlp_laws :: "mpt_ext \<Rightarrow> bool" where
  "rlp_laws X \<longleftrightarrow>
     empty_string_code X = 0x80 \<and>
     slice_encode X [] = [empty_string_code X] \<and>
     (\<forall>bs. length bs = 32 \<longrightarrow> slice_encode X bs = (empty_string_code X + 32) # bs) \<and>
     (\<forall>d. b256_encode X d = slice_encode X (b256_slice d)) \<and>
     (\<forall>bs. size_ok (length bs) \<longrightarrow>
        rlp_prototype X (slice_encode X bs) = Ok (PData (length bs)) \<and>
        rlp_as_val X (slice_encode X bs) = Ok bs) \<and>
     (\<forall>items. (\<forall>i \<in> set items. rlp_item X i) \<longrightarrow> size_ok (length (concat items)) \<longrightarrow>
        rlp_prototype X (rlp_list X items) = Ok (PList (length items)) \<and>
        rlp_iter X (rlp_list X items) = items \<and>
        (\<forall>i < length items. rlp_at X (rlp_list X items) i = Ok (items ! i))) \<and>
     (\<forall>bs i. rlp_val_at X bs i = res_bind (rlp_at X bs i) (rlp_as_val X))"

text \<open>An item of a list is shorter than the list.\<close>

definition rlp_shrinks :: "mpt_ext \<Rightarrow> bool" where
  "rlp_shrinks X \<longleftrightarrow>
     (\<forall>bs i b. rlp_prototype X bs = Ok (PList 2) \<longrightarrow> rlp_at X bs i = Ok b \<longrightarrow> length b < length bs) \<and>
     (\<forall>bs b. rlp_prototype X bs = Ok (PList 17) \<longrightarrow> b \<in> set (rlp_iter X bs) \<longrightarrow> length b < length bs)"

section \<open>Consequences\<close>

lemma rlp_lawsD:
  assumes "rlp_laws X"
  shows "empty_string_code X = 0x80" "slice_encode X [] = [empty_string_code X]"
    "length bs = 32 \<Longrightarrow> slice_encode X bs = (empty_string_code X + 32) # bs"
    "b256_encode X d = slice_encode X (b256_slice d)"
    "size_ok (length bs) \<Longrightarrow> rlp_prototype X (slice_encode X bs) = Ok (PData (length bs))"
    "size_ok (length bs) \<Longrightarrow> rlp_as_val X (slice_encode X bs) = Ok bs"
    "rlp_val_at X bs i = res_bind (rlp_at X bs i) (rlp_as_val X)"
  using assms by (simp_all add: rlp_laws_def)

lemma rlp_list_lawsD:
  assumes "rlp_laws X" and "\<And>i. i \<in> set items \<Longrightarrow> rlp_item X i" and "size_ok (length (concat items))"
  shows "rlp_prototype X (rlp_list X items) = Ok (PList (length items))"
    "rlp_iter X (rlp_list X items) = items"
    "i < length items \<Longrightarrow> rlp_at X (rlp_list X items) i = Ok (items ! i)"
  using assms unfolding rlp_laws_def by blast+

lemma slice_encode_inject:
  assumes "rlp_laws X" and "size_ok (length a)" and "size_ok (length b)"
  shows "slice_encode X a = slice_encode X b \<longleftrightarrow> a = b"
  using rlp_lawsD(6) [OF assms(1,2)] rlp_lawsD(6) [OF assms(1,3)] by (metis res.inject(1))

lemma rlp_list_inject:
  assumes "rlp_laws X"
    and "\<And>i. i \<in> set as \<Longrightarrow> rlp_item X i" "size_ok (length (concat as))"
    and "\<And>i. i \<in> set bs \<Longrightarrow> rlp_item X i" "size_ok (length (concat bs))"
  shows "rlp_list X as = rlp_list X bs \<longleftrightarrow> as = bs"
  using rlp_list_lawsD(2) [OF assms(1-3)] rlp_list_lawsD(2) [OF assms(1,4,5)] by metis

lemma string_not_list:
  assumes "rlp_laws X" and "size_ok (length s)"
    and "\<And>i. i \<in> set bs \<Longrightarrow> rlp_item X i" "size_ok (length (concat bs))"
  shows "slice_encode X s \<noteq> rlp_list X bs"
  using rlp_lawsD(5) [OF assms(1,2)] rlp_list_lawsD(1) [OF assms(1,3,4)] by auto

lemma size_ok_small [simp]: "n < 1000 \<Longrightarrow> size_ok n"
  by (simp add: size_ok_def)

lemma size_ok_mono: "size_ok n \<Longrightarrow> m \<le> n \<Longrightarrow> size_ok m"
  by (simp add: size_ok_def)

end
