(* ===== verification/Mpt_Reference.thy ===== *)
theory Mpt_Reference
  imports Externs Mpt_Interface
begin

text \<open>
  Encoding, references and hashing of nodes (\<open>Encodable\<close>, \<open>reference\<close>, \<open>calc_reference\<close>,
  \<open>reference_encode\<close>, \<open>reference_length\<close>, \<open>payload_length\<close>, \<open>length\<close> and \<open>hash\<close> of
  \<open>mpt.rs\<close>), the reference cache, and the proof that the cache never changes a result.
\<close>

section \<open>Definitions\<close>

definition EMPTY_ROOT :: b256 where
  "EMPTY_ROOT = 0x56e81f171bcc55a6ff8345e692c0f86e5b48e01b996cadc001622fb5e363b421"

text \<open>\<open>keccak\<close> returns the 32 bytes of the digest, which every caller turns back into a
  \<open>B256\<close>; the array is kept as the word.\<close>

definition keccak :: "mpt_ext \<Rightarrow> bytes \<Rightarrow> b256" where
  "keccak X dat = keccak256 X dat"

text \<open>
  The methods of a node that only look at the references of its children are written over
  \<open>mpt_ref node_data\<close>, the data of the node with every child replaced by its reference.
\<close>

fun reference_encode :: "mpt_ext \<Rightarrow> mpt_ref \<Rightarrow> bytes" where
  "reference_encode X (RefBytes bs) = bs"
| "reference_encode X (RefDigest digest) = (empty_string_code X + 32) # b256_slice digest"

fun reference_length :: "mpt_ref \<Rightarrow> nat" where
  "reference_length (RefBytes bs) = length bs"
| "reference_length (RefDigest _) = 1 + 32"

fun payload_length :: "mpt_ext \<Rightarrow> mpt_ref node_data \<Rightarrow> nat" where
  "payload_length X Null = 0"
| "payload_length X (Branch nodes) =
     1 + sum_list (map (\<lambda>child. case child of None \<Rightarrow> 1 | Some r \<Rightarrow> reference_length r) nodes)"
| "payload_length X (Leaf pre value) = slice_length X pre + slice_length X value"
| "payload_length X (Extension pre r) = slice_length X pre + reference_length r"
| "payload_length X (Digest _) = 32"

fun encode_refs :: "mpt_ext \<Rightarrow> mpt_ref node_data \<Rightarrow> bytes" where
  "encode_refs X Null = [empty_string_code X]"
| "encode_refs X (Branch nodes) =
     header_encode X True (payload_length X (Branch nodes)) @
     concat (map (\<lambda>child. case child of
         Some r \<Rightarrow> reference_encode X r
       | None \<Rightarrow> [empty_string_code X]) nodes) @
     [empty_string_code X]"
| "encode_refs X (Leaf pre value) =
     header_encode X True (payload_length X (Leaf pre value)) @
     slice_encode X pre @ slice_encode X value"
| "encode_refs X (Extension pre r) =
     header_encode X True (payload_length X (Extension pre r)) @
     slice_encode X pre @ reference_encode X r"
| "encode_refs X (Digest digest) = b256_encode X digest"

definition calc_reference :: "mpt_ext \<Rightarrow> mpt_ref node_data \<Rightarrow> mpt_ref" where
  "calc_reference X d =
     (case d of
        Null \<Rightarrow> RefBytes [empty_string_code X]
      | Digest digest \<Rightarrow> RefDigest digest
      | _ \<Rightarrow> (let encoded = encode_refs X d
              in if length encoded < 32 then RefBytes encoded
                 else RefDigest (keccak X encoded)))"

text \<open>
  \<open>reference\<close> returns the cached reference or computes it; \<open>ref_fill\<close> is the node it leaves
  behind, with the caches of every node it computed filled in.
\<close>

fun reference :: "mpt_ext \<Rightarrow> mpt \<Rightarrow> mpt_ref" where
  "reference X (MptNode d c) =
     (case c of
        Some r \<Rightarrow> r
      | None \<Rightarrow> calc_reference X (map_node_data (reference X) d))"

fun ref_fill :: "mpt_ext \<Rightarrow> mpt \<Rightarrow> mpt" where
  "ref_fill X (MptNode d c) =
     (case c of
        Some r \<Rightarrow> MptNode d c
      | None \<Rightarrow> MptNode (map_node_data (ref_fill X) d)
                 (Some (calc_reference X (map_node_data (reference X) d))))"

definition refs :: "mpt_ext \<Rightarrow> mpt \<Rightarrow> mpt_ref node_data" where
  "refs X self = map_node_data (reference X) (data self)"

definition encode :: "mpt_ext \<Rightarrow> mpt \<Rightarrow> bytes" where
  "encode X self = encode_refs X (refs X self)"

definition mpt_length :: "mpt_ext \<Rightarrow> mpt \<Rightarrow> nat" where
  "mpt_length X self =
     (let payload_length = payload_length X (refs X self)
      in payload_length + length_of_length X payload_length)"

definition hash :: "mpt_ext \<Rightarrow> mpt \<Rightarrow> b256" where
  "hash X self =
     (case data self of
        Null \<Rightarrow> EMPTY_ROOT
      | _ \<Rightarrow> (case reference X self of
               RefDigest digest \<Rightarrow> digest
             | RefBytes bs \<Rightarrow> keccak X bs))"

section \<open>The announced length is the encoded length\<close>

lemma length_reference_encode [simp]: "length (reference_encode X r) = reference_length r"
  by (cases r) auto

lemma length_encode_refs:
  assumes "length_laws X"
  shows "length (encode_refs X d) = payload_length X d + length_of_length X (payload_length X d)"
proof (cases d)
  case (Branch cs)
  have "length (concat (map (\<lambda>child. case child of Some r \<Rightarrow> reference_encode X r
      | None \<Rightarrow> [empty_string_code X]) cs)) =
    sum_list (map (\<lambda>child. case child of None \<Rightarrow> 1 | Some r \<Rightarrow> reference_length r) cs)"
    by (induction cs) (auto split: option.splits)
  then show ?thesis using assms by (simp add: Branch length_laws_def)
qed (use assms in \<open>auto simp: length_laws_def\<close>)

text \<open>
  \<open>to_rlp\<close>, in a build with or without debug assertions: the length that is announced is the capacity
  of the buffer, and is compared with the length of the encoding.
\<close>

definition to_rlp :: "bool \<Rightarrow> mpt_ext \<Rightarrow> mpt \<Rightarrow> (mpt_error, bytes) res" where
  "to_rlp debug_assertions X self =
     (let rlp_length = mpt_length X self; out = encode X self
      in if debug_assertions \<and> length out \<noteq> rlp_length then Panic else Ok out)"

lemma to_rlp_Ok: "length_laws X \<Longrightarrow> to_rlp debug_assertions X t = Ok (encode X t)"
  by (simp add: to_rlp_def encode_def mpt_length_def length_encode_refs Let_def)

section \<open>The cache\<close>

text \<open>
  A node is coherent when every reference cached in it is the one its data determine.
  \<open>erase\<close> forgets all caches, so \<open>reference X (erase t)\<close> is the reference computed afresh.
\<close>

fun coherent :: "mpt_ext \<Rightarrow> mpt \<Rightarrow> bool" where
  "coherent X (MptNode d c) \<longleftrightarrow>
     (\<forall>n \<in> set_node_data d. coherent X n) \<and>
     (case c of None \<Rightarrow> True | Some r \<Rightarrow> r = reference X (erase (MptNode d None)))"

lemma erase_erase [simp]: "erase (erase t) = erase t"
  by (induction t) (simp add: node_data.map_comp cong: node_data.map_cong)

lemma data_erase: "data (erase t) = map_node_data erase (data t)"
  by (cases t) simp

lemma is_empty_erase [simp]: "is_empty (erase t) = is_empty t"
  by (cases t rule: canon.cases) (auto simp: is_empty_def)

lemma reference_coherent: "coherent X t \<Longrightarrow> reference X t = reference X (erase t)"
proof (induction t)
  case (MptNode d c)
  have "map_node_data (reference X) d = map_node_data (reference X) (map_node_data erase d)"
    using MptNode by (auto simp: node_data.map_comp intro: node_data.map_cong)
  then show ?case using MptNode.prems by (cases c) auto
qed

lemma refs_coherent: "coherent X t \<Longrightarrow> refs X t = refs X (erase t)"
  by (cases t) (auto simp: refs_def node_data.map_comp reference_coherent intro!: node_data.map_cong)

lemma hash_alt:
  "hash X t = (if is_empty t then EMPTY_ROOT
     else case reference X t of RefDigest d \<Rightarrow> d | RefBytes bs \<Rightarrow> keccak X bs)"
  by (cases "data t") (simp_all add: hash_def is_empty_def)

lemma hash_coherent: "coherent X t \<Longrightarrow> hash X t = hash X (erase t)"
  by (simp add: hash_alt reference_coherent [of X t, symmetric])

lemma coherent_erase [simp]: "coherent X (erase t)"
  by (induction t) (auto simp: node_data.set_map)

lemma coherent_node_of: "coherent X (MptNode d None) \<longleftrightarrow> (\<forall>n \<in> set_node_data d. coherent X n)"
  by simp

lemma hash_mpt_eq:
  assumes "mpt_eq a b" and "coherent X a" and "coherent X b"
  shows "hash X a = hash X b"
  using assms hash_coherent [of X a] hash_coherent [of X b] by (simp add: mpt_eq_def)

subsection \<open>Every operation keeps the cache coherent\<close>

lemma ref_fill_effect:
  "coherent X t \<Longrightarrow> coherent X (ref_fill X t) \<and> erase (ref_fill X t) = erase t \<and>
     reference X (ref_fill X t) = reference X t"
proof (induction t)
  case (MptNode d c)
  show ?case
  proof (cases c)
    case None
    have ch: "coherent X (ref_fill X n)" "erase (ref_fill X n) = erase n"
      "reference X n = reference X (erase n)" if "n \<in> set_node_data d" for n
      using MptNode.IH [OF that] MptNode.prems that reference_coherent [of X n] by simp_all
    have er: "map_node_data erase (map_node_data (ref_fill X) d) = map_node_data erase d"
      by (simp add: node_data.map_comp ch(2) cong: node_data.map_cong)
    have rf: "map_node_data (reference X) d = map_node_data (reference X) (map_node_data erase d)"
      by (simp add: node_data.map_comp) (rule node_data.map_cong, simp_all add: ch(3) [symmetric])
    show ?thesis
      by (auto simp only: None ref_fill.simps coherent.simps erase.simps reference.simps
        option.simps er rf node_data.set_map ball_simps) (simp_all add: ch)
  next
    case (Some r)
    then show ?thesis using MptNode.prems by simp
  qed
qed

lemma coherent_children:
  "coherent X (MptNode (Branch cs) c) \<Longrightarrow> i < length cs \<Longrightarrow> cs ! i = Some n \<Longrightarrow> coherent X n"
  by (fastforce dest: nth_mem)

lemma coherent_branch_update:
  assumes "coherent X (MptNode (Branch cs) c)"
    and "case x of None \<Rightarrow> True | Some n \<Rightarrow> coherent X n"
  shows "coherent X (MptNode (Branch (cs[i := x])) None)"
  using assms set_update_subset_insert [of cs i x] by (auto split: option.splits)

lemma coherent_split_node:
  assumes "split_children i old j new = Some cs" and "coherent X old" and "coherent X new"
  shows "coherent X (MptNode (split_node ps cs) None)"
proof -
  have "coherent X (MptNode (Branch cs) None)"
    using assms set_update_subset_insert [of "(replicate 16 None)[unat i := Some old]" "unat j" "Some new"]
      set_update_subset_insert [of "replicate 16 None" "unat i" "Some old"]
    by (fastforce simp: split_children_def split: if_splits)
  then show ?thesis by (auto simp: split_node_def node_of_def)
qed

lemma coherent_insert_internal:
  "insert_internal t ks v = (t', r) \<Longrightarrow> coherent X t \<Longrightarrow> coherent X t'"
proof (induction t arbitrary: ks t' r rule: mpt_induct)
  case (Branch cs c)
  show ?case
  proof (cases "r = Ok True")
    case True
    then obtain i tail where ks: "ks = i # tail" "unat i < length cs"
      using Branch.prems(1) by (auto split: list.splits if_splits)
    show ?thesis
    proof (cases "cs ! unat i")
      case None
      then show ?thesis using Branch.prems True ks
        by (auto intro!: coherent_branch_update simp del: coherent.simps)
          (simp add: node_of_def)
    next
      case (Some n)
      obtain n' where n': "insert_internal n tail v = (n', Ok True)"
        "t' = MptNode (Branch (cs[unat i := Some n'])) None"
        using Branch.prems(1) True ks Some by (auto split: prod.splits res.splits bool.splits)
      then have "coherent X n'"
        using Branch.IH [OF ks(2) Some n'(1)] coherent_children [OF Branch.prems(2) ks(2) Some] by blast
      then show ?thesis unfolding n'(2) by (intro coherent_branch_update [OF Branch.prems(2)]) simp
    qed
  next
    case False
    then show ?thesis using insert_internal_unchanged Branch.prems by metis
  qed
next
  case (Leaf p w c)
  then show ?case
    by (auto simp: Let_def split: option.splits if_splits intro!: coherent_split_node
        simp del: coherent.simps) (simp_all add: node_of_def)
next
  case (Extension p n c)
  show ?case
  proof (cases "r = Ok True")
    case True
    have n: "coherent X n" using Extension.prems(2) by simp
    show ?thesis
      using Extension.prems(1) True n Extension.IH
      by (auto simp: Let_def split: option.splits if_splits prod.splits res.splits bool.splits
          intro!: coherent_split_node) (auto simp: node_of_def)
  next
    case False
    then show ?thesis using insert_internal_unchanged Extension.prems by metis
  qed
qed auto

lemma occupied_coherent:
  assumes "coherent X (MptNode (Branch cs) c)" and "(k, n) \<in> set (occupied 0 cs)"
  shows "coherent X n"
  using coherent_children [OF assms(1), of k n] assms(2) by (simp only: occupied_iff) simp

lemma coherent_collapse_branch:
  assumes "coherent X (MptNode (Branch cs) None)" and "collapse_branch cs = Some d"
  shows "coherent X (MptNode d None)"
proof (cases "\<exists>k n. occupied 0 cs = [(k, n)]")
  case True
  then obtain k n where kn: "occupied 0 cs = [(k, n)]" by blast
  then have n: "coherent X n" using occupied_coherent [OF assms(1), of k n] by simp
  obtain dn cn where dn: "n = MptNode dn cn" by (cases n)
  show ?thesis
  proof (cases dn)
    case (Branch x)
    then have "d = Extension (to_encoded_path [of_nat k] False) n"
      using assms(2) kn dn by (simp add: collapse_branch_def)
    with n show ?thesis by simp
  next
    case (Digest x)
    then have "d = Extension (to_encoded_path [of_nat k] False) n"
      using assms(2) kn dn by (simp add: collapse_branch_def)
    with n show ?thesis by simp
  next
    case (Extension q m)
    then have "coherent X m" using n dn by simp
    then show ?thesis using assms(2) kn dn Extension by (auto simp: collapse_branch_def)
  qed (use assms(2) kn dn in \<open>auto simp: collapse_branch_def\<close>)
next
  case False
  then have "d = Branch cs"
    using assms(2) by (cases "occupied 0 cs" rule: remdups_adj.cases) (auto simp: collapse_branch_def)
  then show ?thesis using assms(1) by simp
qed

lemma coherent_merge_extension:
  assumes "coherent X n" and "merge_extension p ss n = Some d"
  shows "coherent X (MptNode d None)"
proof -
  obtain dn cn where dn: "n = MptNode dn cn" by (cases n)
  show ?thesis
  proof (cases dn)
    case (Branch x)
    then have "d = Extension p n" using assms(2) dn by (simp add: merge_extension_def)
    with assms(1) show ?thesis by simp
  next
    case (Digest x)
    then have "d = Extension p n" using assms(2) dn by (simp add: merge_extension_def)
    with assms(1) show ?thesis by simp
  next
    case (Extension q m)
    then have "coherent X m" using assms(1) dn by simp
    then show ?thesis using assms(2) dn Extension by (auto simp: merge_extension_def)
  qed (use assms(2) dn in \<open>auto simp: merge_extension_def\<close>)
qed

lemma coherent_delete_internal:
  "delete_internal t ks = (t', r) \<Longrightarrow> r \<noteq> Panic \<Longrightarrow> coherent X t \<Longrightarrow> coherent X t'"
proof (induction t arbitrary: ks t' r rule: mpt_induct)
  case (Branch cs c)
  show ?case
  proof (cases "r = Ok True")
    case True
    then obtain i tail n where ks: "ks = i # tail" "unat i < length cs" "cs ! unat i = Some n"
      using Branch.prems(1) by (auto split: list.splits if_splits option.splits)
    obtain n' d where n': "delete_internal n tail = (n', Ok True)"
      "collapse_branch (cs[unat i := (if is_empty n' then None else Some n')]) = Some d"
      "t' = MptNode d None"
      using Branch.prems(1) True ks
      by (auto simp: Let_def split: prod.splits res.splits bool.splits option.splits)
    have "coherent X n'"
      using Branch.IH [OF ks(2,3) n'(1)] coherent_children [OF Branch.prems(3) ks(2,3)] by simp
    then have "coherent X (MptNode (Branch (cs[unat i := (if is_empty n' then None else Some n')])) None)"
      by (intro coherent_branch_update [OF Branch.prems(3)]) simp
    then show ?thesis using coherent_collapse_branch n'(2,3) by blast
  next
    case False
    then show ?thesis using delete_internal_unchanged Branch.prems by metis
  qed
next
  case (Extension p n c)
  show ?case
  proof (cases "r = Ok True")
    case True
    then obtain n' ss tail d where n': "delete_internal n tail = (n', Ok True)"
      "merge_extension p ss n' = Some d" "t' = MptNode d None"
      using Extension.prems(1)
      by (auto split: option.splits if_splits prod.splits res.splits bool.splits)
    have "coherent X n'" using Extension.IH [OF n'(1)] Extension.prems(3) by simp
    then show ?thesis using coherent_merge_extension n'(2,3) by blast
  next
    case False
    then show ?thesis using delete_internal_unchanged Extension.prems by metis
  qed
qed (auto split: option.splits if_splits)

lemma coherent_clear: "coherent X (clear t)"
  by (simp add: clear_def)

lemmas coherent_operations = coherent_insert_internal coherent_delete_internal coherent_clear

section \<open>Reads and invariants do not see the cache\<close>

lemma get_internal_erase: "get_internal (erase t) ks = get_internal t ks"
proof (induction t arbitrary: ks rule: mpt_induct)
  case (Branch cs c)
  show ?case
  proof (cases ks)
    case (Cons i tail)
    then show ?thesis using Branch by (cases "unat i < length cs") (auto split: option.splits)
  qed simp
qed (auto split: option.splits)

lemma is_kind_erase [simp]: "is_branch (erase t) = is_branch t" "is_digest (erase t) = is_digest t"
  by (cases t rule: canon.cases; simp)+

lemma occupied_map: "occupied i (map (map_option f) cs) = map (\<lambda>(j, n). (j, f n)) (occupied i cs)"
  by (induction i cs rule: occupied.induct) auto

lemma list_all_children_map:
  assumes "\<And>i n. i < length cs \<Longrightarrow> cs ! i = Some n \<Longrightarrow> P (f n) = P n"
  shows "list_all (\<lambda>child. case child of None \<Rightarrow> True | Some n \<Rightarrow> P n) (map (map_option f) cs) \<longleftrightarrow>
    list_all (\<lambda>child. case child of None \<Rightarrow> True | Some n \<Rightarrow> P n) cs"
  unfolding list_all_children using assms by auto

lemma canon_erase: "canon (erase t) = canon t"
proof (induction t rule: mpt_induct)
  case (Branch cs c)
  have "list_all (\<lambda>child. case child of None \<Rightarrow> True | Some n \<Rightarrow> canon n) (map (map_option erase) cs) \<longleftrightarrow>
    list_all (\<lambda>child. case child of None \<Rightarrow> True | Some n \<Rightarrow> canon n) cs"
    using Branch by (intro list_all_children_map) auto
  then show ?case by (simp add: occupied_map)
qed auto

lemma fixed_len_erase: "fixed_len L (erase t) = fixed_len L t"
proof (induction t arbitrary: L rule: mpt_induct)
  case (Branch cs c)
  have "list_all (\<lambda>child. case child of None \<Rightarrow> True | Some n \<Rightarrow> fixed_len (L - 1) n) (map (map_option erase) cs) \<longleftrightarrow>
    list_all (\<lambda>child. case child of None \<Rightarrow> True | Some n \<Rightarrow> fixed_len (L - 1) n) cs"
    using Branch by (intro list_all_children_map) auto
  then show ?case by (simp only: erase.simps node_data.map fixed_len.simps)
qed (auto split: option.splits)

lemma trie_inv_erase: "trie_inv L (erase t) = trie_inv L t"
  by (simp add: trie_inv_def wf_trie_def canon_erase fixed_len_erase)

lemma trie_inv_cong: "erase s = erase t \<Longrightarrow> trie_inv L s = trie_inv L t"
  using trie_inv_erase by metis

lemma get_cong: "erase s = erase t \<Longrightarrow> get_internal s ks = get_internal t ks"
  using get_internal_erase by metis

end
