(* ===== verification/Mpt_Auth.thy ===== *)
theory Mpt_Auth
  imports Mpt_Reference
begin

text \<open>
  What the hash of a trie commits to: two tries with the same hash that both answer a lookup
  give the same answer, however many of their nodes are truncated to digests. The two facts
  assumed are that \<open>keccak256\<close> does not collide on the encodings that occur in the two tries,
  and that the RLP reader inverts the RLP writer.
\<close>

section \<open>A node as an RLP list\<close>

fun node_items :: "mpt_ext \<Rightarrow> mpt_ref node_data \<Rightarrow> bytes list" where
  "node_items X (Branch cs) =
     map (\<lambda>child. case child of Some r \<Rightarrow> reference_encode X r | None \<Rightarrow> [empty_string_code X]) cs @
     [[empty_string_code X]]"
| "node_items X (Leaf p v) = [slice_encode X p, slice_encode X v]"
| "node_items X (Extension p r) = [slice_encode X p, reference_encode X r]"
| "node_items X _ = []"

definition is_list_node :: "'n node_data \<Rightarrow> bool" where
  "is_list_node d = (case d of Null \<Rightarrow> False | Digest _ \<Rightarrow> False | _ \<Rightarrow> True)"

lemma length_node_items:
  assumes "length_laws X" and "is_list_node d"
  shows "length (concat (node_items X d)) = payload_length X d"
proof (cases d)
  case (Branch cs)
  have "Suc (length (concat (map (\<lambda>child. case child of Some r \<Rightarrow> reference_encode X r
      | None \<Rightarrow> [empty_string_code X]) cs))) = payload_length X (Branch cs)"
    by (induction cs) (auto split: option.splits)
  then show ?thesis by (simp only: Branch node_items.simps concat_append length_append) simp
qed (use assms in \<open>auto simp: is_list_node_def length_laws_def\<close>)

lemma encode_refs_list:
  assumes "length_laws X" and "is_list_node d"
  shows "encode_refs X d = rlp_list X (node_items X d)"
proof -
  have "encode_refs X d = header_encode X True (payload_length X d) @ concat (node_items X d)"
    using assms(2) by (cases d) (auto simp: is_list_node_def)
  then show ?thesis using length_node_items [OF assms] by (simp add: rlp_list_def)
qed

text \<open>The sizes of a trie fit RLP's lengths.\<close>

fun sized :: "mpt_ext \<Rightarrow> mpt \<Rightarrow> bool" where
  "sized X (MptNode d c) \<longleftrightarrow>
     size_ok (payload_length X (map_node_data (\<lambda>n. reference X (erase n)) d)) \<and>
     (case d of Leaf p v \<Rightarrow> size_ok (length p) \<and> size_ok (length v)
      | Extension p _ \<Rightarrow> size_ok (length p) | _ \<Rightarrow> True) \<and>
     (\<forall>n \<in> set_node_data d. sized X n)"

abbreviation fresh_ref :: "mpt_ext \<Rightarrow> mpt \<Rightarrow> mpt_ref" where
  "fresh_ref X n \<equiv> reference X (erase n)"

abbreviation fresh_refs :: "mpt_ext \<Rightarrow> mpt \<Rightarrow> mpt_ref node_data" where
  "fresh_refs X n \<equiv> map_node_data (fresh_ref X) (data n)"

lemma fresh_ref_calc: "fresh_ref X n = calc_reference X (fresh_refs X n)"
  by (cases n) (simp add: node_data.map_comp comp_def)

lemma encode_erase: "encode X (erase n) = encode_refs X (fresh_refs X n)"
  by (cases n) (simp add: encode_def refs_def node_data.map_comp comp_def)

lemma is_list_node_map [simp]: "is_list_node (map_node_data f d) = is_list_node d"
  by (cases d) (auto simp: is_list_node_def)

lemma fresh_ref_list:
  assumes "is_list_node (data n)"
  shows "fresh_ref X n = (if length (encode X (erase n)) < 32 then RefBytes (encode X (erase n))
    else RefDigest (keccak256 X (encode X (erase n))))"
  using assms
  by (cases "data n") (simp_all add: fresh_ref_calc [of X n] encode_erase calc_reference_def is_list_node_def
      keccak_def Let_def)

lemma fresh_ref_null: "data n = Null \<Longrightarrow> fresh_ref X n = RefBytes [empty_string_code X]"
  by (simp add: fresh_ref_calc [of X n] calc_reference_def)

lemma fresh_ref_digest: "data n = Digest h \<Longrightarrow> fresh_ref X n = RefDigest h"
  by (simp add: fresh_ref_calc [of X n] calc_reference_def)

lemma fresh_ref_short: "fresh_ref X n = RefBytes bs \<Longrightarrow> length bs < 32"
  by (cases "data n") (auto simp: fresh_ref_calc [of X n] calc_reference_def Let_def split: if_splits)

lemma reference_encode_inject:
  assumes "reference_encode X (fresh_ref X m) = reference_encode X (fresh_ref X n)"
  shows "fresh_ref X m = fresh_ref X n"
  using assms fresh_ref_short [of X m] fresh_ref_short [of X n]
  by (cases "fresh_ref X m"; cases "fresh_ref X n") (auto dest: arg_cong [of _ _ length])

section \<open>Every reference is an RLP item\<close>

lemma rlp_item_node:
  assumes "rlp_laws X" and "length_laws X" and "sized X t"
  shows "rlp_item X (reference_encode X (fresh_ref X t)) \<and>
    (\<forall>i \<in> set (node_items X (fresh_refs X t)). rlp_item X i)"
  using assms(3)
proof (induction t)
  case (MptNode d c)
  have empty: "rlp_item X [empty_string_code X]"
    using rlp_item.string [of "[]" X] rlp_lawsD(2) [OF assms(1)] by simp
  have digest: "rlp_item X ((empty_string_code X + 32) # b256_slice h)" for h
    using rlp_item.string [of "b256_slice h" X] rlp_lawsD(3) [OF assms(1), of "b256_slice h"] by simp
  have IH: "rlp_item X (reference_encode X (fresh_ref X n))" if "n \<in> set_node_data d" for n
    using MptNode that by auto
  have items: "\<forall>i \<in> set (node_items X (map_node_data (fresh_ref X) d)). rlp_item X i"
  proof (cases d)
    case (Branch cs)
    then show ?thesis using IH empty by (auto split: option.splits)
  next
    case (Leaf p v)
    then show ?thesis using MptNode.prems by (auto intro: rlp_item.string)
  next
    case (Extension p n)
    then show ?thesis using MptNode.prems IH by (auto intro: rlp_item.string)
  qed simp_all
  have "rlp_item X (reference_encode X (fresh_ref X (MptNode d c)))"
  proof (cases "is_list_node d")
    case True
    have "rlp_item X (encode X (erase (MptNode d c)))"
      using encode_refs_list [OF assms(2), of "map_node_data (fresh_ref X) d"]
        length_node_items [OF assms(2), of "map_node_data (fresh_ref X) d"] True items MptNode.prems
      by (simp add: encode_erase rlp_item.list del: erase.simps)
    then show ?thesis
      using True digest by (simp add: fresh_ref_list del: erase.simps)
  next
    case False
    then show ?thesis
      using empty digest
      by (cases d) (simp_all add: is_list_node_def fresh_ref_null fresh_ref_digest del: erase.simps)
  qed
  with items show ?case by (simp del: erase.simps)
qed

section \<open>Nodes of the right kind\<close>

text \<open>
  What the decoder produces: the flag in the path of a node is that of its kind, a branch has 16
  slots, and an occupied one is not empty. Canonical tries are of this form.
\<close>

definition path_kind :: "bool \<Rightarrow> bytes \<Rightarrow> bool" where
  "path_kind leaf p \<longleftrightarrow> p \<noteq> [] \<and> (hd p AND push_bit 4 2 \<noteq> 0 \<longleftrightarrow> leaf)"

fun well_kinded :: "mpt \<Rightarrow> bool" where
  "well_kinded (MptNode Null c) = True"
| "well_kinded (MptNode (Branch cs) c) = (length cs = 16 \<and>
     list_all (\<lambda>child. case child of None \<Rightarrow> True | Some n \<Rightarrow> \<not> is_empty n \<and> well_kinded n) cs)"
| "well_kinded (MptNode (Leaf p v) c) = path_kind True p"
| "well_kinded (MptNode (Extension p n) c) = (path_kind False p \<and> well_kinded n)"
| "well_kinded (MptNode (Digest h) c) = True"

lemma valid_path_kind:
  assumes "valid_path l p"
  shows "path_kind l p"
proof -
  obtain ns where ns: "nibbles ns" "p = to_encoded_path ns l" using assms by (auto elim: valid_pathE)
  show ?thesis using hp.enc_flag [OF ns(1), of l] ns(2) by (auto simp: path_kind_def simp del: push_bit_numeral)
qed

lemma path_kind_unique: "path_kind l p \<Longrightarrow> path_kind l' p \<Longrightarrow> l = l'"
  by (auto simp: path_kind_def)

lemma canon_well_kinded: "canon t \<Longrightarrow> \<not> is_empty t \<and> well_kinded t"
  by (induction t rule: mpt_induct) (auto simp: valid_path_kind list_all_length split: option.splits)

lemma empty_well_kinded: "is_empty t \<Longrightarrow> well_kinded t"
  by (cases t rule: canon.cases) simp_all

lemma wf_trie_well_kinded: "wf_trie t \<Longrightarrow> well_kinded t"
  using canon_well_kinded empty_well_kinded by (auto simp: wf_trie_def)

lemma well_kinded_erase: "well_kinded (erase t) = well_kinded t"
  by (induction t rule: mpt_induct) (auto simp: list_all_length split: option.splits)

section \<open>Injectivity of the encoding\<close>

text \<open>The encodings hashed while referencing a trie, those of its list nodes.\<close>

fun encodings :: "mpt_ext \<Rightarrow> mpt \<Rightarrow> bytes list" where
  "encodings X (MptNode Null c) = []"
| "encodings X (MptNode (Branch cs) c) = encode X (erase (MptNode (Branch cs) c)) #
     concat (map (\<lambda>child. case child of None \<Rightarrow> [] | Some n \<Rightarrow> encodings X n) cs)"
| "encodings X (MptNode (Leaf p v) c) = [encode X (erase (MptNode (Leaf p v) c))]"
| "encodings X (MptNode (Extension p n) c) =
     encode X (erase (MptNode (Extension p n) c)) # encodings X n"
| "encodings X (MptNode (Digest h) c) = []"

text \<open>Caches play no part in the sizes and encodings of a trie.\<close>

lemma sized_erase: "sized X (erase t) = sized X t"
proof (induction t)
  case (MptNode d c)
  have "map_node_data (\<lambda>n. reference X (erase n)) (map_node_data erase d) =
      map_node_data (\<lambda>n. reference X (erase n)) d"
    by (simp add: node_data.map_comp comp_def)
  moreover have "(\<forall>n \<in> set_node_data (map_node_data erase d). sized X n) = (\<forall>n \<in> set_node_data d. sized X n)"
    using MptNode by (simp add: node_data.set_map)
  ultimately show ?case by (cases d) (simp_all only: erase.simps sized.simps node_data.map node_data.case)
qed

lemma encodings_erase: "encodings X (erase t) = encodings X t"
proof (induction t rule: mpt_induct)
  case (Branch cs c)
  have "map (\<lambda>child. case child of None \<Rightarrow> [] | Some n \<Rightarrow> encodings X n) (map (map_option erase) cs) =
    map (\<lambda>child. case child of None \<Rightarrow> [] | Some n \<Rightarrow> encodings X n) cs"
    unfolding map_map using Branch by (auto simp: comp_def in_set_conv_nth intro!: map_cong split: option.split)
  moreover have "encode X (erase (erase (MptNode (Branch cs) c))) = encode X (erase (MptNode (Branch cs) c))"
    by (simp only: erase_erase)
  ultimately show ?case by (simp only: erase.simps node_data.map encodings.simps)
qed (simp_all add: node_data.map_comp comp_def)

definition collision_free :: "mpt_ext \<Rightarrow> bytes list \<Rightarrow> bool" where
  "collision_free X es \<longleftrightarrow> (\<forall>a \<in> set es. \<forall>b \<in> set es. keccak256 X a = keccak256 X b \<longrightarrow> a = b)"

lemma collision_freeD:
  "collision_free X es \<Longrightarrow> a \<in> set es \<Longrightarrow> b \<in> set es \<Longrightarrow> keccak256 X a = keccak256 X b \<Longrightarrow> a = b"
  by (auto simp: collision_free_def)

lemma collision_free_mono:
  "collision_free X fs \<Longrightarrow> set es \<subseteq> set fs \<Longrightarrow> collision_free X es"
  by (auto simp: collision_free_def)

lemma encodings_self: "is_list_node (data t) \<Longrightarrow> encode X (erase t) \<in> set (encodings X t)"
  by (cases "(X, t)" rule: encodings.cases) (auto simp: is_list_node_def)

lemma encodings_child:
  assumes "n \<in> set_node_data (data t)"
  shows "set (encodings X n) \<subseteq> set (encodings X t)"
proof (cases "(X, t)" rule: encodings.cases)
  case (2 X' cs c)
  then have "Some n \<in> set cs" using assms by auto
  then show ?thesis using 2 by force
qed (use assms in auto)

lemma sized_payload: "sized X t \<Longrightarrow> size_ok (payload_length X (fresh_refs X t))"
  by (cases t) simp

lemma sized_child: "sized X t \<Longrightarrow> n \<in> set_node_data (data t) \<Longrightarrow> sized X n"
  by (cases t) auto

lemma fresh_ref_encode:
  assumes "is_list_node (data a)" and "is_list_node (data b)" and "fresh_ref X a = fresh_ref X b"
    and "collision_free X es" and "set (encodings X a) \<subseteq> set es" and "set (encodings X b) \<subseteq> set es"
  shows "encode X (erase a) = encode X (erase b)"
proof -
  have "encode X (erase a) \<in> set es" "encode X (erase b) \<in> set es"
    using encodings_self assms(1,2,5,6) by blast+
  then have "keccak256 X (encode X (erase a)) = keccak256 X (encode X (erase b)) \<Longrightarrow> ?thesis"
    by (rule collision_freeD [OF assms(4)])
  then show ?thesis
    using assms(3) unfolding fresh_ref_list [OF assms(1)] fresh_ref_list [OF assms(2)]
    by (auto split: if_splits)
qed

lemma encode_items_inject:
  assumes "rlp_laws X" and "length_laws X" and "sized X a" and "sized X b"
    and "is_list_node (data a)" and "is_list_node (data b)"
    and "encode X (erase a) = encode X (erase b)"
  shows "node_items X (fresh_refs X a) = node_items X (fresh_refs X b)"
proof -
  have a: "is_list_node (fresh_refs X a)" "size_ok (payload_length X (fresh_refs X a))"
    and b: "is_list_node (fresh_refs X b)" "size_ok (payload_length X (fresh_refs X b))"
    using assms(3-6) sized_payload by simp_all
  have "rlp_list X (node_items X (fresh_refs X a)) = rlp_list X (node_items X (fresh_refs X b))"
    using assms(7) encode_refs_list [OF assms(2)] a b by (simp only: encode_erase)
  then show ?thesis
    using rlp_list_inject [OF assms(1), of "node_items X (fresh_refs X a)" "node_items X (fresh_refs X b)"]
      rlp_item_node [OF assms(1,2,3)] rlp_item_node [OF assms(1,2,4)]
      length_node_items [OF assms(2)] a b by simp
qed

text \<open>
  An occupied slot of a branch never has the reference of an empty slot.
\<close>

lemma child_not_empty_item:
  assumes "rlp_laws X" and "length_laws X" and "\<not> is_empty n" and "sized X n"
  shows "reference_encode X (fresh_ref X n) \<noteq> [empty_string_code X]"
proof (cases "is_list_node (data n)")
  case True
  have "encode X (erase n) \<noteq> slice_encode X []"
    using string_not_list [OF assms(1), of "[]" "node_items X (fresh_refs X n)"] True
      rlp_item_node [OF assms(1,2,4)] length_node_items [OF assms(2), of "fresh_refs X n"]
      encode_refs_list [OF assms(2), of "fresh_refs X n"] sized_payload [OF assms(4)]
    by (simp add: encode_erase)
  then show ?thesis
    using rlp_lawsD(2) [OF assms(1)] fresh_ref_list [OF True, of X]
    by (auto dest: arg_cong [of _ _ length])
next
  case False
  then obtain h where "data n = Digest h"
    using assms(3) by (cases n rule: canon.cases) (auto simp: is_list_node_def)
  then show ?thesis by (auto simp: fresh_ref_digest dest: arg_cong [of _ _ length])
qed

section \<open>Two tries with one hash\<close>

definition same_content :: "mpt_ext \<Rightarrow> mpt \<Rightarrow> mpt \<Rightarrow> bool" where
  "same_content X a b \<longleftrightarrow> well_kinded a \<and> well_kinded b \<and> sized X a \<and> sized X b \<and>
     is_list_node (data a) \<and> is_list_node (data b) \<and> encode X (erase a) = encode X (erase b)"

lemma same_content_kind:
  assumes laws: "rlp_laws X" "length_laws X" and s: "same_content X a b"
  shows "(\<exists>cs c ds c'. a = MptNode (Branch cs) c \<and> b = MptNode (Branch ds) c') \<or>
    (\<exists>p v c c'. a = MptNode (Leaf p v) c \<and> b = MptNode (Leaf p v) c') \<or>
    (\<exists>p m n c c'. a = MptNode (Extension p m) c \<and> b = MptNode (Extension p n) c' \<and>
      fresh_ref X m = fresh_ref X n)"
proof -
  have items: "node_items X (fresh_refs X a) = node_items X (fresh_refs X b)"
    using encode_items_inject [OF laws] s by (simp add: same_content_def)
  have inj: "slice_encode X p = slice_encode X q \<Longrightarrow> p = q" if "size_ok (length p)" "size_ok (length q)" for p q
    using slice_encode_inject [OF laws(1) that] by simp
  have flag: "\<not> (path_kind True p \<and> path_kind False p)" for p
    using path_kind_unique by blast
  show ?thesis
  proof (cases a rule: canon.cases)
    case (2 cs c)
    then show ?thesis using s items
      by (cases b rule: canon.cases) (auto simp: same_content_def is_list_node_def dest!: arg_cong [of _ _ length])
  next
    case (3 p v c)
    then show ?thesis using s items inj flag [of p]
      by (cases b rule: canon.cases) (auto simp: same_content_def is_list_node_def dest: arg_cong [of _ _ length])
  next
    case (4 p n c)
    then show ?thesis using s items inj flag [of p] reference_encode_inject [of X n]
      by (cases b rule: canon.cases) (auto simp: same_content_def is_list_node_def dest: arg_cong [of _ _ length])
  qed (use s in \<open>simp_all add: same_content_def is_list_node_def\<close>)
qed

lemma same_content_slot:
  assumes laws: "rlp_laws X" "length_laws X"
    and s: "same_content X (MptNode (Branch cs) c) (MptNode (Branch ds) c')" and k: "k < 16"
  shows "(cs ! k = None \<and> ds ! k = None) \<or>
    (\<exists>m n. cs ! k = Some m \<and> ds ! k = Some n \<and> fresh_ref X m = fresh_ref X n)"
proof -
  let ?f = "\<lambda>child. case child of Some r \<Rightarrow> reference_encode X r | None \<Rightarrow> [empty_string_code X]"
  have len: "length cs = 16" "length ds = 16" using s by (auto simp: same_content_def)
  have "node_items X (fresh_refs X (MptNode (Branch cs) c)) = node_items X (fresh_refs X (MptNode (Branch ds) c'))"
    using encode_items_inject [OF laws] s by (simp only: same_content_def)
  then have maps: "map ?f (map (map_option (fresh_ref X)) cs) = map ?f (map (map_option (fresh_ref X)) ds)"
    by simp
  have item: "?f (map_option (fresh_ref X) (cs ! k)) = ?f (map_option (fresh_ref X) (ds ! k))"
    using arg_cong [OF maps, of "\<lambda>l. l ! k"] len k by (simp only: nth_map length_map)
  have ne: "\<not> is_empty n \<Longrightarrow> sized X n \<Longrightarrow> reference_encode X (fresh_ref X n) \<noteq> [empty_string_code X]" for n
    using child_not_empty_item [OF laws] .
  have cs: "\<not> is_empty m \<and> sized X m" if "cs ! k = Some m" for m
    using s k len that nth_mem [of k cs] by (fastforce simp: same_content_def list_all_children)
  have ds: "\<not> is_empty m \<and> sized X m" if "ds ! k = Some m" for m
    using s k len that nth_mem [of k ds] by (fastforce simp: same_content_def list_all_children)
  show ?thesis
    using item ne cs ds reference_encode_inject by (cases "cs ! k"; cases "ds ! k") fastforce+
qed

lemma list_node_kind: "\<not> is_empty t \<Longrightarrow> \<not> is_digest t \<Longrightarrow> is_list_node (data t)"
  by (cases t rule: canon.cases) (auto simp: is_list_node_def)

lemma fresh_ref_content:
  assumes laws: "rlp_laws X" "length_laws X"
    and "fresh_ref X a = fresh_ref X b" and "well_kinded a" and "well_kinded b" and "sized X a" and "sized X b"
    and "\<not> is_digest a" and "\<not> is_digest b" and "collision_free X es"
    and "set (encodings X a) \<subseteq> set es" and "set (encodings X b) \<subseteq> set es"
  shows "same_content X a b \<or> (is_empty a \<and> is_empty b)"
proof -
  have empty: "reference_encode X (fresh_ref X n) = [empty_string_code X]" if "is_empty n" for n
    using that by (cases n rule: canon.cases) (simp_all add: calc_reference_def)
  have "is_empty a = is_empty b"
    using empty child_not_empty_item [OF laws _ assms(6)] child_not_empty_item [OF laws _ assms(7)] assms(3)
    by metis
  moreover have "same_content X a b" if "\<not> is_empty a" "\<not> is_empty b"
  proof -
    have ln: "is_list_node (data a)" "is_list_node (data b)"
      using list_node_kind that assms(8,9) by blast+
    show ?thesis
      unfolding same_content_def using fresh_ref_encode [OF ln assms(3,10-12)] assms ln by blast
  qed
  ultimately show ?thesis by blast
qed

lemma empty_reads: "is_empty t \<Longrightarrow> get_internal t ks = Ok None"
  by (cases t rule: canon.cases) simp_all

lemma get_not_digest: "get_internal t ks = Ok x \<Longrightarrow> \<not> is_digest t"
  by (cases t rule: canon.cases) auto

lemma content_reads:
  assumes laws: "rlp_laws X" "length_laws X" and cf: "collision_free X es"
  shows "same_content X a b \<Longrightarrow> set (encodings X a) \<subseteq> set es \<Longrightarrow> set (encodings X b) \<subseteq> set es \<Longrightarrow>
    nibbles ks \<Longrightarrow> get_internal a ks = Ok x \<Longrightarrow> get_internal b ks = Ok y \<Longrightarrow> x = y"
proof (induction a arbitrary: b ks rule: mpt_induct)
  case (Branch cs c)
  then obtain ds c' where b: "b = MptNode (Branch ds) c'"
    using same_content_kind [OF laws Branch.prems(1)] by auto
  have len: "length cs = 16" "length ds = 16" using Branch.prems(1) by (auto simp: b same_content_def)
  show ?case
  proof (cases ks)
    case (Cons i tail)
    then have i: "unat i < 16" "nibbles tail" using Branch.prems(4) by (auto simp: nibble_unat)
    from same_content_slot [OF laws Branch.prems(1) [unfolded b] i(1)]
    consider "cs ! unat i = None" "ds ! unat i = None"
      | m n where "cs ! unat i = Some m" "ds ! unat i = Some n" "fresh_ref X m = fresh_ref X n"
      by auto
    then show ?thesis
    proof cases
      case 2
      have mn: "m \<in> set_node_data (Branch cs)" "n \<in> set_node_data (Branch ds)"
        using 2 len i nth_mem [of "unat i" cs] nth_mem [of "unat i" ds] by force+
      have sub: "set (encodings X m) \<subseteq> set es" "set (encodings X n) \<subseteq> set es"
        using encodings_child [of m "MptNode (Branch cs) c" X] encodings_child [of n b X]
          Branch.prems(2,3) mn unfolding b mpt.sel by blast+
      have reads: "get_internal m tail = Ok x" "get_internal n tail = Ok y"
        using Branch.prems(5,6) 2 i len by (simp_all add: b Cons)
      have "well_kinded m" "well_kinded n" "sized X m" "sized X n"
        using Branch.prems(1) 2 i len mn b by (auto simp: same_content_def list_all_length split: option.splits)
      then have "same_content X m n \<or> (is_empty m \<and> is_empty n)"
        using fresh_ref_content [OF laws 2(3)] get_not_digest reads cf sub by blast
      then show ?thesis
        using Branch.IH [of "unat i" m n tail] 2 i len sub reads empty_reads [of m tail] empty_reads [of n tail] by auto
    qed (use Branch.prems(5,6) i len in \<open>simp add: b Cons\<close>)
  qed (use Branch.prems(5,6) in \<open>simp add: b\<close>)
next
  case (Leaf p v c)
  then obtain c' where "b = MptNode (Leaf p v) c'"
    using same_content_kind [OF laws Leaf.prems(1)] by auto
  then show ?case using Leaf.prems(5,6) by simp
next
  case (Extension p m c)
  then obtain n c' where b: "b = MptNode (Extension p n) c'" "fresh_ref X m = fresh_ref X n"
    using same_content_kind [OF laws Extension.prems(1)] by auto
  obtain ss where ss: "prefix_nibs p = Some ss"
    using Extension.prems(5) by (auto split: option.splits)
  show ?case
  proof (cases "strip_prefix ss ks")
    case (Some tail)
    then have tail: "nibbles tail" using Extension.prems(4) by (auto simp: strip_prefix_Some)
    have reads: "get_internal m tail = Ok x" "get_internal n tail = Ok y"
      using Extension.prems(5,6) ss Some by (simp_all add: b(1))
    have sub: "set (encodings X m) \<subseteq> set es" "set (encodings X n) \<subseteq> set es"
      using Extension.prems(2,3) by (auto simp: b(1))
    have "well_kinded m" "well_kinded n" "sized X m" "sized X n"
      using Extension.prems(1) by (auto simp: same_content_def b(1))
    then have "same_content X m n \<or> (is_empty m \<and> is_empty n)"
      using fresh_ref_content [OF laws b(2)] get_not_digest reads cf sub by blast
    then show ?thesis
      using Extension.IH [of n tail] sub tail reads empty_reads [of m tail] empty_reads [of n tail] by auto
  qed (use Extension.prems(5,6) ss in \<open>simp add: b(1)\<close>)
qed (simp_all add: same_content_def is_list_node_def)

text \<open>At the root the empty trie has the hash of the empty string's encoding.\<close>

lemma hash_list_node:
  assumes "is_list_node (data t)"
  shows "hash X (erase t) = keccak256 X (encode X (erase t))"
proof -
  have "\<not> is_empty (erase t)"
    using assms by (cases "data t") (auto simp: is_list_node_def is_empty_def data_erase)
  then show ?thesis
    unfolding hash_alt fresh_ref_list [OF assms] by (simp add: keccak_def)
qed

lemma list_node_not_empty_string:
  assumes "rlp_laws X" and "length_laws X" and "sized X n" and "is_list_node (data n)"
  shows "encode X (erase n) \<noteq> [empty_string_code X]"
  using string_not_list [OF assms(1), of "[]" "node_items X (fresh_refs X n)"] assms(4)
    rlp_item_node [OF assms(1-3)] length_node_items [OF assms(2), of "fresh_refs X n"]
    encode_refs_list [OF assms(2), of "fresh_refs X n"] sized_payload [OF assms(3)]
    rlp_lawsD(2) [OF assms(1)]
  by (simp add: encode_erase)

lemma same_hash_reads:
  assumes laws: "rlp_laws X" "length_laws X" and root: "keccak256 X [empty_string_code X] = EMPTY_ROOT"
    and a: "well_kinded a" "sized X a" "coherent X a" and b: "well_kinded b" "sized X b" "coherent X b"
    and cf: "collision_free X ([empty_string_code X] # encodings X a @ encodings X b)"
    and hash: "hash X a = hash X b" and ks: "nibbles ks"
    and reads: "get_internal a ks = Ok x" "get_internal b ks = Ok y"
  shows "x = y"
proof -
  have h: "hash X (erase a) = hash X (erase b)" using hash hash_coherent a(3) b(3) by metis
  have empty: "hash X (erase t) = keccak256 X [empty_string_code X]" if "is_empty t" for t
    using that root by (simp add: hash_alt)
  have ne: False if "is_empty s" "is_list_node (data t)" "sized X t" "hash X (erase s) = hash X (erase t)"
    "encode X (erase t) \<in> set (encodings X a @ encodings X b)" for s t
    using collision_freeD [OF cf, of "[empty_string_code X]" "encode X (erase t)"] empty [OF that(1)]
      hash_list_node [OF that(2)] list_node_not_empty_string [OF laws that(3,2)] that(4,5) by auto
  consider "is_empty a" "is_empty b" | "is_empty a" "is_list_node (data b)"
    | "is_empty b" "is_list_node (data a)" | "is_list_node (data a)" "is_list_node (data b)"
    using list_node_kind get_not_digest reads by metis
  then show ?thesis
  proof cases
    case 1
    then show ?thesis using reads empty_reads by simp
  next
    case 2
    then show ?thesis using ne [of a b] h b(2) encodings_self by auto
  next
    case 3
    then show ?thesis using ne [of b a] h a(2) encodings_self by auto
  next
    case 4
    then have "encode X (erase a) = encode X (erase b)"
      using collision_freeD [OF cf, of "encode X (erase a)" "encode X (erase b)"] h
        hash_list_node encodings_self by auto
    then have "same_content X a b" using 4 a(1,2) b(1,2) by (simp add: same_content_def)
    then show ?thesis
      using content_reads [OF laws cf, of a b ks x y] ks reads by auto
  qed
qed

end
