(* ===== verification/Mpt_Decode.thy ===== *)
theory Mpt_Decode
  imports Mpt_Auth
begin

text \<open>
  \<open>Decodable for MptNode\<close> and \<open>MptNode::decode\<close>, and the round trip with the encoder: a
  decoded encoding is the node with every child of 32 bytes or more truncated to its digest,
  and it has the same reference.
\<close>

section \<open>Definitions\<close>

text \<open>
  The recursion of the decoder follows the nesting of the RLP, which is not under its own
  control: \<open>None\<close> is fuel that ran out, and \<open>decode\<close> supplies more fuel than the input has
  bytes.
\<close>

definition fbind :: "('e, 'a) res option \<Rightarrow> ('a \<Rightarrow> ('e, 'b) res option) \<Rightarrow> ('e, 'b) res option" where
  "fbind r f = (case r of
      None \<Rightarrow> None
    | Some (Ok x) \<Rightarrow> f x
    | Some (Err e) \<Rightarrow> Some (Err e)
    | Some Panic \<Rightarrow> Some Panic)"

text \<open>The loop over the first sixteen items of a branch, over the decoder of one child.\<close>

fun decode_children ::
  "mpt_ext \<Rightarrow> (bytes \<Rightarrow> (decoder_error, mpt) res option) \<Rightarrow> bytes list \<Rightarrow>
   (decoder_error, mpt option list) res option" where
  "decode_children X dec [] = Some (Ok [])"
| "decode_children X dec (node_rlp # rest) =
     fbind (Some (rlp_prototype X node_rlp)) (\<lambda>proto.
       fbind (if proto = PNull \<or> proto = PData 0 then Some (Ok None)
              else fbind (dec node_rlp) (\<lambda>node. Some (Ok (Some node)))) (\<lambda>child.
         fbind (decode_children X dec rest) (\<lambda>node_list. Some (Ok (child # node_list)))))"

definition decode_pair ::
  "mpt_ext \<Rightarrow> (bytes \<Rightarrow> (decoder_error, mpt) res option) \<Rightarrow> bytes \<Rightarrow> (decoder_error, mpt) res option" where
  "decode_pair X dec rlp =
     fbind (Some (rlp_val_at X rlp 0)) (\<lambda>path.
       if path = [] then Some Panic
       else if hd path AND push_bit 4 2 = 0
       then fbind (Some (rlp_at X rlp 1)) (\<lambda>item.
              fbind (dec item) (\<lambda>node. Some (Ok (node_of (Extension path node)))))
       else fbind (Some (rlp_val_at X rlp 1)) (\<lambda>value. Some (Ok (node_of (Leaf path value)))))"

definition decode_branch ::
  "mpt_ext \<Rightarrow> (bytes \<Rightarrow> (decoder_error, mpt) res option) \<Rightarrow> bytes \<Rightarrow> (decoder_error, mpt) res option" where
  "decode_branch X dec rlp =
     fbind (decode_children X dec (take 16 (rlp_iter X rlp))) (\<lambda>node_list.
       fbind (Some (rlp_val_at X rlp 16)) (\<lambda>value.
         if value = []
         then (if length node_list = 16 then Some (Ok (node_of (Branch node_list))) else Some Panic)
         else Some (Err (CustomDecoderError ''branch node with value''))))"

fun decode_fuel :: "mpt_ext \<Rightarrow> nat \<Rightarrow> bytes \<Rightarrow> (decoder_error, mpt) res option" where
  "decode_fuel X 0 rlp = None"
| "decode_fuel X (Suc fuel) rlp =
     fbind (Some (rlp_prototype X rlp)) (\<lambda>proto.
       if proto = PNull \<or> proto = PData 0 then Some (Ok (node_of Null))
       else if proto = PList 2 then decode_pair X (decode_fuel X fuel) rlp
       else if proto = PList 17 then decode_branch X (decode_fuel X fuel) rlp
       else if proto = PData 32
       then fbind (Some (rlp_as_val X rlp)) (\<lambda>bytes.
              case b256_from_slice bytes of
                Some digest \<Rightarrow> Some (Ok (node_of (Digest digest)))
              | None \<Rightarrow> Some Panic)
       else Some (Err RlpIncorrectListLen))"

text \<open>\<open>MptNode::decode\<close>; running out of fuel would be the overflow of the stack.\<close>

definition decode :: "mpt_ext \<Rightarrow> bytes \<Rightarrow> (mpt_error, mpt) res" where
  "decode X bytes =
     (case decode_fuel X (Suc (length bytes)) bytes of
        Some r \<Rightarrow> map_err LegacyRlp r
      | None \<Rightarrow> Panic)"

section \<open>The fuel suffices\<close>

lemma fbind_simps [simp]:
  "fbind None f = None" "fbind (Some (Ok x)) f = f x"
  "fbind (Some (Err e)) f = Some (Err e)" "fbind (Some Panic) f = Some Panic"
  by (simp_all add: fbind_def)

lemma fbind_eq_None: "fbind r f = None \<longleftrightarrow> r = None \<or> (\<exists>x. r = Some (Ok x) \<and> f x = None)"
  by (auto simp: fbind_def split: option.splits res.splits)

lemma fbind_eq_Ok: "fbind r f = Some (Ok y) \<longleftrightarrow> (\<exists>x. r = Some (Ok x) \<and> f x = Some (Ok y))"
  by (auto simp: fbind_def split: option.splits res.splits)

lemma fbind_cong: "r = s \<Longrightarrow> (\<And>x. s = Some (Ok x) \<Longrightarrow> f x = g x) \<Longrightarrow> fbind r f = fbind s g"
  by (auto simp: fbind_def split: option.splits res.splits)

lemma decode_children_total:
  "decode_children X dec items = None \<Longrightarrow> \<exists>b \<in> set items. dec b = None"
  by (induction items) (auto simp: fbind_eq_None split: if_splits)

lemma decode_children_cong:
  "(\<And>b. b \<in> set items \<Longrightarrow> dec b = dec' b) \<Longrightarrow>
    decode_children X dec items = decode_children X dec' items"
proof (induction items)
  case (Cons a items)
  then have "dec a = dec' a" "decode_children X dec items = decode_children X dec' items" by auto
  then show ?case by (simp only: decode_children.simps)
qed simp

lemma decode_fuel_total:
  assumes "rlp_shrinks X"
  shows "length b < n \<Longrightarrow> decode_fuel X n b \<noteq> None"
proof (induction n arbitrary: b)
  case (Suc n)
  have pair: "decode_fuel X n i \<noteq> None"
    if "rlp_prototype X b = Ok (PList 2)" "rlp_at X b k = Ok i" for i k
    using Suc.IH [of i] Suc.prems assms that by (fastforce simp: rlp_shrinks_def)
  have item: "decode_fuel X n i \<noteq> None"
    if "rlp_prototype X b = Ok (PList 17)" "i \<in> set (take 16 (rlp_iter X b))" for i
    using Suc.IH [of i] Suc.prems assms that by (fastforce simp: rlp_shrinks_def dest: in_set_takeD)
  show ?case
  proof
    assume "decode_fuel X (Suc n) b = None"
    then show False
      using pair item decode_children_total [of X "decode_fuel X n" "take 16 (rlp_iter X b)"]
      by (auto simp: fbind_eq_None decode_pair_def decode_branch_def simp del: not_None_eq
        split: option.splits if_splits)
  qed
qed simp

text \<open>More fuel does not change the answer, so \<open>decode\<close> is the decoder without a bound.\<close>

lemma decode_fuel_mono:
  assumes "rlp_shrinks X"
  shows "length b < n \<Longrightarrow> length b < m \<Longrightarrow> decode_fuel X n b = decode_fuel X m b"
proof (induction n arbitrary: b m)
  case (Suc n)
  then obtain k where m: "m = Suc k" by (cases m) auto
  have pair: "decode_fuel X n i = decode_fuel X k i"
    if "rlp_prototype X b = Ok (PList 2)" "rlp_at X b j = Ok i" for i j
    using Suc.IH [of i k] Suc.prems assms that by (fastforce simp: rlp_shrinks_def m)
  have item: "decode_fuel X n i = decode_fuel X k i"
    if "rlp_prototype X b = Ok (PList 17)" "i \<in> set (take 16 (rlp_iter X b))" for i
    using Suc.IH [of i k] Suc.prems assms that
    by (fastforce simp: rlp_shrinks_def m dest: in_set_takeD)
  show ?case
  proof (cases "rlp_prototype X b")
    case (Ok proto)
    show ?thesis
      using pair item decode_children_cong [of "take 16 (rlp_iter X b)" "decode_fuel X n" "decode_fuel X k" X]
      by (auto simp: m Ok decode_pair_def decode_branch_def intro!: fbind_cong)
  qed (simp_all add: m)
qed simp

section \<open>The round trip\<close>

text \<open>
  What the encoding of a node keeps: children whose reference is a digest are cut off there,
  the others are embedded.
\<close>

fun cut_refs :: "mpt_ext \<Rightarrow> mpt \<Rightarrow> mpt" where
  "cut_refs X (MptNode d c) = node_of (map_node_data
     (\<lambda>n. case fresh_ref X n of RefDigest h \<Rightarrow> node_of (Digest h) | RefBytes _ \<Rightarrow> cut_refs X n) d)"

abbreviation truncated_child :: "mpt_ext \<Rightarrow> mpt \<Rightarrow> mpt" where
  "truncated_child X n \<equiv>
     (case fresh_ref X n of RefDigest h \<Rightarrow> node_of (Digest h) | RefBytes _ \<Rightarrow> cut_refs X n)"

lemma fresh_ref_of_refs: "map_node_data (fresh_ref X) (data a) = map_node_data (fresh_ref X) (data b) \<Longrightarrow>
    fresh_ref X a = fresh_ref X b"
  by (simp add: fresh_ref_calc [of X a] fresh_ref_calc [of X b])

lemma fresh_ref_truncate: "fresh_ref X (cut_refs X t) = fresh_ref X t"
proof (induction t)
  case (MptNode d c)
  have "fresh_ref X (truncated_child X n) = fresh_ref X n" if "n \<in> set_node_data d" for n
    using MptNode [OF that] fresh_ref_digest [of "node_of (Digest h)" h X for h]
    by (auto simp: node_of_def split: mpt_ref.splits simp del: erase.simps)
  then show ?case
    by (intro fresh_ref_of_refs)
      (auto simp: node_data.map_comp comp_def simp del: erase.simps intro!: node_data.map_cong)
qed

lemma erase_truncate [simp]: "erase (cut_refs X t) = cut_refs X t"
proof (induction t)
  case (MptNode d c)
  have "erase (truncated_child X n) = truncated_child X n" if "n \<in> set_node_data d" for n
    using MptNode [OF that] by (simp add: node_of_def split: mpt_ref.splits)
  then show ?case by (simp add: node_of_def node_data.map_comp comp_def cong: node_data.map_cong)
qed

lemma canon_data_cases: "canon t \<Longrightarrow> is_list_node (data t) \<or> (\<exists>h. data t = Digest h)"
  by (cases t rule: canon.cases) (auto simp: is_list_node_def)

lemma valid_path_hd: "valid_path l p \<Longrightarrow> p \<noteq> [] \<and> (hd p AND push_bit 4 2 = 0 \<longleftrightarrow> \<not> l)"
proof (erule valid_pathE)
  fix ns
  assume ns: "nibbles ns" "p = to_encoded_path ns l"
  obtain b bs where "to_encoded_path ns l = b # bs" "b AND push_bit 4 2 \<noteq> 0 \<longleftrightarrow> l"
    using hp.enc_flag [OF ns(1), of l] by blast
  then show ?thesis unfolding ns(2) by (simp only: list.sel list.simps) auto
qed

text \<open>The embedded encoding of a child decodes to the truncated child.\<close>

definition decodes :: "mpt_ext \<Rightarrow> (bytes \<Rightarrow> (decoder_error, mpt) res option) \<Rightarrow> mpt \<Rightarrow> bool" where
  "decodes X dec n \<longleftrightarrow> dec (reference_encode X (fresh_ref X n)) = Some (Ok (truncated_child X n))"

lemma null_item:
  assumes "rlp_laws X"
  shows "rlp_prototype X [empty_string_code X] = Ok (PData 0)"
    "rlp_as_val X [empty_string_code X] = Ok []"
  using rlp_lawsD(5) [OF assms, of "[]"] rlp_lawsD(6) [OF assms, of "[]"] rlp_lawsD(2) [OF assms]
  by simp_all

lemma digest_item:
  assumes "rlp_laws X"
  shows "rlp_prototype X ((empty_string_code X + 32) # b256_slice h) = Ok (PData 32)"
    "rlp_as_val X ((empty_string_code X + 32) # b256_slice h) = Ok (b256_slice h)"
  using rlp_lawsD(5) [OF assms, of "b256_slice h"] rlp_lawsD(6) [OF assms, of "b256_slice h"]
    rlp_lawsD(3) [OF assms, of "b256_slice h"] by simp_all

lemma list_node_prototype:
  assumes "rlp_laws X" and "length_laws X" and "sized X t" and "is_list_node (data t)"
  shows "rlp_prototype X (encode X (erase t)) = Ok (PList (length (node_items X (fresh_refs X t))))"
    "rlp_iter X (encode X (erase t)) = node_items X (fresh_refs X t)"
    "i < length (node_items X (fresh_refs X t)) \<Longrightarrow>
      rlp_at X (encode X (erase t)) i = Ok (node_items X (fresh_refs X t) ! i)"
proof -
  have "\<forall>i \<in> set (node_items X (fresh_refs X t)). rlp_item X i" "size_ok (length (concat (node_items X (fresh_refs X t))))"
    and eq: "encode X (erase t) = rlp_list X (node_items X (fresh_refs X t))"
    using rlp_item_node [OF assms(1-3)] length_node_items [OF assms(2), of "fresh_refs X t"]
      encode_refs_list [OF assms(2), of "fresh_refs X t"] sized_payload [OF assms(3)] assms(4)
    by (simp_all add: encode_erase)
  then show "rlp_prototype X (encode X (erase t)) = Ok (PList (length (node_items X (fresh_refs X t))))"
    "rlp_iter X (encode X (erase t)) = node_items X (fresh_refs X t)"
    "i < length (node_items X (fresh_refs X t)) \<Longrightarrow>
      rlp_at X (encode X (erase t)) i = Ok (node_items X (fresh_refs X t) ! i)"
    using rlp_list_lawsD [OF assms(1)] unfolding eq by blast+
qed

lemma decode_children_encoded:
  assumes laws: "rlp_laws X" "length_laws X"
    and ch: "\<And>n. Some n \<in> set cs \<Longrightarrow> canon n \<and> sized X n \<and> decodes X dec n"
  shows "decode_children X dec (map (\<lambda>child. case child of
      Some r \<Rightarrow> reference_encode X r | None \<Rightarrow> [empty_string_code X]) (map (map_option (fresh_ref X)) cs)) =
    Some (Ok (map (map_option (truncated_child X)) cs))"
  using ch
proof (induction cs)
  case (Cons x cs)
  show ?case
  proof (cases x)
    case None
    then show ?thesis using Cons null_item [OF laws(1)] by (simp add: fbind_def)
  next
    case (Some n)
    then have n: "canon n" "sized X n" "decodes X dec n" using Cons.prems by auto
    obtain proto where "rlp_prototype X (reference_encode X (fresh_ref X n)) = Ok proto"
      "proto \<noteq> PNull" "proto \<noteq> PData 0"
    proof (cases "is_list_node (data n)")
      case True
      then show ?thesis
        using that list_node_prototype(1) [OF laws n(2) True] digest_item(1) [OF laws(1)]
        by (cases "length (encode X (erase n)) < 32") (simp_all add: fresh_ref_list)
    next
      case False
      then obtain h where "data n = Digest h" using canon_data_cases [OF n(1)] by auto
      then show ?thesis using that digest_item(1) [OF laws(1)] by (simp add: fresh_ref_digest)
    qed
    then show ?thesis using Cons n(3) by (simp add: Some decodes_def)
  qed
qed simp

lemma decode_digest_item:
  "rlp_laws X \<Longrightarrow> decode_fuel X (Suc k) ((empty_string_code X + 32) # b256_slice h) =
    Some (Ok (node_of (Digest h)))"
  by (simp add: digest_item)

text \<open>The decoder undoes the embedding of a child, given that it decodes the child.\<close>

lemma decodes_child:
  assumes laws: "rlp_laws X" and n: "canon n" and k: "length (reference_encode X (fresh_ref X n)) < k"
    and IH: "length (encode X (erase n)) < k \<Longrightarrow>
      decode_fuel X k (encode X (erase n)) = Some (Ok (cut_refs X n))"
  shows "decodes X (decode_fuel X k) n"
proof (cases "fresh_ref X n")
  case (RefDigest h)
  obtain j where "k = Suc j" using k by (cases k) auto
  then show ?thesis using decode_digest_item [OF laws, of j h] by (simp add: decodes_def RefDigest)
next
  case (RefBytes bs)
  then have "is_list_node (data n)"
    using canon_data_cases [OF n] fresh_ref_digest [of n] by auto
  then have "bs = encode X (erase n)"
    using RefBytes by (auto simp: fresh_ref_list split: if_splits)
  then show ?thesis using IH k by (simp add: decodes_def RefBytes)
qed

lemma decode_encoded:
  assumes laws: "rlp_laws X" "length_laws X" "rlp_shrinks X"
  shows "canon t \<Longrightarrow> sized X t \<Longrightarrow> length (encode X (erase t)) < k \<Longrightarrow>
    decode_fuel X k (encode X (erase t)) = Some (Ok (cut_refs X t))"
proof (induction t arbitrary: k rule: mpt_induct)
  case (Branch cs c)
  let ?t = "MptNode (Branch cs) c"
  have ln: "is_list_node (data ?t)" by (simp add: is_list_node_def)
  have len: "length cs = 16" using Branch.prems(1) by simp
  obtain j where j: "k = Suc j" using Branch.prems(3) by (cases k) auto
  have proto: "rlp_prototype X (encode X (erase ?t)) = Ok (PList 17)"
    using list_node_prototype(1) [OF laws(1,2) Branch.prems(2) ln] len by simp
  have dec: "canon n \<and> sized X n \<and> decodes X (decode_fuel X j) n" if n: "Some n \<in> set cs" for n
  proof -
    obtain i where i: "i < length cs" "cs ! i = Some n" using n by (auto simp: in_set_conv_nth)
    have c: "canon n" "sized X n" using Branch.prems(1,2) n by (auto simp: list_all_iff)
    have "reference_encode X (fresh_ref X n) \<in> set (rlp_iter X (encode X (erase ?t)))"
      using list_node_prototype(2) [OF laws(1,2) Branch.prems(2) ln] n by force
    then have "length (reference_encode X (fresh_ref X n)) < length (encode X (erase ?t))"
      using laws(3) proto unfolding rlp_shrinks_def by blast
    then show ?thesis
      using decodes_child [OF laws(1) c(1), of j] Branch.IH [OF i c] Branch.prems(3) c j by simp
  qed
  have "take 16 (rlp_iter X (encode X (erase ?t))) = map (\<lambda>child. case child of
      Some r \<Rightarrow> reference_encode X r | None \<Rightarrow> [empty_string_code X]) (map (map_option (fresh_ref X)) cs)"
    using list_node_prototype(2) [OF laws(1,2) Branch.prems(2) ln] len by (simp del: map_map)
  then have "decode_children X (decode_fuel X j) (take 16 (rlp_iter X (encode X (erase ?t)))) =
      Some (Ok (map (map_option (truncated_child X)) cs))"
    using decode_children_encoded [OF laws(1,2) dec] by (simp del: map_map)
  moreover have "rlp_val_at X (encode X (erase ?t)) 16 = Ok []"
    using list_node_prototype(3) [OF laws(1,2) Branch.prems(2) ln, of 16] len null_item(2) [OF laws(1)]
    by (simp add: rlp_lawsD(7) [OF laws(1)] nth_append)
  ultimately show ?case
    using proto len by (simp add: j decode_branch_def del: erase.simps)
next
  case (Leaf p v c)
  let ?t = "MptNode (Leaf p v) c"
  have ln: "is_list_node (data ?t)" by (simp add: is_list_node_def)
  obtain j where j: "k = Suc j" using Leaf.prems(3) by (cases k) auto
  have "size_ok (length p)" "size_ok (length v)" using Leaf.prems(2) by auto
  then have "rlp_val_at X (encode X (erase ?t)) 0 = Ok p" "rlp_val_at X (encode X (erase ?t)) 1 = Ok v"
    using list_node_prototype(3) [OF laws(1,2) Leaf.prems(2) ln]
    by (simp_all add: rlp_lawsD(6,7) [OF laws(1)])
  moreover have "p \<noteq> [] \<and> hd p AND push_bit 4 2 \<noteq> 0"
    using valid_path_hd [of True p] Leaf.prems(1) by simp
  ultimately show ?case
    using list_node_prototype(1) [OF laws(1,2) Leaf.prems(2) ln]
    by (simp add: j decode_pair_def del: erase.simps)
next
  case (Extension p n c)
  let ?t = "MptNode (Extension p n) c"
  have ln: "is_list_node (data ?t)" by (simp add: is_list_node_def)
  obtain j where j: "k = Suc j" using Extension.prems(3) by (cases k) auto
  have c: "canon n" "sized X n" "size_ok (length p)" using Extension.prems(1,2) by auto
  have at: "rlp_at X (encode X (erase ?t)) 1 = Ok (reference_encode X (fresh_ref X n))"
    and proto: "rlp_prototype X (encode X (erase ?t)) = Ok (PList 2)"
    and path: "rlp_val_at X (encode X (erase ?t)) 0 = Ok p"
    using list_node_prototype(1,3) [OF laws(1,2) Extension.prems(2) ln] c
    by (simp_all add: rlp_lawsD(6,7) [OF laws(1)])
  have "length (reference_encode X (fresh_ref X n)) < length (encode X (erase ?t))"
    using laws(3) proto at unfolding rlp_shrinks_def by blast
  then have "decodes X (decode_fuel X j) n"
    using decodes_child [OF laws(1) c(1), of j] Extension.IH [OF c(1,2), of j] Extension.prems(3) j by simp
  moreover have "p \<noteq> [] \<and> hd p AND push_bit 4 2 = 0"
    using valid_path_hd [of False p] Extension.prems(1) by simp
  ultimately show ?case
    using proto at path by (simp add: j decode_pair_def decodes_def del: erase.simps)
next
  case (Digest h c)
  obtain j where j: "k = Suc j" using Digest.prems(3) by (cases k) auto
  have "encode X (erase (MptNode (Digest h) c)) = (empty_string_code X + 32) # b256_slice h"
    using rlp_lawsD(3) [OF laws(1), of "b256_slice h"] rlp_lawsD(4) [OF laws(1)]
    by (simp add: encode_def refs_def)
  then show ?case using decode_digest_item [OF laws(1), of j h] by (simp only: j) simp
qed simp

lemma decode_null:
  assumes "rlp_laws X"
  shows "decode_fuel X (Suc k) (encode X (erase (MptNode Null c))) = Some (Ok (cut_refs X (MptNode Null c)))"
  using null_item [OF assms] by (simp add: encode_def refs_def)

text \<open>Decoding produces no cached references.\<close>

lemma decode_children_erased:
  assumes "\<And>b n. dec b = Some (Ok n) \<Longrightarrow> erase n = n" and "decode_children X dec items = Some (Ok cs)"
  shows "map (map_option erase) cs = cs"
  using assms(2)
  by (induction items arbitrary: cs) (auto simp: fbind_eq_Ok assms(1) split: if_splits)

lemma decode_fuel_erased: "decode_fuel X k b = Some (Ok t) \<Longrightarrow> erase t = t"
proof (induction k arbitrary: b t)
  case (Suc k)
  then show ?case
    using decode_children_erased [of "decode_fuel X k" X]
    by (auto simp: fbind_eq_Ok decode_pair_def decode_branch_def node_of_def
        split: if_splits option.splits)
qed simp

lemma decode_erased: "decode X b = Ok t \<Longrightarrow> erase t = t"
  by (auto simp: decode_def res_ok_simps simp del: decode_fuel.simps
      dest: decode_fuel_erased split: option.splits)

lemma decode_coherent: "decode X b = Ok t \<Longrightarrow> coherent X t"
  by (metis coherent_erase decode_erased)

end
