(* ===== verification/Mpt_Kinds.thy ===== *)
theory Mpt_Kinds
  imports Mpt_Decode
begin

text \<open>
  Nodes of the right kind as a type discipline of the tries: every node \<open>MptNode::decode\<close> returns has
  it, and on a trie that has it \<open>get\<close> and \<open>insert\<close> never index out of bounds.
\<close>

section \<open>The decoder\<close>

lemma decode_children_kinded:
  assumes "\<And>b t. b \<in> set items \<Longrightarrow> rlp_prototype X b \<noteq> Ok PNull \<Longrightarrow> rlp_prototype X b \<noteq> Ok (PData 0) \<Longrightarrow>
      dec b = Some (Ok t) \<Longrightarrow> P t"
  shows "decode_children X dec items = Some (Ok cs) \<Longrightarrow>
    list_all (\<lambda>child. case child of None \<Rightarrow> True | Some n \<Rightarrow> P n) cs"
  using assms
proof (induction items arbitrary: cs)
  case (Cons b items)
  obtain proto child rest where d: "rlp_prototype X b = Ok proto" "decode_children X dec items = Some (Ok rest)"
    "cs = child # rest" "if proto = PNull \<or> proto = PData 0 then child = None
      else (\<exists>t. dec b = Some (Ok t) \<and> child = Some t)"
    using Cons.prems(1) by (auto simp: fbind_eq_Ok split: if_splits)
  have "list_all (\<lambda>child. case child of None \<Rightarrow> True | Some n \<Rightarrow> P n) rest"
    by (rule Cons.IH [OF d(2)]) (use Cons.prems(2) in auto)
  moreover have "case child of None \<Rightarrow> True | Some n \<Rightarrow> P n"
    using d(1,4) Cons.prems(2) [of b] by (auto split: if_splits)
  ultimately show ?case by (simp add: d(3))
qed simp

lemma decode_fuel_kinded:
  "decode_fuel X n b = Some (Ok t) \<Longrightarrow> well_kinded t \<and>
    (is_empty t \<longrightarrow> rlp_prototype X b = Ok PNull \<or> rlp_prototype X b = Ok (PData 0))"
proof (induction n arbitrary: b t)
  case (Suc n)
  obtain proto where p: "rlp_prototype X b = Ok proto"
    using Suc.prems by (auto simp: fbind_eq_Ok)
  consider "proto = PNull \<or> proto = PData 0" | "proto = PList 2" | "proto = PList 17" | "proto = PData 32"
    using Suc.prems p by (auto split: if_splits)
  then show ?case
  proof cases
    case 2
    then have d: "decode_pair X (decode_fuel X n) b = Some (Ok t)" using Suc.prems p by simp
    then show ?thesis
      using Suc.IH
      by (auto simp: decode_pair_def fbind_eq_Ok node_of_def path_kind_def simp del: push_bit_numeral
          split: if_splits)
  next
    case 3
    then have d: "decode_branch X (decode_fuel X n) b = Some (Ok t)" using Suc.prems p by simp
    then obtain cs where cs: "decode_children X (decode_fuel X n) (take 16 (rlp_iter X b)) = Some (Ok cs)"
      "length cs = 16" "t = node_of (Branch cs)"
      by (auto simp: decode_branch_def fbind_eq_Ok split: if_splits)
    have "list_all (\<lambda>child. case child of None \<Rightarrow> True | Some n \<Rightarrow> \<not> is_empty n \<and> well_kinded n) cs"
      by (rule decode_children_kinded [OF _ cs(1)]) (use Suc.IH in blast)
    then show ?thesis using cs(2,3) by (simp add: node_of_def)
  next
    case 4
    then show ?thesis
      using Suc.prems p by (auto simp: fbind_eq_Ok node_of_def split: option.splits)
  qed (use Suc.prems p in \<open>auto simp: node_of_def\<close>)
qed simp

lemma decode_kinded:
  assumes "decode X b = Ok t"
  shows "well_kinded t"
  using assms decode_fuel_kinded [of X "Suc (length b)" b t]
  by (auto simp: decode_def map_err_eq_Ok simp del: decode_fuel.simps split: option.splits)

section \<open>Progress of \<open>get\<close> and \<open>insert\<close>\<close>

lemma path_kind_nibs:
  assumes "path_kind l p"
  obtains ns where "prefix_nibs p = Some ns" "nibbles ns"
proof -
  obtain ns where "prefix_nibs p = Some ns"
    using assms by (cases p) (auto simp: path_kind_def prefix_nibs_def Let_def)
  then show thesis using that prefix_nibs_nibbles by blast
qed

lemma kinded_children:
  "list_all (\<lambda>child. case child of None \<Rightarrow> True | Some n \<Rightarrow> \<not> is_empty n \<and> well_kinded n) cs \<Longrightarrow>
    i < length cs \<Longrightarrow> cs ! i = Some n \<Longrightarrow> well_kinded n"
  by (auto simp: list_all_length)

lemma get_kinded: "well_kinded t \<Longrightarrow> nibbles ks \<Longrightarrow> get_internal t ks \<noteq> Panic"
proof (induction t arbitrary: ks rule: mpt_induct)
  case (Branch cs c)
  show ?case
  proof (cases ks)
    case (Cons i tail)
    then have "unat i < 16" "nibbles tail" using Branch.prems(2) by (auto simp: nibble_unat)
    then show ?thesis using Branch kinded_children by (auto simp: Cons split: option.split)
  qed simp
next
  case (Leaf p v c)
  then obtain ns where "prefix_nibs p = Some ns" by (auto elim: path_kind_nibs)
  then show ?case by simp
next
  case (Extension p n c)
  then obtain ns where "prefix_nibs p = Some ns" by (auto elim: path_kind_nibs)
  then show ?case using Extension by (auto simp: strip_prefix_Some split: option.split)
qed simp_all

lemma split_children_kinded:
  "nibbles ns \<Longrightarrow> nibbles ks \<Longrightarrow> k < length ns \<Longrightarrow> k < length ks \<Longrightarrow>
    split_children (ns ! k) old (ks ! k) new \<noteq> None"
  using nibbles_nth [of ns k] nibbles_nth [of ks k] by (simp add: split_children_def word_less_nat_alt)

lemma insert_kinded: "well_kinded t \<Longrightarrow> nibbles ks \<Longrightarrow> snd (insert_internal t ks v) \<noteq> Panic"
proof (induction t arbitrary: ks rule: mpt_induct)
  case (Branch cs c)
  show ?case
  proof (cases ks)
    case (Cons i tail)
    then have i: "unat i < 16" "nibbles tail" using Branch.prems(2) by (auto simp: nibble_unat)
    then have len: "unat i < length cs" using Branch.prems(1) by simp
    show ?thesis
    proof (cases "cs ! unat i")
      case (Some n)
      then have "snd (insert_internal n tail v) \<noteq> Panic"
        using Branch.IH [OF len Some] Branch.prems(1) kinded_children [OF _ len Some] i by simp
      then show ?thesis using len Some by (auto simp: Cons split: prod.split res.split bool.split)
    qed (use len in \<open>simp add: Cons\<close>)
  qed simp
next
  case (Leaf p old c)
  then obtain ns where ns: "prefix_nibs p = Some ns" "nibbles ns" by (auto elim: path_kind_nibs)
  show ?case
  proof (cases "lcp ns ks = length ns \<or> lcp ns ks = length ks")
    case False
    then have "lcp ns ks < length ns" "lcp ns ks < length ks" using lcp_le [of ns ks] by auto
    then show ?thesis
      using False ns(1)
      by (auto simp: Let_def split_children_kinded [OF ns(2) Leaf.prems(2)] simp del: not_None_eq split: option.split)
  qed (use ns in \<open>auto simp: Let_def\<close>)
next
  case (Extension p n c)
  then obtain ns where ns: "prefix_nibs p = Some ns" "nibbles ns" by (auto elim: path_kind_nibs)
  show ?case
  proof (cases "lcp ns ks = length ns")
    case True
    have "snd (insert_internal n (drop (length ns) ks) v) \<noteq> Panic"
      using Extension by simp
    then show ?thesis using ns(1) True by (auto simp: Let_def split: prod.split res.split bool.split)
  next
    case False
    then show ?thesis
    proof (cases "lcp ns ks = length ks")
      case neq: False
      then have "lcp ns ks < length ns" "lcp ns ks < length ks" using False lcp_le [of ns ks] by auto
      then show ?thesis
        using False neq ns(1)
        by (auto simp: Let_def split_children_kinded [OF ns(2) Extension.prems(2)] simp del: not_None_eq split: option.split)
    qed (use ns in \<open>auto simp: Let_def\<close>)
  qed
qed simp_all

end
