(* ===== verification/Mpt_Proofs.thy ===== *)
theory Mpt_Proofs
  imports Mpt_Kinds
begin

text \<open>
  Tries built from Merkle proofs (the functions at the end of \<open>mpt.rs\<close>): \<open>parse_proof\<close>,
  \<open>mpt_from_proof\<close>, \<open>is_not_included\<close>, \<open>resolve_nodes\<close>, \<open>shorten_node_path\<close> and
  \<open>add_orphaned_leafs\<close>. The theorems state that building a trie never changes the hash it
  started from.
\<close>

section \<open>Definitions\<close>

text \<open>\<open>FromProofError\<close>.\<close>

datatype from_proof_error =
    NodeNotFoundByHash nat
  | NodeHasInvalidSuccessor nat
  | NodeCannotHaveChildren nat
  | MismatchedStorageRoot address b256 b256
  | MismatchedStateRoot b256 b256
  | DecodingError mpt_error

definition parse_proof :: "mpt_ext \<Rightarrow> bytes list \<Rightarrow> (mpt_error, mpt list) res" where
  "parse_proof X proof = res_map (decode X) proof"

subsection \<open>\<open>mpt_from_proof\<close>\<close>

text \<open>
  \<open>children.iter_mut().flatten().find(..)\<close> followed by the assignment to the found child.
\<close>

definition is_digest_of :: "b256 \<Rightarrow> mpt \<Rightarrow> bool" where
  "is_digest_of d child = (case data child of Digest h \<Rightarrow> h = d | _ \<Rightarrow> False)"

fun replace_child :: "b256 \<Rightarrow> mpt \<Rightarrow> mpt option list \<Rightarrow> mpt option list option" where
  "replace_child d replacement [] = None"
| "replace_child d replacement (Some child # rest) =
     (if is_digest_of d child then Some (Some replacement # rest)
      else map_option ((#) (Some child)) (replace_child d replacement rest))"
| "replace_child d replacement (None # rest) =
     map_option ((#) None) (replace_child d replacement rest)"

text \<open>
  One iteration with a successor: the node \<open>i\<close> of the proof takes \<open>replacement\<close> in the
  place of the digest that references it. \<open>replacement.reference()\<close> fills its cache.
\<close>

definition link_node :: "mpt_ext \<Rightarrow> nat \<Rightarrow> mpt \<Rightarrow> mpt \<Rightarrow> (from_proof_error, mpt) res" where
  "link_node X i node replacement =
     (case reference X replacement of
        RefBytes _ \<Rightarrow> Err (NodeNotFoundByHash (i + 1))
      | RefDigest child_ref \<Rightarrow>
         (case data node of
            Branch children \<Rightarrow>
              (case replace_child child_ref (ref_fill X replacement) children of
                 Some children' \<Rightarrow> Ok (node_of (Branch children'))
               | None \<Rightarrow> Err (NodeHasInvalidSuccessor i))
          | Extension pre child \<Rightarrow>
              (if \<not> is_digest_of child_ref child then Err (NodeHasInvalidSuccessor i)
               else Ok (node_of (Extension pre (ref_fill X replacement))))
          | _ \<Rightarrow> Err (NodeCannotHaveChildren i)))"

text \<open>The loop over \<open>proof_nodes.iter().enumerate().rev()\<close>.\<close>

definition from_proof_step ::
  "mpt_ext \<Rightarrow> nat \<times> mpt \<Rightarrow> mpt option \<Rightarrow> (from_proof_error, mpt option) res" where
  "from_proof_step X = (\<lambda>(i, node) nxt.
     case nxt of
       None \<Rightarrow> Ok (Some node)
     | Some replacement \<Rightarrow> map_res Some (link_node X i node replacement))"

definition mpt_from_proof :: "mpt_ext \<Rightarrow> mpt list \<Rightarrow> (from_proof_error, mpt) res" where
  "mpt_from_proof X proof_nodes =
     map_res (\<lambda>nxt. case nxt of Some t \<Rightarrow> t | None \<Rightarrow> mpt_default)
       (res_fold (from_proof_step X) (rev (enumerate 0 proof_nodes)) None)"

definition from_account_proof :: "mpt_ext \<Rightarrow> bytes list \<Rightarrow> (from_proof_error, mpt) res" where
  "from_account_proof X account_proof =
     res_bind (map_err DecodingError (parse_proof X account_proof)) (mpt_from_proof X)"

definition is_not_included :: "mpt_ext \<Rightarrow> bytes \<Rightarrow> mpt list \<Rightarrow> (from_proof_error, bool) res" where
  "is_not_included X key proof_nodes =
     res_bind (unwrap_res (mpt_from_proof X proof_nodes)) (\<lambda>proof_trie.
       res_bind (unwrap_res (get proof_trie key)) (\<lambda>value. Ok (value = None)))"

subsection \<open>\<open>resolve_nodes\<close>\<close>

text \<open>
  A store that references itself in a cycle would overflow the stack: \<open>None\<close>. The fuel
  \<open>resolve_nodes\<close> supplies is enough for every other store.
\<close>

fun seq_children :: "mpt option option list \<Rightarrow> mpt option list option" where
  "seq_children [] = Some []"
| "seq_children (x # xs) =
     (case x of None \<Rightarrow> None | Some child \<Rightarrow> map_option ((#) child) (seq_children xs))"

fun resolve_fuel :: "nat \<Rightarrow> (mpt_ref, mpt) hashmap \<Rightarrow> mpt \<Rightarrow> mpt option" where
  "resolve_fuel 0 node_store root = None"
| "resolve_fuel (Suc fuel) node_store root =
     (case data root of
        Null \<Rightarrow> Some root
      | Leaf _ _ \<Rightarrow> Some root
      | Branch children \<Rightarrow>
          map_option (\<lambda>cs. node_of (Branch cs))
            (seq_children (map (\<lambda>child. case child of
                None \<Rightarrow> Some None
              | Some node \<Rightarrow> map_option Some (resolve_fuel fuel node_store node)) children))
      | Extension pre target \<Rightarrow>
          map_option (\<lambda>t. node_of (Extension pre t)) (resolve_fuel fuel node_store target)
      | Digest digest \<Rightarrow>
          (case hm_get node_store (RefDigest digest) of
             Some node \<Rightarrow> resolve_fuel fuel node_store node
           | None \<Rightarrow> Some root))"

fun mpt_height :: "mpt \<Rightarrow> nat" where
  "mpt_height (MptNode (Branch cs) c) =
     Suc (foldr max (map (\<lambda>child. case child of None \<Rightarrow> 0 | Some n \<Rightarrow> mpt_height n) cs) 0)"
| "mpt_height (MptNode (Extension p n) c) = Suc (mpt_height n)"
| "mpt_height (MptNode d c) = 1"

definition store_height :: "(mpt_ref, mpt) hashmap \<Rightarrow> nat" where
  "store_height node_store = sum_list (map (\<lambda>(_, node). mpt_height node) node_store)"

definition resolve_nodes :: "mpt \<Rightarrow> (mpt_ref, mpt) hashmap \<Rightarrow> mpt option" where
  "resolve_nodes root node_store =
     resolve_fuel (Suc (mpt_height root + store_height node_store)) node_store root"

subsection \<open>Orphaned leaves\<close>

text \<open>\<open>for i in 0..=nibs.len()\<close>; \<open>None\<close> is the panic of \<open>nibs()\<close>.\<close>

definition shorten_node_path :: "mpt \<Rightarrow> mpt list option" where
  "shorten_node_path node =
     map_option (\<lambda>ns.
       (case data node of
          Leaf _ value \<Rightarrow>
            map (\<lambda>i. node_of (Leaf (to_encoded_path (drop i ns) True) value)) [0..<length ns + 1]
        | Extension _ child \<Rightarrow>
            map (\<lambda>i. node_of (Extension (to_encoded_path (drop i ns) False) child)) [0..<length ns + 1]
        | _ \<Rightarrow> [])) (nibs node)"

text \<open>\<open>nodes.insert(node.reference(), node)\<close>: the inserted node has its cache filled.\<close>

definition store_node :: "mpt_ext \<Rightarrow> mpt \<Rightarrow> (mpt_ref, mpt) hashmap \<Rightarrow> (mpt_ref, mpt) hashmap" where
  "store_node X node m = hm_insert (reference X node) (ref_fill X node) m"

definition store_nodes :: "mpt_ext \<Rightarrow> mpt list \<Rightarrow> (mpt_ref, mpt) hashmap \<Rightarrow> (mpt_ref, mpt) hashmap" where
  "store_nodes X nodes m = fold (store_node X) nodes m"

definition add_orphaned_leafs ::
  "mpt_ext \<Rightarrow> bytes \<Rightarrow> bytes list \<Rightarrow> (mpt_ref, mpt) hashmap \<Rightarrow>
   (from_proof_error, (mpt_ref, mpt) hashmap) res" where
  "add_orphaned_leafs X key proof nodes_by_reference =
     (if proof = [] then Ok nodes_by_reference
      else res_bind (map_err DecodingError (parse_proof X proof)) (\<lambda>proof_nodes.
        res_bind (is_not_included X (b256_slice (keccak X key)) proof_nodes) (\<lambda>excluded.
          if \<not> excluded then Ok nodes_by_reference
          else if proof_nodes = [] then Panic
          else map_res (\<lambda>ns. store_nodes X ns nodes_by_reference)
                 (unwrap_opt (shorten_node_path (last proof_nodes))))))"

text \<open>\<open>node_from_digest\<close>.\<close>

definition node_from_digest :: "b256 \<Rightarrow> mpt" where
  "node_from_digest digest =
     (if digest = EMPTY_ROOT \<or> digest = 0 then mpt_default else node_of (Digest digest))"

section \<open>\<open>mpt_from_proof\<close> keeps the root\<close>

lemma replace_child_Some:
  "replace_child d r cs = Some ds \<Longrightarrow>
    \<exists>k n. k < length cs \<and> cs ! k = Some n \<and> data n = Digest d \<and> ds = cs[k := Some r]"
proof (induction d r cs arbitrary: ds rule: replace_child.induct)
  case (2 d r child rest)
  show ?case
  proof (cases "is_digest_of d child")
    case True
    then show ?thesis using 2 by (intro exI [of _ 0]) (auto simp: is_digest_of_def split: node_data.splits)
  next
    case False
    then obtain es where "replace_child d r rest = Some es" "ds = Some child # es" using 2 by auto
    then obtain k n where "k < length rest" "rest ! k = Some n" "data n = Digest d" "es = rest[k := Some r]"
      using 2 False by blast
    then show ?thesis using \<open>ds = _\<close> by (intro exI [of _ "Suc k"]) auto
  qed
next
  case (3 d r rest)
  then obtain es where "replace_child d r rest = Some es" "ds = None # es" by auto
  moreover from this obtain k n where "k < length rest" "rest ! k = Some n" "data n = Digest d"
    "es = rest[k := Some r]" using 3 by blast
  ultimately show ?case by (intro exI [of _ "Suc k"]) auto
qed simp

lemma map_update_same: "k < length xs \<Longrightarrow> f y = f (xs ! k) \<Longrightarrow> map f (xs[k := y]) = map f xs"
  by (metis list_update_id map_update)

lemma link_node_correct:
  assumes "link_node X i node r = Ok t" and "coherent X node" and "coherent X r"
  shows "coherent X t \<and> fresh_ref X t = fresh_ref X node"
proof -
  obtain d where d: "reference X r = RefDigest d"
    using assms(1) by (auto simp: link_node_def split: mpt_ref.splits)
  let ?r = "ref_fill X r"
  have r: "coherent X ?r" "fresh_ref X ?r = RefDigest d"
    using ref_fill_effect [OF assms(3)] reference_coherent [OF assms(3)] d by simp_all
  show ?thesis
  proof (cases "data node")
    case (Branch cs)
    then obtain ds where ds: "replace_child d ?r cs = Some ds" "t = node_of (Branch ds)"
      using assms(1) d by (auto simp: link_node_def split: option.splits)
    from replace_child_Some [OF ds(1)] obtain k n where
      k: "k < length cs" "cs ! k = Some n" "data n = Digest d" "ds = cs[k := Some ?r]" by blast
    obtain c where node: "node = MptNode (Branch cs) c" using Branch by (cases node) auto
    have "map (map_option (fresh_ref X)) ds = map (map_option (fresh_ref X)) cs"
      unfolding k(4) using k(1-3) r(2) by (intro map_update_same) (simp_all add: fresh_ref_digest)
    then have "fresh_ref X t = fresh_ref X node"
      by (intro fresh_ref_of_refs) (simp add: node ds(2))
    moreover have "coherent X (MptNode (Branch (cs[k := Some ?r])) None)"
      using coherent_branch_update [OF assms(2) [unfolded node], of "Some ?r"] r(1) by simp
    ultimately show ?thesis by (simp add: ds(2) k(4) node_of_def)
  next
    case (Extension p n)
    then have n: "data n = Digest d" "t = node_of (Extension p ?r)"
      using assms(1) d by (auto simp: link_node_def is_digest_of_def split: if_splits node_data.splits)
    have "fresh_ref X t = fresh_ref X node"
      using r(2) fresh_ref_digest [OF n(1)] Extension by (intro fresh_ref_of_refs) (simp add: n(2))
    then show ?thesis using r(1) by (simp add: n(2) node_of_def)
  qed (use assms(1) d in \<open>simp_all add: link_node_def\<close>)
qed

lemma link_node_not_empty: "link_node X i node r = Ok t \<Longrightarrow> \<not> is_empty node \<and> \<not> is_empty t"
  by (auto simp: link_node_def is_empty_def split: mpt_ref.splits node_data.splits option.splits if_splits)

definition links_to :: "mpt_ext \<Rightarrow> mpt list \<Rightarrow> mpt option \<Rightarrow> bool" where
  "links_to X nodes nxt = (case nxt of
      None \<Rightarrow> nodes = []
    | Some t \<Rightarrow> nodes \<noteq> [] \<and> coherent X t \<and> fresh_ref X t = fresh_ref X (hd nodes) \<and>
        (is_empty t \<longleftrightarrow> is_empty (hd nodes)))"

lemma from_proof_fold:
  assumes "\<forall>n \<in> set nodes. coherent X n"
    and "res_fold (from_proof_step X) (rev (enumerate i nodes)) None = Ok nxt"
  shows "links_to X nodes nxt"
  using assms
proof (induction nodes arbitrary: i nxt)
  case (Cons node nodes)
  then obtain nxt' where nxt': "res_fold (from_proof_step X) (rev (enumerate (Suc i) nodes)) None = Ok nxt'"
    "from_proof_step X (i, node) nxt' = Ok nxt"
    by (auto simp: res_fold_append res_ok_simps)
  have IH: "links_to X nodes nxt'" using Cons.IH [OF _ nxt'(1)] Cons.prems(1) by simp
  show ?case
  proof (cases nxt')
    case None
    then show ?thesis using nxt'(2) Cons.prems(1) by (auto simp: from_proof_step_def links_to_def)
  next
    case (Some r)
    then obtain t where t: "link_node X i node r = Ok t" "nxt = Some t"
      using nxt'(2) by (auto simp: from_proof_step_def map_res_eq_Ok)
    then show ?thesis
      using link_node_correct [OF t(1)] link_node_not_empty [OF t(1)] IH Some Cons.prems(1)
      by (simp add: links_to_def)
  qed
qed (simp add: links_to_def)

lemma hash_of_fresh_ref:
  assumes "fresh_ref X a = fresh_ref X b" and "coherent X a" and "coherent X b"
    and "is_empty a \<longleftrightarrow> is_empty b"
  shows "hash X a = hash X b"
  using assms hash_coherent [of X a] hash_coherent [of X b] by (simp add: hash_alt)

lemma from_proof_root:
  assumes "mpt_from_proof X nodes = Ok t" and "\<forall>n \<in> set nodes. coherent X n" and "nodes \<noteq> []"
  shows "coherent X t \<and> hash X t = hash X (hd nodes)"
proof -
  obtain nxt where nxt: "res_fold (from_proof_step X) (rev (enumerate 0 nodes)) None = Ok nxt"
    "t = (case nxt of Some t \<Rightarrow> t | None \<Rightarrow> mpt_default)"
    using assms(1) by (auto simp: mpt_from_proof_def map_res_eq_Ok)
  then have "links_to X nodes nxt" using from_proof_fold assms(2) by blast
  then show ?thesis
    using nxt(2) assms(2,3) hash_of_fresh_ref [of X t "hd nodes"]
    by (cases nxt) (auto simp: links_to_def)
qed

lemma parse_proof_coherent:
  "parse_proof X proof = Ok nodes \<Longrightarrow> \<forall>n \<in> set nodes. coherent X n"
  by (auto simp: parse_proof_def res_map_Ok_iff in_set_conv_nth) (metis decode_coherent)

text \<open>A node with right caches and nodes of the right kind, as a decoded node is.\<close>

definition sound_node :: "mpt_ext \<Rightarrow> mpt \<Rightarrow> bool" where
  "sound_node X t \<longleftrightarrow> coherent X t \<and> well_kinded t"

lemma sound_node_coherent: "sound_node X t \<Longrightarrow> coherent X t"
  by (simp add: sound_node_def)

lemma sound_node_digest [simp]: "sound_node X (node_of (Digest h))"
  and sound_node_default [simp]: "sound_node X mpt_default"
  by (simp_all add: sound_node_def mpt_default_def node_of_def)

lemma sound_node_erase: "erase t = erase u \<Longrightarrow> coherent X t \<Longrightarrow> sound_node X u \<Longrightarrow> sound_node X t"
  using well_kinded_erase by (metis sound_node_def)

lemma sound_ref_fill: "sound_node X t \<Longrightarrow> sound_node X (ref_fill X t)"
  using ref_fill_effect sound_node_erase sound_node_coherent by blast

lemma decode_sound: "decode X b = Ok t \<Longrightarrow> sound_node X t"
  using decode_coherent decode_kinded by (auto simp: sound_node_def)

lemma parse_proof_sound:
  "parse_proof X proof = Ok nodes \<Longrightarrow> \<forall>n \<in> set nodes. sound_node X n"
  by (auto simp: parse_proof_def res_map_Ok_iff in_set_conv_nth) (metis decode_sound)

lemma length_parse_proof: "parse_proof X proof = Ok nodes \<Longrightarrow> length nodes = length proof"
  by (simp add: parse_proof_def res_map_Ok_iff)

section \<open>\<open>resolve_nodes\<close> keeps the hash\<close>

text \<open>A store whose every entry is filed under the reference of the node.\<close>

definition store_sound :: "mpt_ext \<Rightarrow> (mpt_ref, mpt) hashmap \<Rightarrow> bool" where
  "store_sound X m \<longleftrightarrow> (\<forall>(r, node) \<in> set m. sound_node X node \<and> fresh_ref X node = r)"

lemma store_soundD: "store_sound X m \<Longrightarrow> hm_get m r = Some node \<Longrightarrow> sound_node X node \<and> fresh_ref X node = r"
  by (auto simp: store_sound_def dest!: map_of_SomeD)

lemma store_sound_Nil [simp]: "store_sound X []"
  by (simp add: store_sound_def)

lemma set_hm_insert: "set (hm_insert k v m) \<subseteq> Set.insert (k, v) (set m)"
  by (induction m) auto

lemma store_sound_node:
  assumes "store_sound X m" and "sound_node X node"
  shows "store_sound X (store_node X node m)"
proof -
  have "sound_node X (ref_fill X node)" "fresh_ref X (ref_fill X node) = reference X node"
    using ref_fill_effect [OF sound_node_coherent [OF assms(2)]] reference_coherent [OF sound_node_coherent [OF assms(2)]]
      sound_ref_fill [OF assms(2)] by simp_all
  then show ?thesis
    using assms(1) set_hm_insert [of "reference X node" "ref_fill X node" m]
    unfolding store_sound_def store_node_def by blast
qed

lemma store_sound_nodes:
  "store_sound X m \<Longrightarrow> \<forall>n \<in> set nodes. sound_node X n \<Longrightarrow> store_sound X (store_nodes X nodes m)"
  unfolding store_nodes_def by (induction nodes arbitrary: m) (auto intro: store_sound_node)

lemma seq_children_Some:
  "seq_children (map f cs) = Some ds \<longleftrightarrow> length ds = length cs \<and> (\<forall>i < length cs. f (cs ! i) = Some (ds ! i))"
proof (induction cs arbitrary: ds)
  case (Cons x cs)
  show ?case
    by (cases ds) (auto simp: Cons.IH less_Suc_eq_0_disj split: option.splits)
qed auto

lemma resolve_branch_children:
  assumes "seq_children (map (\<lambda>child. case child of None \<Rightarrow> Some None
      | Some node \<Rightarrow> map_option Some (f node)) cs) = Some ds"
  shows "length ds = length cs" "i < length cs \<Longrightarrow>
    (cs ! i = None \<and> ds ! i = None) \<or> (\<exists>n m. cs ! i = Some n \<and> ds ! i = Some m \<and> f n = Some m)"
proof -
  have all: "length ds = length cs" "\<And>i. i < length cs \<Longrightarrow> (case cs ! i of None \<Rightarrow> Some None
      | Some node \<Rightarrow> map_option Some (f node)) = Some (ds ! i)"
    using assms by (simp_all add: seq_children_Some)
  show "length ds = length cs" by fact
  assume i: "i < length cs"
  show "(cs ! i = None \<and> ds ! i = None) \<or> (\<exists>n m. cs ! i = Some n \<and> ds ! i = Some m \<and> f n = Some m)"
    using all(2) [OF i] by (cases "cs ! i"; cases "f (the (cs ! i))"; cases "ds ! i") auto
qed

lemma resolve_fuel_correct:
  assumes "store_sound X m"
  shows "resolve_fuel k m t = Some t' \<Longrightarrow> sound_node X t \<Longrightarrow>
    sound_node X t' \<and> fresh_ref X t' = fresh_ref X t \<and> is_empty t' = is_empty t"
proof (induction k arbitrary: t t')
  case (Suc k)
  obtain d c where t: "t = MptNode d c" by (cases t)
  show ?case
  proof (cases d)
    case (Branch cs)
    obtain ds where ds: "t' = node_of (Branch ds)"
      "seq_children (map (\<lambda>child. case child of None \<Rightarrow> Some None
        | Some node \<Rightarrow> map_option Some (resolve_fuel k m node)) cs) = Some ds"
      using Suc.prems(1) by (auto simp: t Branch)
    note ch = resolve_branch_children [OF ds(2)]
    have child: "sound_node X n' \<and> fresh_ref X n' = fresh_ref X n \<and> \<not> is_empty n'"
      if "i < length cs" "cs ! i = Some n" "ds ! i = Some n'" for i n n'
    proof -
      have "Some n \<in> set cs" using that by (metis nth_mem)
      then have "sound_node X n" "\<not> is_empty n"
        using Suc.prems(2) that by (auto simp: t Branch sound_node_def list_all_iff)
      then show ?thesis using ch(2) [OF that(1)] that Suc.IH [of n n'] by auto
    qed
    have "map (map_option (fresh_ref X)) ds = map (map_option (fresh_ref X)) cs"
      by (rule nth_equalityI) (use ch child in \<open>fastforce simp del: erase.simps\<close>)+
    then have "fresh_ref X t' = fresh_ref X t"
      by (intro fresh_ref_of_refs) (simp add: ds(1) t Branch)
    moreover have "sound_node X n'" "\<not> is_empty n'" if "Some n' \<in> set ds" for n'
      using that ch child by (metis in_set_conv_nth option.distinct(1) option.inject)+
    moreover have "length ds = 16" using ch(1) Suc.prems(2) by (simp add: t Branch sound_node_def)
    ultimately show ?thesis
      by (auto simp: ds(1) t Branch node_of_def sound_node_def list_all_iff split: option.split)
  next
    case (Extension p n)
    obtain n' where n': "t' = node_of (Extension p n')" "resolve_fuel k m n = Some n'"
      using Suc.prems(1) by (auto simp: t Extension)
    then have "sound_node X n' \<and> fresh_ref X n' = fresh_ref X n"
      using Suc.IH [OF n'(2)] Suc.prems(2) by (simp add: t Extension sound_node_def)
    moreover from this have "fresh_ref X t' = fresh_ref X t"
      by (intro fresh_ref_of_refs) (simp add: n'(1) t Extension)
    ultimately show ?thesis using Suc.prems(2) by (simp add: n'(1) t Extension node_of_def sound_node_def)
  next
    case (Digest h)
    show ?thesis
    proof (cases "hm_get m (RefDigest h)")
      case (Some node)
      note node = store_soundD [OF assms Some]
      have "resolve_fuel k m node = Some t'" using Suc.prems(1) by (simp add: t Digest Some)
      then have IH: "sound_node X t'" "fresh_ref X t' = fresh_ref X node" "is_empty t' = is_empty node"
        using Suc.IH node by blast+
      have "fresh_ref X t = RefDigest h" by (rule fresh_ref_digest) (simp add: t Digest)
      moreover have "\<not> is_empty node"
        using node fresh_ref_null [of node X] by (auto simp: is_empty_def split: node_data.splits)
      ultimately show ?thesis using IH node by (simp add: t Digest)
    qed (use Suc.prems in \<open>simp add: t Digest\<close>)
  qed (use Suc.prems in \<open>simp_all add: t\<close>)
qed simp

lemma resolve_hash:
  assumes "store_sound X m" and "resolve_nodes t m = Some t'" and "sound_node X t"
  shows "sound_node X t' \<and> hash X t' = hash X t"
  using resolve_fuel_correct [OF assms(1) assms(2) [unfolded resolve_nodes_def] assms(3)]
    hash_of_fresh_ref [of X t' t] assms(3) sound_node_coherent by blast

section \<open>The fuel of \<open>resolve_nodes\<close> suffices\<close>

fun digests :: "mpt \<Rightarrow> b256 set" where
  "digests (MptNode (Digest h) c) = {h}"
| "digests (MptNode (Branch cs) c) =
     (\<Union>child \<in> set cs. case child of None \<Rightarrow> {} | Some n \<Rightarrow> digests n)"
| "digests (MptNode (Extension p n) c) = digests n"
| "digests (MptNode d c) = {}"

text \<open>
  No entry of the store refers to itself, directly or through others: the digests below an
  entry come before the entry in some ranking.
\<close>

definition acyclic_store :: "(b256 \<Rightarrow> nat) \<Rightarrow> (mpt_ref, mpt) hashmap \<Rightarrow> bool" where
  "acyclic_store rank m \<longleftrightarrow>
     (\<forall>(r, node) \<in> set m. \<forall>d. r = RefDigest d \<longrightarrow> (\<forall>h \<in> digests node. rank h < rank d))"

definition height_below :: "(b256 \<Rightarrow> nat) \<Rightarrow> (mpt_ref, mpt) hashmap \<Rightarrow> nat \<Rightarrow> nat" where
  "height_below rank m R = sum_list (map (\<lambda>(r, node).
     case r of RefDigest d \<Rightarrow> if rank d < R then mpt_height node else 0 | RefBytes _ \<Rightarrow> 0) m)"

lemma height_below_le: "height_below rank m R \<le> store_height m"
  unfolding height_below_def store_height_def
  by (intro sum_list_mono) (auto split: mpt_ref.splits)

lemma height_below_mono: "R \<le> R' \<Longrightarrow> height_below rank m R \<le> height_below rank m R'"
  unfolding height_below_def
  by (intro sum_list_mono) (auto split: mpt_ref.splits)

lemma height_below_entry:
  assumes "(RefDigest d, node) \<in> set m" and "rank d < R"
  shows "mpt_height node + height_below rank m (rank d) \<le> height_below rank m R"
  using assms
proof (induction m)
  case (Cons x m)
  have tail: "height_below rank m (rank d) \<le> height_below rank m R"
    using Cons.prems(2) height_below_mono by simp
  show ?case
  proof (cases "x = (RefDigest d, node)")
    case True
    then show ?thesis using tail Cons.prems(2) by (simp add: height_below_def)
  next
    case False
    then have "mpt_height node + height_below rank m (rank d) \<le> height_below rank m R"
      using Cons by auto
    then show ?thesis using Cons.prems(2)
      by (auto simp: height_below_def split: prod.splits mpt_ref.splits)
  qed
qed simp

lemma foldr_max: "x \<in> set xs \<Longrightarrow> (x :: nat) \<le> foldr max xs 0"
  by (induction xs) auto

lemma height_child: "Some n \<in> set cs \<Longrightarrow> mpt_height n < mpt_height (MptNode (Branch cs) c)"
proof -
  assume n: "Some n \<in> set cs"
  have "mpt_height n \<in> set (map (\<lambda>child. case child of None \<Rightarrow> 0 | Some n \<Rightarrow> mpt_height n) cs)"
    using image_eqI [of "mpt_height n" "\<lambda>child. case child of None \<Rightarrow> 0 | Some n \<Rightarrow> mpt_height n", OF _ n]
    by simp
  then show ?thesis using foldr_max by (simp add: less_Suc_eq_le)
qed

lemma seq_children_None: "seq_children xs = None \<longleftrightarrow> None \<in> set xs"
  by (induction xs) (auto split: option.splits)

lemma resolve_fuel_enough:
  assumes "acyclic_store rank m"
  shows "\<forall>h \<in> digests t. rank h < R \<Longrightarrow> mpt_height t + height_below rank m R < k \<Longrightarrow>
    resolve_fuel k m t \<noteq> None"
proof (induction k arbitrary: t R)
  case (Suc k)
  obtain d c where t: "t = MptNode d c" by (cases t)
  show ?case
  proof (cases d)
    case (Branch cs)
    have "resolve_fuel k m n \<noteq> None" if n: "Some n \<in> set cs" for n
      using Suc.IH [of n R] Suc.prems height_child [OF n, of c] n by (force simp: t Branch)
    then have "seq_children (map (\<lambda>child. case child of None \<Rightarrow> Some None
        | Some node \<Rightarrow> map_option Some (resolve_fuel k m node)) cs) \<noteq> None"
      unfolding seq_children_None by (force split: option.splits)
    then show ?thesis by (auto simp: t Branch)
  next
    case (Extension p n)
    then show ?thesis using Suc.IH [of n R] Suc.prems by (simp add: t)
  next
    case (Digest h)
    show ?thesis
    proof (cases "hm_get m (RefDigest h)")
      case (Some node)
      then have mem: "(RefDigest h, node) \<in> set m" by (rule map_of_SomeD)
      have "mpt_height node + height_below rank m (rank h) \<le> height_below rank m R"
        using height_below_entry [OF mem, of rank R] Suc.prems(1) by (simp add: t Digest)
      moreover have "\<forall>g \<in> digests node. rank g < rank h"
        using assms mem by (auto simp: acyclic_store_def)
      ultimately have "resolve_fuel k m node \<noteq> None"
        using Suc.IH [of node "rank h"] Suc.prems(2) by (simp add: t Digest)
      then show ?thesis by (simp add: t Digest Some)
    qed (simp add: t Digest)
  qed (simp_all add: t)
qed simp

lemma finite_digests: "finite (digests t)"
proof (induction t rule: mpt_induct)
  case (Branch cs c)
  have "finite (case child of None \<Rightarrow> {} | Some n \<Rightarrow> digests n)" if "child \<in> set cs" for child
    using that Branch by (auto simp: in_set_conv_nth split: option.split)
  then show ?case by simp
qed auto

lemma resolve_nodes_returns:
  assumes "acyclic_store rank m"
  shows "resolve_nodes t m \<noteq> None"
proof -
  obtain R where "\<forall>h \<in> digests t. rank h < R"
    using finite_nat_set_iff_bounded [of "rank ` digests t"] finite_digests by auto
  then show ?thesis
    using resolve_fuel_enough [OF assms, of t R] height_below_le [of rank m R]
    unfolding resolve_nodes_def by (simp only: less_Suc_eq_le) simp
qed

text \<open>Nothing the store knows stays a digest.\<close>

lemma resolve_fuel_complete:
  "resolve_fuel k m t = Some t' \<Longrightarrow> h \<in> digests t' \<Longrightarrow> hm_get m (RefDigest h) = None"
proof (induction k arbitrary: t t')
  case (Suc k)
  obtain d c where t: "t = MptNode d c" by (cases t)
  show ?case
  proof (cases d)
    case (Branch cs)
    obtain ds where ds: "t' = node_of (Branch ds)"
      "seq_children (map (\<lambda>child. case child of None \<Rightarrow> Some None
        | Some node \<Rightarrow> map_option Some (resolve_fuel k m node)) cs) = Some ds"
      using Suc.prems(1) by (auto simp: t Branch)
    obtain n' where n': "Some n' \<in> set ds" "h \<in> digests n'"
      using Suc.prems(2) by (auto simp: ds(1) node_of_def split: option.splits)
    then obtain i where i: "i < length cs" "ds ! i = Some n'"
      using resolve_branch_children(1) [OF ds(2)] by (metis in_set_conv_nth)
    then obtain n where "resolve_fuel k m n = Some n'"
      using resolve_branch_children(2) [OF ds(2) i(1)] by auto
    then show ?thesis using Suc.IH n'(2) by blast
  next
    case (Extension p n)
    then show ?thesis using Suc.prems Suc.IH [of n] by (auto simp: t node_of_def)
  next
    case (Digest g)
    show ?thesis
      using Suc.prems Suc.IH by (cases "hm_get m (RefDigest g)") (auto simp: t Digest)
  qed (use Suc.prems in \<open>auto simp: t\<close>)
qed simp

section \<open>Exclusion proofs and orphaned leaves\<close>

lemma is_not_included_correct:
  assumes "is_not_included X key nodes = Ok b" and "\<forall>n \<in> set nodes. coherent X n" and "nodes \<noteq> []"
  obtains t v where "mpt_from_proof X nodes = Ok t" "coherent X t" "hash X t = hash X (hd nodes)"
    "get t key = Ok v" "b \<longleftrightarrow> v = None"
proof -
  obtain t v where t: "mpt_from_proof X nodes = Ok t" "get t key = Ok v" "b \<longleftrightarrow> v = None"
    using assms(1) by (auto simp: is_not_included_def res_ok_simps)
  with from_proof_root [OF t(1) assms(2,3)] that show thesis by blast
qed

lemma shorten_node_path_sound:
  assumes "shorten_node_path node = Some ns" and "sound_node X node"
  shows "\<forall>n \<in> set ns. sound_node X n"
proof (cases "data node")
  case (Leaf p v)
  then show ?thesis
    using assms(1) prefix_nibs_nibbles
    by (auto simp: shorten_node_path_def nibs_def node_of_def sound_node_def valid_path_kind)
next
  case (Extension p child)
  then have "sound_node X child" using assms(2) by (cases node) (simp add: sound_node_def)
  then show ?thesis
    using assms(1) Extension prefix_nibs_nibbles
    by (auto simp: shorten_node_path_def nibs_def node_of_def sound_node_def valid_path_kind)
qed (use assms(1) in \<open>auto simp: shorten_node_path_def\<close>)

lemma store_sound_orphans:
  assumes "add_orphaned_leafs X key proof m = Ok m'" and "store_sound X m"
  shows "store_sound X m'"
proof (cases "proof = []")
  case False
  then obtain nodes b where n: "parse_proof X proof = Ok nodes"
    "m' = m \<or> (nodes \<noteq> [] \<and> (\<exists>ns. shorten_node_path (last nodes) = Some ns \<and> m' = store_nodes X ns m))"
    using assms(1) by (auto simp: add_orphaned_leafs_def res_ok_simps split: if_splits)
  show ?thesis
    using n(2)
  proof
    assume "nodes \<noteq> [] \<and> (\<exists>ns. shorten_node_path (last nodes) = Some ns \<and> m' = store_nodes X ns m)"
    then obtain ns where ns: "nodes \<noteq> []" "shorten_node_path (last nodes) = Some ns" "m' = store_nodes X ns m"
      by blast
    have "sound_node X (last nodes)" using parse_proof_sound [OF n(1)] ns(1) by simp
    then show ?thesis
      using store_sound_nodes [OF assms(2)] shorten_node_path_sound [OF ns(2)] ns(3) by blast
  qed (use assms(2) in simp)
qed (use assms in \<open>simp add: add_orphaned_leafs_def\<close>)

text \<open>
  The shortened versions of a leaf or extension, in order: the paths are the suffixes of the
  node's path and the rest of the node is kept; the first is the node itself.
\<close>

lemma shorten_node_path_correct:
  assumes "canon node" and "shorten_node_path node = Some ns"
  shows "case data node of
      Leaf p v \<Rightarrow> length ns = Suc (length (the (nibs node))) \<and>
        (\<forall>i < length ns. data (ns ! i) = Leaf (to_encoded_path (drop i (the (nibs node))) True) v) \<and>
        data (ns ! 0) = Leaf p v
    | Extension p n \<Rightarrow> length ns = Suc (length (the (nibs node))) \<and>
        (\<forall>i < length ns. data (ns ! i) = Extension (to_encoded_path (drop i (the (nibs node))) False) n) \<and>
        data (ns ! 0) = Extension p n
    | _ \<Rightarrow> ns = []"
proof (cases node rule: canon.cases)
  case (3 p v c)
  then show ?thesis using assms
    by (auto simp: shorten_node_path_def nibs_def nth_append elim!: valid_pathE)
next
  case (4 p n c)
  then show ?thesis using assms
    by (auto simp: shorten_node_path_def nibs_def nth_append elim!: valid_pathE)
qed (use assms in \<open>auto simp: shorten_node_path_def nibs_def\<close>)

end
