(* ===== verification/Eth_State.thy ===== *)
theory Eth_State
  imports Mpt_Proofs
begin

text \<open>
  \<open>EthereumState\<close> (\<open>crates/mpt/src/lib.rs\<close>) and its construction from EIP-1186 proofs:
  \<open>proofs_to_tries\<close>, \<open>transition_proofs_to_tries\<close> (\<open>mpt.rs\<close>) and \<open>from_account_proof\<close>. The
  theorems state that whatever the proofs say, a returned state has the expected state root,
  and every storage trie the storage root its account's proof declares.
\<close>

section \<open>Data\<close>

text \<open>\<open>EthereumState\<close>.\<close>

record ethereum_state =
  state_trie :: mpt
  storage_tries :: "(b256, mpt) hashmap"

text \<open>
  The fields the code reads of \<open>reth_trie::AccountProof\<close>, its storage proofs, and
  \<open>EIP1186AccountProofResponse\<close>.
\<close>

record storage_proof =
  sp_key :: b256
  sp_proof :: "bytes list"

record account_proof =
  ap_proof :: "bytes list"
  ap_storage_root :: b256
  ap_storage_proofs :: "storage_proof list"

record eip1186_proof =
  ep_address :: address
  ep_account_proof :: "bytes list"
  ep_storage_proof :: "storage_proof list"

definition address_slice :: "address \<Rightarrow> bytes" where
  "address_slice a = map (\<lambda>i. ucast (drop_bit (8 * i) a)) (rev [0..<20])"

definition hashed_address :: "mpt_ext \<Rightarrow> address \<Rightarrow> b256" where
  "hashed_address X address = keccak X (address_slice address)"

section \<open>Operations\<close>

text \<open>\<open>hash()\<close> leaves the node with its caches filled, except on an empty trie.\<close>

definition hash_fill :: "mpt_ext \<Rightarrow> mpt \<Rightarrow> mpt" where
  "hash_fill X t = (if is_empty t then t else ref_fill X t)"

text \<open>
  The common body of the loops over proofs: parse the proof, check that its nodes link up,
  take its first node as the root and file its nodes by reference. A failure is unwrapped.
\<close>

definition store_proof ::
  "mpt_ext \<Rightarrow> bytes list \<Rightarrow> mpt \<times> (mpt_ref, mpt) hashmap \<Rightarrow>
   (from_proof_error, mpt \<times> (mpt_ref, mpt) hashmap) res" where
  "store_proof X proof = (\<lambda>(root_node, nodes).
     res_bind (unwrap_res (parse_proof X proof)) (\<lambda>proof_nodes.
       res_bind (unwrap_res (mpt_from_proof X proof_nodes)) (\<lambda>_.
         Ok (if proof_nodes = [] then root_node else hd proof_nodes,
             store_nodes X proof_nodes nodes))))"

text \<open>\<open>resolve_nodes\<close>, whose endless recursion on a cyclic store is a crash.\<close>

definition resolve :: "mpt \<Rightarrow> (mpt_ref, mpt) hashmap \<Rightarrow> ('e, mpt) res" where
  "resolve root nodes = unwrap_opt (resolve_nodes root nodes)"

text \<open>The storage trie is built and compared with the root the account's proof declares.\<close>

definition checked_storage_trie ::
  "mpt_ext \<Rightarrow> address \<Rightarrow> b256 \<Rightarrow> mpt \<times> (mpt_ref, mpt) hashmap \<Rightarrow> (from_proof_error, mpt) res" where
  "checked_storage_trie X address storage_root = (\<lambda>(storage_root_node, storage_nodes).
     res_bind (resolve storage_root_node storage_nodes) (\<lambda>storage_trie.
       let storage_trie_hash = hash X storage_trie
       in if storage_trie_hash \<noteq> storage_root
          then Err (MismatchedStorageRoot address storage_trie_hash storage_root)
          else Ok (hash_fill X storage_trie)))"

definition checked_state_trie ::
  "mpt_ext \<Rightarrow> b256 \<Rightarrow> mpt \<Rightarrow> (mpt_ref, mpt) hashmap \<Rightarrow> (from_proof_error, mpt) res" where
  "checked_state_trie X state_root state_root_node state_nodes =
     res_bind (resolve state_root_node state_nodes) (\<lambda>state_trie.
       let state_trie_hash = hash X state_trie
       in if state_trie_hash \<noteq> state_root
          then Err (MismatchedStateRoot state_trie_hash state_root)
          else Ok (hash_fill X state_trie))"

text \<open>The state of the loops over accounts.\<close>

type_synonym proof_loop = "(b256, mpt) hashmap \<times> mpt \<times> (mpt_ref, mpt) hashmap"

definition proofs_step ::
  "mpt_ext \<Rightarrow> address \<times> account_proof \<Rightarrow> proof_loop \<Rightarrow> (from_proof_error, proof_loop) res" where
  "proofs_step X = (\<lambda>(address, proof) (storage, state_root_node, state_nodes).
     res_bind (store_proof X (ap_proof proof) (state_root_node, state_nodes))
       (\<lambda>(state_root_node, state_nodes).
         if ap_storage_proofs proof = []
         then Ok (hm_insert (hashed_address X address) (node_from_digest (ap_storage_root proof)) storage,
                  state_root_node, state_nodes)
         else res_bind (res_fold (\<lambda>sp. store_proof X (sp_proof sp)) (ap_storage_proofs proof) (mpt_default, []))
           (\<lambda>roots. res_bind (checked_storage_trie X address (ap_storage_root proof) roots)
             (\<lambda>storage_trie. Ok (hm_insert (hashed_address X address) storage_trie storage,
                state_root_node, state_nodes)))))"

definition proofs_to_tries ::
  "mpt_ext \<Rightarrow> b256 \<Rightarrow> (address, account_proof) hashmap \<Rightarrow> (from_proof_error, ethereum_state) res" where
  "proofs_to_tries X state_root proofs =
     (if proofs = []
      then Ok \<lparr>state_trie = node_from_digest state_root, storage_tries = []\<rparr>
      else res_bind (res_fold (proofs_step X) proofs ([], mpt_default, []))
        (\<lambda>(storage, state_root_node, state_nodes).
          map_res (\<lambda>t. \<lparr>state_trie = t, storage_tries = storage\<rparr>)
            (checked_state_trie X state_root state_root_node state_nodes)))"

definition transition_step ::
  "mpt_ext \<Rightarrow> (address, account_proof) hashmap \<Rightarrow> address \<times> account_proof \<Rightarrow> proof_loop \<Rightarrow>
   (from_proof_error, proof_loop) res" where
  "transition_step X proofs = (\<lambda>(address, proof) (storage, state_root_node, state_nodes).
     res_bind (store_proof X (ap_proof proof) (state_root_node, state_nodes))
       (\<lambda>(state_root_node, state_nodes).
         res_bind (unwrap_opt (hm_get proofs address)) (\<lambda>fini_proofs.
         res_bind (add_orphaned_leafs X (address_slice address) (ap_proof fini_proofs) state_nodes)
         (\<lambda>state_nodes.
         if ap_storage_proofs proof = []
         then Ok (hm_insert (hashed_address X address) (node_from_digest (ap_storage_root proof)) storage,
                  state_root_node, state_nodes)
         else res_bind (res_fold (\<lambda>sp. store_proof X (sp_proof sp)) (ap_storage_proofs proof) (mpt_default, []))
           (\<lambda>(storage_root_node, storage_nodes).
             res_bind (res_fold (\<lambda>sp. add_orphaned_leafs X (b256_slice (sp_key sp)) (sp_proof sp))
                 (ap_storage_proofs fini_proofs) storage_nodes)
               (\<lambda>storage_nodes.
                 res_bind (checked_storage_trie X address (ap_storage_root proof) (storage_root_node, storage_nodes))
                   (\<lambda>storage_trie. Ok (hm_insert (hashed_address X address) storage_trie storage,
                      state_root_node, state_nodes))))))))"

definition transition_proofs_to_tries ::
  "mpt_ext \<Rightarrow> b256 \<Rightarrow> (address, account_proof) hashmap \<Rightarrow> (address, account_proof) hashmap \<Rightarrow>
   (from_proof_error, ethereum_state) res" where
  "transition_proofs_to_tries X state_root parent_proofs proofs =
     (if parent_proofs = []
      then Ok \<lparr>state_trie = node_from_digest state_root, storage_tries = []\<rparr>
      else res_bind (res_fold (transition_step X proofs) parent_proofs ([], mpt_default, []))
        (\<lambda>(storage, state_root_node, state_nodes).
          map_res (\<lambda>t. \<lparr>state_trie = t, storage_tries = storage\<rparr>)
            (checked_state_trie X state_root state_root_node state_nodes)))"

text \<open>
  \<open>EthereumState::from_account_proof\<close>: the same loop with errors returned, one account, and
  no comparison of hashes.
\<close>

definition store_proof_checked ::
  "mpt_ext \<Rightarrow> bytes list \<Rightarrow> mpt \<times> (mpt_ref, mpt) hashmap \<Rightarrow>
   (from_proof_error, mpt \<times> (mpt_ref, mpt) hashmap) res" where
  "store_proof_checked X proof = (\<lambda>(root_node, nodes).
     res_bind (map_err DecodingError (parse_proof X proof)) (\<lambda>proof_nodes.
       res_bind (mpt_from_proof X proof_nodes) (\<lambda>_.
         Ok (if proof_nodes = [] then root_node else hd proof_nodes,
             store_nodes X proof_nodes nodes))))"

definition state_from_account_proof ::
  "mpt_ext \<Rightarrow> eip1186_proof \<Rightarrow> (from_proof_error, ethereum_state) res" where
  "state_from_account_proof X proof =
     res_bind (res_fold (\<lambda>sp. store_proof_checked X (sp_proof sp)) (ep_storage_proof proof) (mpt_default, []))
       (\<lambda>(storage_root_node, storage_nodes).
         res_bind (resolve storage_root_node storage_nodes) (\<lambda>storage_trie.
           map_res (\<lambda>t. \<lparr>state_trie = t,
               storage_tries = hm_insert (hashed_address X (ep_address proof)) storage_trie []\<rparr>)
             (from_account_proof X (ep_account_proof proof))))"

text \<open>\<open>EthereumState::from_proofs\<close>, \<open>from_transition_proofs\<close> and \<open>state_root\<close>.\<close>

definition from_proofs where
  "from_proofs = proofs_to_tries"

definition from_transition_proofs where
  "from_transition_proofs = transition_proofs_to_tries"

definition state_root :: "mpt_ext \<Rightarrow> ethereum_state \<Rightarrow> b256" where
  "state_root X self = hash X (state_trie self)"

section \<open>What the loops keep\<close>

definition root_and_nodes_ok :: "mpt_ext \<Rightarrow> mpt \<times> (mpt_ref, mpt) hashmap \<Rightarrow> bool" where
  "root_and_nodes_ok X = (\<lambda>(root_node, nodes). sound_node X root_node \<and> store_sound X nodes)"

lemma root_and_nodes_init [simp]: "root_and_nodes_ok X (mpt_default, [])"
  by (simp add: root_and_nodes_ok_def)

lemma store_proof_ok:
  assumes "store_proof X proof s = Ok s'" and "root_and_nodes_ok X s"
  shows "root_and_nodes_ok X s'"
proof -
  obtain root nodes where s: "s = (root, nodes)" by (cases s)
  obtain ns where ns: "parse_proof X proof = Ok ns" "s' = (if ns = [] then root else hd ns, store_nodes X ns nodes)"
    using assms(1) by (auto simp: store_proof_def s res_ok_simps)
  note sound = parse_proof_sound [OF ns(1)]
  then show ?thesis
    using store_sound_nodes assms(2) by (cases ns) (auto simp: ns(2) s root_and_nodes_ok_def)
qed

lemma store_proofs_ok:
  assumes "res_fold (\<lambda>sp. store_proof X (sp_proof sp)) sps s = Ok s'" and "root_and_nodes_ok X s"
  shows "root_and_nodes_ok X s'"
  using res_fold_invariant [OF assms(1), of "root_and_nodes_ok X"] assms(2) store_proof_ok by blast

lemma orphans_ok:
  assumes "res_fold (\<lambda>sp. add_orphaned_leafs X (b256_slice (sp_key sp)) (sp_proof sp)) sps m = Ok m'"
    and "store_sound X m"
  shows "store_sound X m'"
  using res_fold_invariant [OF assms(1), of "store_sound X"] assms(2) store_sound_orphans by blast

lemma hash_fill_effect:
  "coherent X t \<Longrightarrow> coherent X (hash_fill X t) \<and> hash X (hash_fill X t) = hash X t \<and>
    erase (hash_fill X t) = erase t"
  using ref_fill_effect [of X t] hash_coherent [of X t] hash_coherent [of X "ref_fill X t"]
  by (auto simp: hash_fill_def)

lemma sound_hash_fill:
  assumes "sound_node X t"
  shows "sound_node X (hash_fill X t) \<and> hash X (hash_fill X t) = hash X t"
  using hash_fill_effect [OF sound_node_coherent [OF assms]] sound_node_erase [OF _ _ assms] by blast

lemma checked_trie_ok:
  assumes "resolve root nodes = Ok t" and "root_and_nodes_ok X (root, nodes)"
  shows "sound_node X t"
  using resolve_hash [of X nodes root t] assms
  by (auto simp: resolve_def unwrap_opt_eq_Ok root_and_nodes_ok_def)

lemma checked_storage_trie_ok:
  assumes "checked_storage_trie X address storage_root s = Ok t" and "root_and_nodes_ok X s"
  shows "sound_node X t \<and> hash X t = storage_root"
proof -
  obtain root nodes where s: "s = (root, nodes)" by (cases s)
  obtain u where u: "resolve root nodes = (Ok u :: (from_proof_error, mpt) res)" "hash X u = storage_root"
    "t = hash_fill X u"
    using assms(1) by (auto simp: checked_storage_trie_def s res_ok_simps Let_def split: if_splits)
  then show ?thesis using checked_trie_ok sound_hash_fill assms(2) s by metis
qed

lemma checked_state_trie_ok:
  assumes "checked_state_trie X sr root nodes = Ok t" and "root_and_nodes_ok X (root, nodes)"
  shows "sound_node X t \<and> hash X t = sr"
proof -
  obtain u where u: "resolve root nodes = (Ok u :: (from_proof_error, mpt) res)" "hash X u = sr"
    "t = hash_fill X u"
    using assms(1) by (auto simp: checked_state_trie_def res_ok_simps Let_def split: if_splits)
  then show ?thesis using checked_trie_ok sound_hash_fill assms(2) by metis
qed

text \<open>What the storage trie of an account is, given the account's proof.\<close>

definition storage_matches :: "mpt_ext \<Rightarrow> account_proof \<Rightarrow> mpt \<Rightarrow> bool" where
  "storage_matches X proof t \<longleftrightarrow> sound_node X t \<and>
     (if ap_storage_proofs proof = [] then t = node_from_digest (ap_storage_root proof)
      else hash X t = ap_storage_root proof)"

text \<open>Every storage trie belongs to an account of the proofs, and no account is left out.\<close>

definition storages_match ::
  "mpt_ext \<Rightarrow> (address \<times> account_proof) list \<Rightarrow> (b256, mpt) hashmap \<Rightarrow> bool" where
  "storages_match X seen storage \<longleftrightarrow>
     (\<forall>k t. hm_get storage k = Some t \<longrightarrow>
        (\<exists>(address, proof) \<in> set seen. k = hashed_address X address \<and> storage_matches X proof t)) \<and>
     (\<forall>(address, proof) \<in> set seen. hm_get storage (hashed_address X address) \<noteq> None)"

definition loop_ok :: "mpt_ext \<Rightarrow> (address \<times> account_proof) list \<Rightarrow> proof_loop \<Rightarrow> bool" where
  "loop_ok X seen = (\<lambda>(storage, roots). root_and_nodes_ok X roots \<and> storages_match X seen storage)"

lemma sound_node_from_digest [simp]: "sound_node X (node_from_digest d)"
  by (simp add: node_from_digest_def)

lemma storages_match_insert:
  assumes "storages_match X seen storage" and "storage_matches X proof t"
  shows "storages_match X (seen @ [(address, proof)]) (hm_insert (hashed_address X address) t storage)"
  using assms unfolding storages_match_def by (auto split: if_splits)

lemma proofs_step_ok:
  assumes "proofs_step X (address, proof) s = Ok s'" and "loop_ok X seen s"
  shows "loop_ok X (seen @ [(address, proof)]) s'"
proof -
  obtain storage root nodes where s: "s = (storage, root, nodes)" by (cases s)
  obtain root' nodes' where r: "store_proof X (ap_proof proof) (root, nodes) = Ok (root', nodes')"
    using assms(1) by (auto simp: proofs_step_def s res_ok_simps)
  have ok: "root_and_nodes_ok X (root', nodes')" "storages_match X seen storage"
    using store_proof_ok [OF r] assms(2) by (auto simp: loop_ok_def s)
  obtain t where t: "s' = (hm_insert (hashed_address X address) t storage, root', nodes')"
    "storage_matches X proof t"
  proof (cases "ap_storage_proofs proof = []")
    case True
    then show ?thesis using assms(1) r that
      by (auto simp: proofs_step_def s storage_matches_def)
  next
    case False
    then obtain roots t where f: "res_fold (\<lambda>sp. store_proof X (sp_proof sp)) (ap_storage_proofs proof) (mpt_default, []) = Ok roots"
      "checked_storage_trie X address (ap_storage_root proof) roots = Ok t"
      "s' = (hm_insert (hashed_address X address) t storage, root', nodes')"
      using assms(1) r by (auto simp: proofs_step_def s res_ok_simps)
    have "sound_node X t \<and> hash X t = ap_storage_root proof"
      using checked_storage_trie_ok [OF f(2) store_proofs_ok [OF f(1)]] by simp
    then show ?thesis using that f(3) False by (auto simp: storage_matches_def)
  qed
  then show ?thesis using ok storages_match_insert by (simp add: loop_ok_def)
qed

lemma transition_step_ok:
  assumes "transition_step X fini (address, proof) s = Ok s'" and "loop_ok X seen s"
  shows "loop_ok X (seen @ [(address, proof)]) s'"
proof -
  obtain storage root nodes where s: "s = (storage, root, nodes)" by (cases s)
  obtain root' nodes0 fp nodes' where
    r: "store_proof X (ap_proof proof) (root, nodes) = Ok (root', nodes0)" "hm_get fini address = Some fp"
      "add_orphaned_leafs X (address_slice address) (ap_proof fp) nodes0 = Ok nodes'"
    using assms(1) by (auto simp: transition_step_def s res_ok_simps)
  have ok0: "root_and_nodes_ok X (root', nodes0)" "storages_match X seen storage"
    using store_proof_ok [OF r(1)] assms(2) by (auto simp: loop_ok_def s)
  have ok: "root_and_nodes_ok X (root', nodes')"
    using ok0(1) store_sound_orphans [OF r(3)] by (simp add: root_and_nodes_ok_def)
  obtain t where t: "s' = (hm_insert (hashed_address X address) t storage, root', nodes')"
    "storage_matches X proof t"
  proof (cases "ap_storage_proofs proof = []")
    case True
    then show ?thesis using assms(1) r that
      by (auto simp: transition_step_def s storage_matches_def)
  next
    case False
    then obtain sroot snodes snodes' t where
      f: "res_fold (\<lambda>sp. store_proof X (sp_proof sp)) (ap_storage_proofs proof) (mpt_default, []) = Ok (sroot, snodes)"
      "res_fold (\<lambda>sp. add_orphaned_leafs X (b256_slice (sp_key sp)) (sp_proof sp)) (ap_storage_proofs fp) snodes = Ok snodes'"
      "checked_storage_trie X address (ap_storage_root proof) (sroot, snodes') = Ok t"
      "s' = (hm_insert (hashed_address X address) t storage, root', nodes')"
      using assms(1) r by (auto simp: transition_step_def s res_ok_simps)
    have "root_and_nodes_ok X (sroot, snodes')"
      using store_proofs_ok [OF f(1) root_and_nodes_init] orphans_ok [OF f(2)]
      by (simp add: root_and_nodes_ok_def)
    then show ?thesis using that f(4) checked_storage_trie_ok [OF f(3)] False
      by (auto simp: storage_matches_def)
  qed
  then show ?thesis using ok ok0(2) storages_match_insert by (simp add: loop_ok_def)
qed

text \<open>A fold that keeps a relation between the elements seen and the state.\<close>

lemma seen_fold:
  assumes step: "\<And>x s s' seen. f x s = Ok s' \<Longrightarrow> I seen s \<Longrightarrow> I (seen @ [x]) s'"
  shows "res_fold f xs s = Ok s' \<Longrightarrow> I seen s \<Longrightarrow> I (seen @ xs) s'"
proof (induction xs arbitrary: s seen)
  case (Cons x xs)
  then obtain t where t: "f x s = Ok t" "res_fold f xs t = Ok s'" by (auto simp: res_bind_eq_Ok)
  then show ?case using Cons.IH [OF t(2) step [OF t(1) Cons.prems(2)]] by simp
qed simp

lemma loop_ok_init [simp]: "loop_ok X [] ([], mpt_default, [])"
  by (simp add: loop_ok_def storages_match_def)

text \<open>The contract of the constructors.\<close>

definition anchored :: "mpt_ext \<Rightarrow> b256 \<Rightarrow> (address, account_proof) hashmap \<Rightarrow> ethereum_state \<Rightarrow> bool" where
  "anchored X root proofs st \<longleftrightarrow>
     sound_node X (state_trie st) \<and> state_root X st = root \<and> storages_match X proofs (storage_tries st)"

lemma proofs_to_tries_anchored:
  assumes "proofs_to_tries X root proofs = Ok st" and "proofs \<noteq> []"
  shows "anchored X root proofs st"
proof -
  obtain storage rn ns t where f: "res_fold (proofs_step X) proofs ([], mpt_default, []) = Ok (storage, rn, ns)"
    "checked_state_trie X root rn ns = Ok t" "st = \<lparr>state_trie = t, storage_tries = storage\<rparr>"
    using assms by (auto simp: proofs_to_tries_def res_ok_simps)
  have "loop_ok X ([] @ proofs) (storage, rn, ns)"
    by (rule seen_fold [where I = "loop_ok X", OF _ f(1) loop_ok_init]) (metis proofs_step_ok surj_pair)
  then show ?thesis
    using checked_state_trie_ok [OF f(2)] by (simp add: loop_ok_def anchored_def state_root_def f(3))
qed

lemma transition_proofs_to_tries_anchored:
  assumes "transition_proofs_to_tries X root parent_proofs proofs = Ok st" and "parent_proofs \<noteq> []"
  shows "anchored X root parent_proofs st"
proof -
  obtain storage rn ns t where
    f: "res_fold (transition_step X proofs) parent_proofs ([], mpt_default, []) = Ok (storage, rn, ns)"
    "checked_state_trie X root rn ns = Ok t" "st = \<lparr>state_trie = t, storage_tries = storage\<rparr>"
    using assms by (auto simp: transition_proofs_to_tries_def res_ok_simps)
  have "loop_ok X ([] @ parent_proofs) (storage, rn, ns)"
    by (rule seen_fold [where I = "loop_ok X", OF _ f(1) loop_ok_init]) (metis transition_step_ok surj_pair)
  then show ?thesis
    using checked_state_trie_ok [OF f(2)] by (simp add: loop_ok_def anchored_def state_root_def f(3))
qed

end
