(* ===== verification/Eth_Update.thy ===== *)
theory Eth_Update
  imports Eth_State
begin

text \<open>
  \<open>EthereumState::update\<close>: the post state of a block applied to the sparse tries. The
  theorems state which accounts and slots every lookup answers afterwards, exactly when the
  update panics, and that the order in which the hash maps are iterated does not matter.
\<close>

section \<open>Data and third-party functions\<close>

text \<open>\<open>reth_trie::TrieAccount\<close> and the post state of \<open>reth_trie\<close>, by the fields used.\<close>

record trie_account =
  ta_nonce :: u64
  ta_balance :: u256
  ta_storage_root :: b256
  ta_code_hash :: b256

record account =
  ac_nonce :: u64
  ac_balance :: u256
  ac_bytecode_hash :: "b256 option"

record hashed_storage =
  hs_wiped :: bool
  hs_storage :: "(b256, u256) hashmap"

record hashed_post_state =
  hp_accounts :: "(b256, account option) hashmap"
  hp_storages :: "(b256, hashed_storage) hashmap"

text \<open>
  The RLP codecs of accounts and slot values, \<open>Account::get_bytecode_hash\<close> and
  \<open>HashedStorage::new\<close>.
\<close>

record state_ext =
  base :: mpt_ext
  account_encode :: "trie_account \<Rightarrow> bytes"
  account_decode :: "bytes \<Rightarrow> (rlp_error, trie_account) res"
  u256_encode :: "u256 \<Rightarrow> bytes"
  u256_decode :: "bytes \<Rightarrow> (rlp_error, u256) res"
  get_bytecode_hash :: "account \<Rightarrow> b256"
  hashed_storage_new :: "bool \<Rightarrow> hashed_storage"

section \<open>The update\<close>

text \<open>The result of an unwrapped mutation is the node it leaves.\<close>

definition unwrap_mut :: "mpt \<times> (mpt_error, bool) res \<Rightarrow> (mpt_error, mpt) res" where
  "unwrap_mut m = res_bind (unwrap_res (snd m)) (\<lambda>_. Ok (fst m))"

definition update_slot :: "state_ext \<Rightarrow> b256 \<times> u256 \<Rightarrow> mpt \<Rightarrow> (mpt_error, mpt) res" where
  "update_slot S = (\<lambda>(key, value) storage_trie.
     if value = 0
     then unwrap_mut (delete storage_trie (b256_slice key))
     else unwrap_mut (insert_rlp (u256_encode S) storage_trie (b256_slice key) value))"

definition update_storage :: "state_ext \<Rightarrow> hashed_storage \<Rightarrow> mpt \<Rightarrow> (mpt_error, mpt) res" where
  "update_storage S state_storage storage_trie =
     res_fold (update_slot S) (hs_storage state_storage)
       (if hs_wiped state_storage then clear storage_trie else storage_trie)"

definition storage_of :: "state_ext \<Rightarrow> hashed_post_state \<Rightarrow> b256 \<Rightarrow> hashed_storage" where
  "storage_of S post_state k = (case hm_get (hp_storages post_state) k of
     Some s \<Rightarrow> s | None \<Rightarrow> hashed_storage_new S False)"

definition storage_trie_of :: "(b256, mpt) hashmap \<Rightarrow> b256 \<Rightarrow> mpt" where
  "storage_trie_of m k = (case hm_get m k of Some t \<Rightarrow> t | None \<Rightarrow> mpt_default)"

definition state_account :: "state_ext \<Rightarrow> account \<Rightarrow> b256 \<Rightarrow> trie_account" where
  "state_account S account storage_root =
     \<lparr>ta_nonce = ac_nonce account, ta_balance = ac_balance account,
      ta_storage_root = storage_root, ta_code_hash = get_bytecode_hash S account\<rparr>"

definition update_account ::
  "state_ext \<Rightarrow> hashed_post_state \<Rightarrow> b256 \<times> account option \<Rightarrow> ethereum_state \<Rightarrow>
   (mpt_error, ethereum_state) res" where
  "update_account S post_state = (\<lambda>(hashed_address, account) self.
     case account of
       Some account \<Rightarrow>
         res_bind (update_storage S (storage_of S post_state hashed_address)
             (storage_trie_of (storage_tries self) hashed_address)) (\<lambda>storage_trie.
           let storage_root = hash (base S) storage_trie
           in map_res (\<lambda>t. \<lparr>state_trie = t,
                storage_tries = hm_insert hashed_address (hash_fill (base S) storage_trie) (storage_tries self)\<rparr>)
              (unwrap_mut (insert_rlp (account_encode S) (state_trie self) (b256_slice hashed_address)
                (state_account S account storage_root))))
     | None \<Rightarrow>
         map_res (\<lambda>t. self\<lparr>state_trie := t\<rparr>)
           (unwrap_mut (delete (state_trie self) (b256_slice hashed_address))))"

definition update :: "state_ext \<Rightarrow> hashed_post_state \<Rightarrow> ethereum_state \<Rightarrow> (mpt_error, ethereum_state) res" where
  "update S post_state self = res_fold (update_account S post_state) (hp_accounts post_state) self"

section \<open>The storage of one account\<close>

abbreviation key_nibs :: "b256 \<Rightarrow> u8 list" where
  "key_nibs k \<equiv> to_nibs (b256_slice k)"

lemma key_nibs_trie_key [simp]: "trie_key 64 (key_nibs k)"
  by simp

definition slot_update :: "state_ext \<Rightarrow> b256 \<times> u256 \<Rightarrow> u8 list \<times> bytes option" where
  "slot_update S = (\<lambda>(key, value). (key_nibs key, if value = 0 then None else Some (u256_encode S value)))"

lemma update_slot_apply: "update_slot S kv t = apply_update insert_internal delete_internal (slot_update S kv) t"
  by (cases kv) (simp add: update_slot_def slot_update_def apply_update_def unwrap_mut_def delete_def
      insert_rlp_def split: prod.splits)

lemma update_slots_apply:
  "res_fold (update_slot S) kvs t = apply_updates insert_internal delete_internal (map (slot_update S) kvs) t"
proof (induction kvs arbitrary: t)
  case (Cons kv kvs)
  have "res_fold (update_slot S) kvs = apply_updates insert_internal delete_internal (map (slot_update S) kvs)"
    using Cons by blast
  then show ?case
    by (simp only: res_fold.simps list.map apply_updates_simps update_slot_apply [of S kv t])
qed simp

lemma coherent_apply_update:
  assumes "apply_update insert_internal delete_internal u t = Ok t'" and "coherent X t"
  shows "coherent X t'"
proof (cases "snd u")
  case None
  then have "delete_internal t (fst u) = (t', snd (delete_internal t (fst u)))"
    "snd (delete_internal t (fst u)) \<noteq> Panic"
    using assms(1) by (auto simp: apply_update_def res_ok_simps split: prod.splits)
  then show ?thesis using coherent_delete_internal assms(2) by blast
next
  case (Some v)
  then have "insert_internal t (fst u) v = (t', snd (insert_internal t (fst u) v))"
    using assms(1) by (auto simp: apply_update_def res_ok_simps split: prod.splits)
  then show ?thesis using coherent_insert_internal assms(2) by blast
qed

lemma coherent_apply_updates:
  "apply_updates insert_internal delete_internal us t = Ok t' \<Longrightarrow> coherent X t \<Longrightarrow> coherent X t'"
  using res_fold_invariant [of "apply_update insert_internal delete_internal" us t t' "coherent X"]
    coherent_apply_update unfolding apply_updates_def by blast

text \<open>The tries built from the empty one have right caches.\<close>

lemma run_updates_coherent:
  assumes "\<And>k w. (k, w) \<in> set us \<Longrightarrow> 2 * length k = L \<and> w \<noteq> Some []"
  obtains t where "run_updates us mpt_default = Ok t" "trie_inv L t" "coherent X t"
    "\<And>ks. nibbles ks \<Longrightarrow> get_internal t ks = Ok (if \<exists>key. ks = to_nibs key then final_map us (pack_pairs ks) else None)"
proof (rule run_updates_empty [OF assms])
  fix t
  assume t: "run_updates us mpt_default = Ok t" "trie_inv L t"
    "apply_updates insert_internal delete_internal (map (map_prod to_nibs id) us) mpt_default = Ok t"
    "\<And>ks. nibbles ks \<Longrightarrow> get_internal t ks = Ok (if \<exists>key. ks = to_nibs key then final_map us (pack_pairs ks) else None)"
  have "coherent X t" using coherent_apply_updates [OF t(3)] by (simp add: mpt_default_def node_of_def)
  then show thesis using that t by blast
qed

lemma fst_slot_update: "map fst (map (slot_update S) kvs) = map key_nibs (map fst kvs)"
  by (induction kvs) (auto simp: slot_update_def)

lemma distinct_slot_update: "hm_wf kvs \<Longrightarrow> distinct (map fst (map (slot_update S) kvs))"
  unfolding fst_slot_update by (auto simp: distinct_map inj_on_def)

lemma map_of_slot_update:
  "map_of (map (slot_update S) kvs) (key_nibs k) =
    map_option (\<lambda>v. if v = 0 then None else Some (u256_encode S v)) (hm_get kvs k)"
proof (induction kvs)
  case (Cons kv kvs)
  obtain a v where kv: "kv = (a, v)" by (cases kv)
  have "slot_update S kv = (key_nibs a, if v = 0 then None else Some (u256_encode S v))"
    by (simp add: slot_update_def kv)
  then show ?case using Cons by (cases "k = a") (simp_all only: kv list.map map_of.simps fst_conv
      snd_conv fun_upd_apply to_nibs_inject b256_slice_inject simp_thms if_True if_False option.map)
qed simp

lemma map_of_slot_update_other:
  assumes "\<And>k. ks \<noteq> key_nibs k"
  shows "map_of (map (slot_update S) kvs) ks = None"
proof (induction kvs)
  case (Cons kv kvs)
  have "fst (slot_update S kv) \<noteq> ks" using assms [of "fst kv"] by (cases kv) (simp add: slot_update_def)
  then show ?case using Cons by (cases "slot_update S kv") simp
qed simp

lemma trie_inv_empty [simp]: "trie_inv L (MptNode Null c)"
  by (simp add: trie_inv_def wf_trie_def)

text \<open>The keys of the slots are resolved in the trie the loop starts from.\<close>

definition slots_resolved :: "hashed_storage \<Rightarrow> mpt \<Rightarrow> bool" where
  "slots_resolved ss t \<longleftrightarrow>
     hs_wiped ss \<or> (\<forall>key \<in> set (map fst (hs_storage ss)). \<exists>x. get t (b256_slice key) = Ok x)"

lemma resolved_slots:
  "tr.resolved 64 t (map fst (map (slot_update S) kvs)) \<longleftrightarrow>
    (\<forall>key \<in> set (map fst kvs). \<exists>x. get t (b256_slice key) = Ok x)"
  unfolding fst_slot_update by (auto simp: tr.resolved_def get_def)

text \<open>What a lookup answers in the updated storage.\<close>

definition slot_after :: "state_ext \<Rightarrow> hashed_storage \<Rightarrow> mpt \<Rightarrow> b256 \<Rightarrow> (mpt_error, bytes option) res" where
  "slot_after S ss t key =
     (case hm_get (hs_storage ss) key of
        Some v \<Rightarrow> Ok (if v = 0 then None else Some (u256_encode S v))
      | None \<Rightarrow> if hs_wiped ss then Ok None else get t (b256_slice key))"

lemma update_storage_start: "trie_inv L t \<Longrightarrow> trie_inv L (if w then clear t else t)"
  by (simp add: clear_def)

lemma update_storage_ok:
  assumes "trie_inv 64 t" and "hm_wf (hs_storage ss)" and "slots_resolved ss t"
  obtains t' where "update_storage S ss t = Ok t'" "trie_inv 64 t'"
    "\<And>key. get t' (b256_slice key) = slot_after S ss t key"
proof -
  let ?t = "if hs_wiped ss then clear t else t"
  have "tr.resolved 64 ?t (map fst (map (slot_update S) (hs_storage ss)))"
    unfolding resolved_slots using assms(3) by (auto simp: slots_resolved_def clear_def get_def)
  from tr.updates_ok [OF update_storage_start [OF assms(1)] distinct_slot_update [OF assms(2)] this]
  obtain t' where t': "apply_updates insert_internal delete_internal (map (slot_update S) (hs_storage ss)) ?t = Ok t'"
    "trie_inv 64 t'" "\<And>k. nibbles k \<Longrightarrow> get_internal t' k =
      (case map_of (map (slot_update S) (hs_storage ss)) k of Some w \<Rightarrow> Ok w | None \<Rightarrow> get_internal ?t k)"
    by blast
  have "get t' (b256_slice key) = slot_after S ss t key" for key
    using t'(3) [of "key_nibs key"]
    by (auto simp: get_def slot_after_def map_of_slot_update clear_def split: option.splits)
  then show thesis using that t'(1,2) by (simp add: update_storage_def update_slots_apply)
qed

lemma update_storage_unresolved:
  assumes "trie_inv 64 t" and "hm_wf (hs_storage ss)" and "\<not> slots_resolved ss t"
  shows "update_storage S ss t = Panic"
proof -
  have w: "\<not> hs_wiped ss" using assms(3) by (simp add: slots_resolved_def)
  then have "\<not> tr.resolved 64 t (map fst (map (slot_update S) (hs_storage ss)))"
    unfolding resolved_slots using assms(3) by (simp add: slots_resolved_def)
  moreover have "trie_key 64 k" if "k \<in> set (map fst (map (slot_update S) (hs_storage ss)))" for k
    using that unfolding fst_slot_update by auto
  ultimately have "apply_updates insert_internal delete_internal (map (slot_update S) (hs_storage ss)) t = Panic"
    using tr.updates_unresolved [OF assms(1) distinct_slot_update [OF assms(2)]] by blast
  then show ?thesis by (simp add: update_storage_def update_slots_apply w)
qed

lemma update_storage_coherent:
  "update_storage S ss t = Ok t' \<Longrightarrow> coherent X t \<Longrightarrow> coherent X t'"
  unfolding update_storage_def update_slots_apply
  by (erule coherent_apply_updates) (simp add: coherent_clear)

text \<open>
  Two slot maps with the same content give the same trie up to caches, from tries that are the
  same up to caches.
\<close>

lemma update_storage_order:
  assumes "trie_inv 64 t" and "trie_inv 64 t'" and "erase t = erase t'"
    and "hm_wf (hs_storage ss)" and "hm_wf (hs_storage ss')"
    and "set (hs_storage ss) = set (hs_storage ss')" and "hs_wiped ss = hs_wiped ss'"
  shows "map_res erase (update_storage S ss t) = map_res erase (update_storage S ss' t')"
  unfolding update_storage_def update_slots_apply assms(7)
proof (rule tr.order_irrelevant [OF update_storage_start [OF assms(1)] update_storage_start [OF assms(2)]])
  show "distinct (map fst (map (slot_update S) (hs_storage ss)))"
    "distinct (map fst (map (slot_update S) (hs_storage ss')))"
    using distinct_slot_update assms(4,5) by blast+
  show "set (map (slot_update S) (hs_storage ss)) = set (map (slot_update S) (hs_storage ss'))"
    using assms(6) by simp
  show "trie_key 64 k" if "k \<in> set (map fst (map (slot_update S) (hs_storage ss)))" for k
    using that unfolding fst_slot_update by auto
  show "get_internal (if hs_wiped ss' then clear t else t) k =
      get_internal (if hs_wiped ss' then clear t' else t') k" for k
    using get_cong [OF assms(3)] by (simp add: clear_def)
qed

section \<open>All accounts\<close>

definition storage_after ::
  "state_ext \<Rightarrow> hashed_post_state \<Rightarrow> (b256, mpt) hashmap \<Rightarrow> b256 \<Rightarrow> (mpt_error, mpt) res" where
  "storage_after S ps m k = update_storage S (storage_of S ps k) (storage_trie_of m k)"

text \<open>The update of the state trie that an entry of the post state amounts to.\<close>

definition account_entry ::
  "state_ext \<Rightarrow> hashed_post_state \<Rightarrow> (b256, mpt) hashmap \<Rightarrow> b256 \<times> account option \<Rightarrow> u8 list \<times> bytes option" where
  "account_entry S ps m = (\<lambda>(k, acc). (key_nibs k,
     case (acc, storage_after S ps m k) of
       (Some a, Ok t) \<Rightarrow> Some (account_encode S (state_account S a (hash (base S) t)))
     | _ \<Rightarrow> None))"

fun storages_fold ::
  "state_ext \<Rightarrow> hashed_post_state \<Rightarrow> (b256, mpt) hashmap \<Rightarrow> (b256 \<times> account option) list \<Rightarrow>
   (b256, mpt) hashmap \<Rightarrow> (b256, mpt) hashmap" where
  "storages_fold S ps m [] m' = m'"
| "storages_fold S ps m ((k, acc) # accs) m' = storages_fold S ps m accs
     (case (acc, storage_after S ps m k) of
        (Some _, Ok t) \<Rightarrow> hm_insert k (hash_fill (base S) t) m'
      | _ \<Rightarrow> m')"

definition storages_ok :: "state_ext \<Rightarrow> hashed_post_state \<Rightarrow> (b256, mpt) hashmap \<Rightarrow> (b256 \<times> account option) list \<Rightarrow> bool" where
  "storages_ok S ps m accs \<longleftrightarrow> (\<forall>(k, acc) \<in> set accs. acc \<noteq> None \<longrightarrow> (\<exists>t. storage_after S ps m k = Ok t))"

lemma unwrap_insert:
  "unwrap_mut (insert_rlp enc t (b256_slice k) v) =
    apply_update insert_internal delete_internal (key_nibs k, Some (enc v)) t"
  by (simp add: unwrap_mut_def insert_rlp_def apply_update_def split: prod.splits)

lemma unwrap_delete:
  "unwrap_mut (delete t (b256_slice k)) = apply_update insert_internal delete_internal (key_nibs k, None) t"
  by (simp add: unwrap_mut_def delete_def apply_update_def split: prod.splits)

lemma update_account_apply:
  assumes "hm_get (storage_tries st) k = hm_get m k" and "storages_ok S ps m [(k, acc)]"
  shows "update_account S ps (k, acc) st =
    map_res (\<lambda>t. \<lparr>state_trie = t, storage_tries = storages_fold S ps m [(k, acc)] (storage_tries st)\<rparr>)
      (apply_update insert_internal delete_internal (account_entry S ps m (k, acc)) (state_trie st))"
proof -
  have m: "storage_trie_of (storage_tries st) k = storage_trie_of m k"
    using assms(1) by (simp add: storage_trie_of_def)
  show ?thesis
  proof (cases acc)
    case None
    then show ?thesis
      by (cases st) (simp add: update_account_def account_entry_def unwrap_delete)
  next
    case (Some a)
    then obtain t where "storage_after S ps m k = Ok t" using assms(2) by (auto simp: storages_ok_def)
    moreover have "update_storage S (storage_of S ps k) (storage_trie_of m k) = storage_after S ps m k"
      by (simp add: storage_after_def)
    ultimately show ?thesis
      by (simp add: update_account_def account_entry_def unwrap_insert Some m)
  qed
qed

lemma storages_fold_other:
  "k \<notin> set (map fst accs) \<Longrightarrow> hm_get (storages_fold S ps m accs m') k = hm_get m' k"
  by (induction S ps m accs m' rule: storages_fold.induct) (auto split: option.splits res.splits)

lemma update_fold:
  assumes "hm_wf accs" and "\<And>k. k \<in> set (map fst accs) \<Longrightarrow> hm_get (storage_tries st) k = hm_get m k"
    and "storages_ok S ps m accs"
  shows "res_fold (update_account S ps) accs st =
    map_res (\<lambda>t. \<lparr>state_trie = t, storage_tries = storages_fold S ps m accs (storage_tries st)\<rparr>)
      (apply_updates insert_internal delete_internal (map (account_entry S ps m) accs) (state_trie st))"
  using assms
proof (induction accs arbitrary: st)
  case (Cons x accs)
  obtain k acc where x: "x = (k, acc)" by (cases x)
  have step: "update_account S ps x st =
    map_res (\<lambda>t. \<lparr>state_trie = t, storage_tries = storages_fold S ps m [x] (storage_tries st)\<rparr>)
      (apply_update insert_internal delete_internal (account_entry S ps m x) (state_trie st))"
    unfolding x using Cons.prems by (intro update_account_apply) (auto simp: x storages_ok_def)
  show ?case
  proof (cases "apply_update insert_internal delete_internal (account_entry S ps m x) (state_trie st)")
    case (Ok t)
    define st' where "st' = \<lparr>state_trie = t, storage_tries = storages_fold S ps m [x] (storage_tries st)\<rparr>"
    have "hm_get (storage_tries st') k' = hm_get m k'" if "k' \<in> set (map fst accs)" for k'
      using that Cons.prems(1,2) storages_fold_other [of k' "[x]" S ps m "storage_tries st"]
      by (auto simp: st'_def x)
    then have "res_fold (update_account S ps) accs st' =
      map_res (\<lambda>t. \<lparr>state_trie = t, storage_tries = storages_fold S ps m accs (storage_tries st')\<rparr>)
        (apply_updates insert_internal delete_internal (map (account_entry S ps m) accs) (state_trie st'))"
      using Cons.prems by (intro Cons.IH) (auto simp: storages_ok_def)
    then show ?thesis
      using Ok step by (simp add: st'_def x)
  qed (use step in simp_all)
qed simp

lemma apply_update_not_Err: "apply_update insert_internal delete_internal u t \<noteq> Err e"
proof -
  have "res_bind (unwrap_res r) (\<lambda>_. Ok t') \<noteq> Err e" for r :: "(mpt_error, bool) res" and t' :: mpt
    by (cases r) auto
  then show ?thesis by (simp add: apply_update_def split: prod.split)
qed

section \<open>The contract of the update\<close>

text \<open>Every trie of the state holds 32-byte keys in canonical form and has a coherent cache.\<close>

definition state_inv :: "state_ext \<Rightarrow> ethereum_state \<Rightarrow> bool" where
  "state_inv S st \<longleftrightarrow> trie_inv 64 (state_trie st) \<and> coherent (base S) (state_trie st) \<and>
     (\<forall>k t. hm_get (storage_tries st) k = Some t \<longrightarrow> trie_inv 64 t \<and> coherent (base S) t)"

text \<open>The keys of the hash maps of the post state are distinct.\<close>

definition post_wf :: "state_ext \<Rightarrow> hashed_post_state \<Rightarrow> bool" where
  "post_wf S ps \<longleftrightarrow> hm_wf (hp_accounts ps) \<and> (\<forall>k. hm_wf (hs_storage (storage_of S ps k)))"

text \<open>Everything the update touches is resolved.\<close>

definition update_resolved :: "state_ext \<Rightarrow> hashed_post_state \<Rightarrow> ethereum_state \<Rightarrow> bool" where
  "update_resolved S ps st \<longleftrightarrow> (\<forall>(k, acc) \<in> set (hp_accounts ps).
     (\<exists>x. get (state_trie st) (b256_slice k) = Ok x) \<and>
     (acc \<noteq> None \<longrightarrow> slots_resolved (storage_of S ps k) (storage_trie_of (storage_tries st) k)))"

lemma storage_trie_inv:
  "state_inv S st \<Longrightarrow> trie_inv 64 (storage_trie_of (storage_tries st) k) \<and>
    coherent (base S) (storage_trie_of (storage_tries st) k)"
  by (auto simp: state_inv_def storage_trie_of_def mpt_default_def node_of_def split: option.split)

lemma fst_account_entry: "map fst (map (account_entry S ps m) accs) = map key_nibs (map fst accs)"
  by (induction accs) (auto simp: account_entry_def)

lemma distinct_account_entry: "hm_wf accs \<Longrightarrow> distinct (map fst (map (account_entry S ps m) accs))"
  unfolding fst_account_entry by (auto simp: distinct_map inj_on_def)

lemma map_of_account_entry:
  "map_of (map (account_entry S ps m) accs) (key_nibs k) =
    map_option (\<lambda>acc. snd (account_entry S ps m (k, acc))) (hm_get accs k)"
proof (induction accs)
  case (Cons x accs)
  obtain a acc where x: "x = (a, acc)" by (cases x)
  have "fst (account_entry S ps m (a, acc)) = key_nibs a"
    by (simp add: account_entry_def)
  then show ?case using Cons by (cases "k = a") (simp_all only: x list.map map_of.simps fst_conv
      snd_conv fun_upd_apply to_nibs_inject b256_slice_inject simp_thms if_True if_False option.map)
qed simp

lemma resolved_accounts:
  "tr.resolved 64 t (map fst (map (account_entry S ps m) accs)) \<longleftrightarrow>
    (\<forall>k \<in> set (map fst accs). \<exists>x. get t (b256_slice k) = Ok x)"
  unfolding fst_account_entry by (auto simp: tr.resolved_def get_def)

lemma hm_get_storages_fold:
  assumes "hm_wf accs"
  shows "hm_get (storages_fold S ps m accs m') k =
    (case hm_get accs k of
       Some (Some _) \<Rightarrow> (case storage_after S ps m k of Ok t \<Rightarrow> Some (hash_fill (base S) t) | _ \<Rightarrow> hm_get m' k)
     | _ \<Rightarrow> hm_get m' k)"
  using assms
proof (induction S ps m accs m' rule: storages_fold.induct)
  case (2 S ps m a acc accs m')
  show ?case
  proof (cases "k = a")
    case True
    then have "hm_get accs k = None" using 2 by (simp add: map_of_eq_None_iff)
    then show ?thesis using 2 True by (auto split: option.splits res.splits)
  qed (use 2 in \<open>auto split: option.splits res.splits\<close>)
qed simp

lemma storage_after_ok:
  assumes "state_inv S st" and "post_wf S ps"
    and "slots_resolved (storage_of S ps k) (storage_trie_of (storage_tries st) k)"
  obtains t where "storage_after S ps (storage_tries st) k = Ok t" "trie_inv 64 t" "coherent (base S) t"
    "\<And>key. get t (b256_slice key) = slot_after S (storage_of S ps k) (storage_trie_of (storage_tries st) k) key"
proof -
  note inv = storage_trie_inv [OF assms(1), of k]
  obtain t where "update_storage S (storage_of S ps k) (storage_trie_of (storage_tries st) k) = Ok t"
    "trie_inv 64 t"
    "\<And>key. get t (b256_slice key) = slot_after S (storage_of S ps k) (storage_trie_of (storage_tries st) k) key"
    using update_storage_ok [of "storage_trie_of (storage_tries st) k" "storage_of S ps k" S] inv assms(2,3)
    unfolding post_wf_def by blast
  moreover from this have "coherent (base S) t" using update_storage_coherent inv by blast
  ultimately show thesis using that by (simp add: storage_after_def)
qed

lemma storages_ok_iff:
  assumes "state_inv S st" and "post_wf S ps"
  shows "storages_ok S ps (storage_tries st) accs \<longleftrightarrow> (\<forall>(k, acc) \<in> set accs. acc \<noteq> None \<longrightarrow>
    slots_resolved (storage_of S ps k) (storage_trie_of (storage_tries st) k))"
proof -
  have "(\<exists>t. storage_after S ps (storage_tries st) k = Ok t) \<longleftrightarrow>
    slots_resolved (storage_of S ps k) (storage_trie_of (storage_tries st) k)" for k
    using storage_after_ok [OF assms, of k] storage_trie_inv [OF assms(1), of k] assms(2)
      update_storage_unresolved [of "storage_trie_of (storage_tries st) k" "storage_of S ps k" S]
    unfolding post_wf_def storage_after_def by (metis res.distinct(3))
  then show ?thesis by (simp add: storages_ok_def)
qed

text \<open>The answers of the updated state.\<close>

definition account_after ::
  "state_ext \<Rightarrow> hashed_post_state \<Rightarrow> ethereum_state \<Rightarrow> ethereum_state \<Rightarrow> b256 \<Rightarrow> (mpt_error, bytes option) res" where
  "account_after S ps st st' k =
     (case hm_get (hp_accounts ps) k of
        None \<Rightarrow> get (state_trie st) (b256_slice k)
      | Some None \<Rightarrow> Ok None
      | Some (Some a) \<Rightarrow> Ok (Some (account_encode S
          (state_account S a (hash (base S) (storage_trie_of (storage_tries st') k))))))"

definition storage_answer ::
  "state_ext \<Rightarrow> hashed_post_state \<Rightarrow> ethereum_state \<Rightarrow> b256 \<Rightarrow> b256 \<Rightarrow> (mpt_error, bytes option) res" where
  "storage_answer S ps st k key =
     (case hm_get (hp_accounts ps) k of
        Some (Some _) \<Rightarrow> slot_after S (storage_of S ps k) (storage_trie_of (storage_tries st) k) key
      | _ \<Rightarrow> get (storage_trie_of (storage_tries st) k) (b256_slice key))"

definition updated :: "state_ext \<Rightarrow> hashed_post_state \<Rightarrow> ethereum_state \<Rightarrow> ethereum_state \<Rightarrow> bool" where
  "updated S ps st st' \<longleftrightarrow> state_inv S st' \<and>
     (\<forall>k. get (state_trie st') (b256_slice k) = account_after S ps st st' k) \<and>
     (\<forall>k key. get (storage_trie_of (storage_tries st') k) (b256_slice key) = storage_answer S ps st k key)"

lemma get_hash_fill: "coherent X t \<Longrightarrow> get (hash_fill X t) key = get t key"
  using hash_fill_effect [of X t] get_cong [of "hash_fill X t" t] by (simp add: get_def)

lemma hash_fill_inv: "coherent X t \<Longrightarrow> trie_inv L (hash_fill X t) = trie_inv L t"
  using hash_fill_effect [of X t] trie_inv_cong by blast

lemma update_correct:
  assumes inv: "state_inv S st" and wf: "post_wf S ps" and res: "update_resolved S ps st"
  obtains st' where "update S ps st = Ok st'" "updated S ps st st'"
proof -
  let ?m = "storage_tries st" and ?accs = "hp_accounts ps"
  have accs: "hm_wf ?accs" using wf by (simp add: post_wf_def)
  have ok: "storages_ok S ps ?m ?accs"
    using res storages_ok_iff [OF inv wf] by (auto simp: update_resolved_def)
  have rs: "tr.resolved 64 (state_trie st) (map fst (map (account_entry S ps ?m) ?accs))"
    unfolding resolved_accounts using res by (auto simp: update_resolved_def)
  have ti: "trie_inv 64 (state_trie st)" using inv by (simp add: state_inv_def)
  from tr.updates_ok [OF ti distinct_account_entry [OF accs] rs] obtain t where
    t: "apply_updates insert_internal delete_internal (map (account_entry S ps ?m) ?accs) (state_trie st) = Ok t"
    "trie_inv 64 t" "\<And>ks. nibbles ks \<Longrightarrow> get_internal t ks =
      (case map_of (map (account_entry S ps ?m) ?accs) ks of Some w \<Rightarrow> Ok w | None \<Rightarrow> get_internal (state_trie st) ks)"
    by blast
  define st' where "st' = \<lparr>state_trie = t, storage_tries = storages_fold S ps ?m ?accs ?m\<rparr>"
  have up: "update S ps st = Ok st'"
    using update_fold [OF accs _ ok] t(1) by (simp add: update_def st'_def)
  have storage: "storage_trie_of (storage_tries st') k = (case hm_get ?accs k of
      Some (Some a) \<Rightarrow> (case storage_after S ps ?m k of Ok u \<Rightarrow> hash_fill (base S) u | _ \<Rightarrow> storage_trie_of ?m k)
    | _ \<Rightarrow> storage_trie_of ?m k)" for k
    unfolding storage_trie_of_def using hm_get_storages_fold [OF accs, of S ps ?m ?m k]
    by (simp add: st'_def split: option.split res.split)
  have after: "\<exists>u. storage_after S ps ?m k = Ok u \<and> trie_inv 64 u \<and> coherent (base S) u \<and>
      (\<forall>key. get u (b256_slice key) = slot_after S (storage_of S ps k) (storage_trie_of ?m k) key)"
    if "hm_get ?accs k = Some (Some a)" for k a
  proof -
    have "slots_resolved (storage_of S ps k) (storage_trie_of ?m k)"
      using res map_of_SomeD [OF that] by (fastforce simp: update_resolved_def)
    then show ?thesis using storage_after_ok [OF inv wf] by metis
  qed
  have "coherent (base S) t"
    using coherent_apply_updates [OF t(1)] inv by (simp add: state_inv_def)
  moreover have "trie_inv 64 u \<and> coherent (base S) u" if "hm_get (storage_tries st') k = Some u" for k u
    using that after [of k] inv hm_get_storages_fold [OF accs, of S ps ?m ?m k] hash_fill_effect hash_fill_inv
    by (fastforce simp: st'_def state_inv_def split: option.splits)
  moreover have "get (state_trie st') (b256_slice k) = account_after S ps st st' k" for k
  proof -
    have "get t (b256_slice k) = (case hm_get ?accs k of
        Some acc \<Rightarrow> Ok (snd (account_entry S ps ?m (k, acc))) | None \<Rightarrow> get (state_trie st) (b256_slice k))"
      using t(3) [of "key_nibs k"] by (simp only: get_def map_of_account_entry nibbles_to_nibs) (simp split: option.split)
    then show ?thesis
      using after [of k] storage [of k] hash_fill_effect
      by (auto simp: account_after_def account_entry_def st'_def split: option.splits)
  qed
  moreover have "get (storage_trie_of (storage_tries st') k) (b256_slice key) = storage_answer S ps st k key" for k key
    using after [of k] storage [of k] get_hash_fill by (auto simp: storage_answer_def split: option.splits)
  ultimately have "updated S ps st st'"
    using t(2) by (simp add: updated_def state_inv_def st'_def)
  with up that show thesis by blast
qed

section \<open>The update panics exactly on an unresolved key\<close>

lemma update_fold_panic:
  assumes "\<And>k e. storage_after S ps m k \<noteq> Err e" and "hm_wf accs"
    and "\<And>k. k \<in> set (map fst accs) \<Longrightarrow> hm_get (storage_tries st) k = hm_get m k"
    and "\<not> storages_ok S ps m accs"
  shows "res_fold (update_account S ps) accs st = Panic"
  using assms(2-4)
proof (induction accs arbitrary: st)
  case (Cons x accs)
  obtain k acc where x: "x = (k, acc)" by (cases x)
  have agree: "hm_get (storage_tries st) k = hm_get m k" using Cons.prems(2) by (simp add: x)
  show ?case
  proof (cases "storages_ok S ps m [x]")
    case True
    have step: "update_account S ps x st =
      map_res (\<lambda>t. \<lparr>state_trie = t, storage_tries = storages_fold S ps m [x] (storage_tries st)\<rparr>)
        (apply_update insert_internal delete_internal (account_entry S ps m x) (state_trie st))"
      using update_account_apply [OF agree] True by (simp add: x)
    show ?thesis
    proof (cases "apply_update insert_internal delete_internal (account_entry S ps m x) (state_trie st)")
      case (Ok t)
      define st' where "st' = \<lparr>state_trie = t, storage_tries = storages_fold S ps m [x] (storage_tries st)\<rparr>"
      have "hm_get (storage_tries st') k' = hm_get m k'" if "k' \<in> set (map fst accs)" for k'
        using that Cons.prems(1,2) storages_fold_other [of k' "[x]" S ps m "storage_tries st"]
        by (auto simp: st'_def x)
      moreover have "\<not> storages_ok S ps m accs" using Cons.prems(3) True by (auto simp: storages_ok_def)
      ultimately have "res_fold (update_account S ps) accs st' = Panic" using Cons by simp
      then show ?thesis using Ok step by (simp add: st'_def)
    qed (use step apply_update_not_Err in auto)
  next
    case False
    then have "acc \<noteq> None" "storage_after S ps m k = Panic"
      using assms(1) [of k] by (auto simp: storages_ok_def x) (metis res.exhaust)
    then show ?thesis
      using agree by (auto simp: x update_account_def storage_after_def storage_trie_of_def)
  qed
qed (simp add: storages_ok_def)

lemma update_unresolved:
  assumes inv: "state_inv S st" and wf: "post_wf S ps" and res: "\<not> update_resolved S ps st"
  shows "update S ps st = Panic"
proof -
  let ?m = "storage_tries st" and ?accs = "hp_accounts ps"
  have accs: "hm_wf ?accs" using wf by (simp add: post_wf_def)
  show ?thesis
  proof (cases "storages_ok S ps ?m ?accs")
    case True
    then have "\<not> tr.resolved 64 (state_trie st) (map fst (map (account_entry S ps ?m) ?accs))"
      unfolding resolved_accounts using res storages_ok_iff [OF inv wf] by (force simp: update_resolved_def)
    moreover have "trie_key 64 k" if "k \<in> set (map fst (map (account_entry S ps ?m) ?accs))" for k
      using that unfolding fst_account_entry by auto
    moreover have "trie_inv 64 (state_trie st)" using inv by (simp add: state_inv_def)
    ultimately have "apply_updates insert_internal delete_internal (map (account_entry S ps ?m) ?accs) (state_trie st) = Panic"
      using tr.updates_unresolved [OF _ distinct_account_entry [OF accs]] by blast
    then show ?thesis using update_fold [OF accs _ True] by (simp add: update_def)
  next
    case False
    have "storage_after S ps ?m k \<noteq> Err e" for k e
      using storage_after_ok [OF inv wf, of k] storage_trie_inv [OF inv, of k] wf
        update_storage_unresolved [of "storage_trie_of ?m k" "storage_of S ps k" S]
      unfolding post_wf_def storage_after_def by (metis res.distinct(1,5))
    then show ?thesis using update_fold_panic [OF _ accs _ False] by (simp add: update_def)
  qed
qed

section \<open>The iteration order of the hash maps does not matter\<close>

definition same_post :: "state_ext \<Rightarrow> hashed_post_state \<Rightarrow> hashed_post_state \<Rightarrow> bool" where
  "same_post S ps ps' \<longleftrightarrow> set (hp_accounts ps) = set (hp_accounts ps') \<and>
     (\<forall>k. set (hs_storage (storage_of S ps k)) = set (hs_storage (storage_of S ps' k)) \<and>
        hs_wiped (storage_of S ps k) = hs_wiped (storage_of S ps' k))"

text \<open>A state up to caches, its storage tries as a function.\<close>

definition contents :: "ethereum_state \<Rightarrow> mpt \<times> (b256 \<Rightarrow> mpt option)" where
  "contents st = (erase (state_trie st), \<lambda>k. map_option erase (hm_get (storage_tries st) k))"

lemma contents_eq:
  "contents st = contents st' \<longleftrightarrow> erase (state_trie st) = erase (state_trie st') \<and>
    (\<forall>k. map_option erase (hm_get (storage_tries st) k) = map_option erase (hm_get (storage_tries st') k))"
  by (auto simp: contents_def fun_eq_iff)

lemma contents_storage:
  assumes "contents st = contents st'"
  shows "erase (storage_trie_of (storage_tries st) k) = erase (storage_trie_of (storage_tries st') k)"
proof -
  have "map_option erase (hm_get (storage_tries st) k) = map_option erase (hm_get (storage_tries st') k)"
    using assms by (simp add: contents_eq)
  then show ?thesis by (auto simp: storage_trie_of_def split: option.splits)
qed

lemma same_post_storage:
  assumes "state_inv S st" and "state_inv S st'" and "contents st = contents st'"
    and "post_wf S ps" and "post_wf S ps'" and "same_post S ps ps'"
  shows "map_res erase (storage_after S ps (storage_tries st) k) =
    map_res erase (storage_after S ps' (storage_tries st') k)"
  unfolding storage_after_def
  using assms storage_trie_inv [OF assms(1)] storage_trie_inv [OF assms(2)] contents_storage [OF assms(3)]
  by (intro update_storage_order) (auto simp: post_wf_def same_post_def)

lemma storage_after_coherent:
  "state_inv S st \<Longrightarrow> storage_after S ps (storage_tries st) k = Ok t \<Longrightarrow> coherent (base S) t"
  using update_storage_coherent storage_trie_inv unfolding storage_after_def by blast

lemma same_post_entry:
  assumes inv: "state_inv S st" "state_inv S st'" and "contents st = contents st'"
    and "post_wf S ps" and "post_wf S ps'" and "same_post S ps ps'"
  shows "account_entry S ps (storage_tries st) x = account_entry S ps' (storage_tries st') x"
proof -
  obtain k acc where x: "x = (k, acc)" by (cases x)
  from same_post_storage [OF assms, of k] show ?thesis
  proof (cases rule: map_res_eq_cases)
    case (Ok t u)
    then have "hash (base S) t = hash (base S) u"
      using storage_after_coherent [OF inv(1)] storage_after_coherent [OF inv(2)] hash_mpt_eq [of t u]
      by (simp add: mpt_eq_def)
    then show ?thesis using Ok by (simp add: account_entry_def x split: option.split)
  qed (simp_all add: account_entry_def x split: option.split)
qed

lemma update_resolved_cong:
  assumes "update_resolved S ps st" and "contents st = contents st'" and "same_post S ps ps'"
  shows "update_resolved S ps' st'"
proof -
  have e: "erase (state_trie st) = erase (state_trie st')" using assms(2) by (simp add: contents_eq)
  have g: "get (state_trie st) key = get (state_trie st') key"
    "get (storage_trie_of (storage_tries st) k) key = get (storage_trie_of (storage_tries st') k) key" for k key
    using get_cong [OF e] get_cong [OF contents_storage [OF assms(2)]] by (simp_all add: get_def)
  show ?thesis using assms(1,3) by (simp add: update_resolved_def same_post_def slots_resolved_def g)
qed

lemma update_order_irrelevant:
  assumes inv: "state_inv S st" "state_inv S st'" and same_st: "contents st = contents st'"
    and wf: "post_wf S ps" "post_wf S ps'" and same: "same_post S ps ps'"
  shows "map_res contents (update S ps st) = map_res contents (update S ps' st')"
proof (cases "update_resolved S ps st")
  case True
  let ?m = "storage_tries st" and ?m' = "storage_tries st'"
  let ?us = "map (account_entry S ps ?m) (hp_accounts ps)"
  let ?vs = "map (account_entry S ps ?m) (hp_accounts ps')"
  have res': "update_resolved S ps' st'" by (rule update_resolved_cong [OF True same_st same])
  have accs: "hm_wf (hp_accounts ps)" "hm_wf (hp_accounts ps')" using wf by (simp_all add: post_wf_def)
  have ok: "storages_ok S ps ?m (hp_accounts ps)" "storages_ok S ps' ?m' (hp_accounts ps')"
    using True res' storages_ok_iff [OF inv(1) wf(1)] storages_ok_iff [OF inv(2) wf(2)]
    by (auto simp: update_resolved_def)
  have entries: "account_entry S ps' ?m' = account_entry S ps ?m"
    using same_post_entry [OF inv same_st wf same] by auto
  have "map_res erase (apply_updates insert_internal delete_internal ?us (state_trie st)) =
    map_res erase (apply_updates insert_internal delete_internal ?vs (state_trie st'))"
  proof (rule tr.order_irrelevant)
    show "trie_inv 64 (state_trie st)" "trie_inv 64 (state_trie st')" using inv by (simp_all add: state_inv_def)
    show "trie_key 64 k" if "k \<in> set (map fst ?us)" for k
      using that unfolding fst_account_entry by auto
    show "get_internal (state_trie st) k = get_internal (state_trie st') k" for k
      using same_st by (intro get_cong) (simp add: contents_eq)
  qed (use distinct_account_entry accs same in \<open>auto simp: same_post_def simp del: map_map\<close>)
  moreover have "map_option erase (hm_get (storages_fold S ps ?m (hp_accounts ps) ?m) k) =
    map_option erase (hm_get (storages_fold S ps' ?m' (hp_accounts ps') ?m') k)" for k
  proof -
    have accs_eq: "hm_get (hp_accounts ps) k = hm_get (hp_accounts ps') k"
      using accs same map_of_inject_set [of "hp_accounts ps" "hp_accounts ps'"] by (simp add: same_post_def)
    have m_eq: "map_option erase (hm_get ?m k) = map_option erase (hm_get ?m' k)"
      using same_st by (simp add: contents_eq)
    note gets = hm_get_storages_fold [OF accs(1), of S ps ?m ?m k]
      hm_get_storages_fold [OF accs(2), of S ps' ?m' ?m' k, folded accs_eq]
    from same_post_storage [OF inv same_st wf same, of k] show ?thesis
    proof (cases rule: map_res_eq_cases)
      case (Ok t u)
      then have "erase (hash_fill (base S) t) = erase (hash_fill (base S) u)"
        using storage_after_coherent [OF inv(1)] storage_after_coherent [OF inv(2)] hash_fill_effect by metis
      then show ?thesis unfolding gets using Ok m_eq by (simp split: option.split)
    qed (unfold gets, use m_eq in \<open>simp_all split: option.split\<close>)
  qed
  ultimately show ?thesis
    using update_fold [OF accs(1) _ ok(1)] update_fold [OF accs(2) _ ok(2)]
    by (cases "apply_updates insert_internal delete_internal ?us (state_trie st)";
      cases "apply_updates insert_internal delete_internal ?vs (state_trie st')")
      (simp_all add: update_def contents_def entries)
next
  case False
  moreover have "\<not> update_resolved S ps' st'"
    using False update_resolved_cong [OF _ same_st [symmetric], of S ps' ps] same by (auto simp: same_post_def)
  ultimately show ?thesis using update_unresolved inv wf by simp
qed

text \<open>The state root depends on the contents only.\<close>

lemma contents_state_root:
  assumes "state_inv S st" and "state_inv S st'" and "contents st = contents st'"
  shows "state_root (base S) st = state_root (base S) st'"
  using assms hash_mpt_eq [of "state_trie st" "state_trie st'" "base S"]
  by (simp add: state_root_def state_inv_def contents_eq mpt_eq_def)

end
