(* ===== verification/Trie_Walk.thy ===== *)
theory Trie_Walk
  imports Mpt_Interface
begin

text \<open>
  \<open>MptNode::for_each_leaves\<close>: the walk over the leaves of a trie with an explicit stack,
  given by the list of calls it makes, and its agreement with \<open>get\<close>.
\<close>

section \<open>Definitions\<close>

text \<open>
  The operations of \<open>reth_trie::Nibbles\<close> the walk uses; \<open>None\<close> is a panic (the path would
  not fit, or a value is not a nibble).
\<close>

record 'n nib_ext =
  nib_default :: 'n
  nib_push :: "'n \<Rightarrow> u8 \<Rightarrow> 'n option"
  nib_from_nibbles :: "u8 list \<Rightarrow> 'n option"
  nib_extend :: "'n \<Rightarrow> 'n \<Rightarrow> 'n option"
  nib_pack :: "'n \<Rightarrow> bytes"

text \<open>The occupied children of a branch, pushed in order with their extended paths.\<close>

fun push_children :: "'n nib_ext \<Rightarrow> 'n \<Rightarrow> (nat \<times> mpt) list \<Rightarrow> (mpt \<times> 'n) list \<Rightarrow> (mpt \<times> 'n) list option" where
  "push_children N path [] stack = Some stack"
| "push_children N path ((i, n) # rest) stack =
     (case nib_push N path (of_nat i) of
        None \<Rightarrow> None
      | Some new_path \<Rightarrow> push_children N path rest ((n, new_path) # stack))"

definition extend_path :: "'n nib_ext \<Rightarrow> 'n \<Rightarrow> bytes \<Rightarrow> 'n option" where
  "extend_path N path pre =
     (case prefix_nibs pre of
        None \<Rightarrow> None
      | Some ns \<Rightarrow> (case nib_from_nibbles N ns of None \<Rightarrow> None | Some tail \<Rightarrow> nib_extend N path tail))"

fun node_count :: "mpt \<Rightarrow> nat" where
  "node_count (MptNode (Branch cs) c) =
     Suc (sum_list (map (\<lambda>child. case child of None \<Rightarrow> 0 | Some n \<Rightarrow> node_count n) cs))"
| "node_count (MptNode (Extension p n) c) = Suc (node_count n)"
| "node_count (MptNode d c) = 1"

lemma push_children_count:
  "push_children N path (occupied i cs) stack = Some stack' \<Longrightarrow>
    sum_list (map (node_count \<circ> fst) stack') =
    sum_list (map (\<lambda>child. case child of None \<Rightarrow> 0 | Some n \<Rightarrow> node_count n) cs) +
    sum_list (map (node_count \<circ> fst) stack)"
  by (induction i cs arbitrary: stack rule: occupied.induct) (auto split: option.splits)

lemma node_count_pos: "0 < node_count t"
  by (cases t rule: node_count.cases) auto

text \<open>The stack is a list with its top first; the result lists the calls of the closure.\<close>

function walk :: "'n nib_ext \<Rightarrow> (mpt \<times> 'n) list \<Rightarrow> (bytes \<times> bytes) list option" where
  "walk N [] = Some []"
| "walk N ((MptNode Null c, path) # stack) = walk N stack"
| "walk N ((MptNode (Digest h) c, path) # stack) = walk N stack"
| "walk N ((MptNode (Branch branch) c, path) # stack) =
     (case push_children N path (occupied 0 branch) stack of
        None \<Rightarrow> None
      | Some stack' \<Rightarrow> walk N stack')"
| "walk N ((MptNode (Leaf pre value) c, path) # stack) =
     (case extend_path N path pre of
        None \<Rightarrow> None
      | Some full_path \<Rightarrow> map_option ((#) (nib_pack N full_path, value)) (walk N stack))"
| "walk N ((MptNode (Extension pre node) c, path) # stack) =
     (case extend_path N path pre of
        None \<Rightarrow> None
      | Some new_path \<Rightarrow> walk N ((node, new_path) # stack))"
  by pat_completeness auto
termination
  by (relation "measure (\<lambda>(N, stack). sum_list (map (node_count \<circ> fst) stack))")
    (auto simp: node_count_pos dest: push_children_count)

definition for_each_leaves :: "'n nib_ext \<Rightarrow> mpt \<Rightarrow> (bytes \<times> bytes) list option" where
  "for_each_leaves N self = walk N [(self, nib_default N)]"

section \<open>What the walk visits\<close>

text \<open>\<open>Nibbles\<close> is a path of up to 64 nibbles; \<open>view\<close> is its content.\<close>

definition nib_laws :: "'n nib_ext \<Rightarrow> ('n \<Rightarrow> u8 list) \<Rightarrow> bool" where
  "nib_laws N view \<longleftrightarrow>
     view (nib_default N) = [] \<and>
     (\<forall>n x. x < 16 \<longrightarrow> length (view n) < 64 \<longrightarrow> (\<exists>n'. nib_push N n x = Some n' \<and> view n' = view n @ [x])) \<and>
     (\<forall>xs. nibbles xs \<longrightarrow> length xs \<le> 64 \<longrightarrow> (\<exists>n. nib_from_nibbles N xs = Some n \<and> view n = xs)) \<and>
     (\<forall>n m. length (view n) + length (view m) \<le> 64 \<longrightarrow>
        (\<exists>k. nib_extend N n m = Some k \<and> view k = view n @ view m)) \<and>
     (\<forall>n. even (length (view n)) \<longrightarrow> nib_pack N n = pack_pairs (view n))"

lemma nib_pushD: "nib_laws N view \<Longrightarrow> x < 16 \<Longrightarrow> length (view n) < 64 \<Longrightarrow>
    \<exists>n'. nib_push N n x = Some n' \<and> view n' = view n @ [x]"
  by (simp add: nib_laws_def)

text \<open>The leaves of a trie with their paths, in the order of the walk.\<close>

fun leaf_paths :: "mpt \<Rightarrow> (u8 list \<times> bytes) list" where
  "leaf_paths (MptNode (Leaf p v) c) = [(the (prefix_nibs p), v)]"
| "leaf_paths (MptNode (Extension p n) c) =
     map (\<lambda>(ks, v). (the (prefix_nibs p) @ ks, v)) (leaf_paths n)"
| "leaf_paths (MptNode (Branch cs) c) =
     concat (rev (map (\<lambda>(i, leaves). map (\<lambda>(ks, v). (of_nat i # ks, v)) leaves)
       (enumerate 0 (map (\<lambda>child. case child of None \<Rightarrow> [] | Some n \<Rightarrow> leaf_paths n) cs))))"
| "leaf_paths (MptNode d c) = []"

abbreviation calls_at :: "u8 list \<Rightarrow> (u8 list \<times> bytes) list \<Rightarrow> (bytes \<times> bytes) list" where
  "calls_at path \<equiv> map (\<lambda>(ks, v). (pack_pairs (path @ ks), v))"

abbreviation child_leaves :: "nat \<Rightarrow> mpt option list \<Rightarrow> (u8 list \<times> bytes) list" where
  "child_leaves i cs \<equiv> concat (rev (map (\<lambda>(i, leaves). map (\<lambda>(ks, v). (of_nat i # ks, v)) leaves)
     (enumerate i (map (\<lambda>child. case child of None \<Rightarrow> [] | Some n \<Rightarrow> leaf_paths n) cs))))"

definition walks :: "'n nib_ext \<Rightarrow> ('n \<Rightarrow> u8 list) \<Rightarrow> mpt \<Rightarrow> nat \<Rightarrow> bool" where
  "walks N view t L \<longleftrightarrow> (\<forall>path stack r. length (view path) + L = 64 \<longrightarrow> walk N stack = Some r \<longrightarrow>
     walk N ((t, path) # stack) = Some (calls_at (view path) (leaf_paths t) @ r))"

lemma calls_at_cons: "calls_at path (map (\<lambda>(ks, v). (x # ks, v)) ls) = calls_at (path @ [x]) ls"
  by auto

lemma walk_children:
  assumes laws: "nib_laws N view" and len: "length (view path) + L = 64" "0 < L"
    and ch: "\<And>n. Some n \<in> set cs \<Longrightarrow> walks N view n (L - 1)"
  shows "i + length cs \<le> 16 \<Longrightarrow> walk N stack = Some r \<Longrightarrow>
    \<exists>stack'. push_children N path (occupied i cs) stack = Some stack' \<and>
      walk N stack' = Some (calls_at (view path) (child_leaves i cs) @ r)"
  using ch
proof (induction i cs arbitrary: stack r rule: occupied.induct)
  case (3 i n cs)
  have "(of_nat i :: u8) < 16" using "3.prems"(1) by (intro nibble_of_nat) simp
  then obtain path' where path': "nib_push N path (of_nat i) = Some path'" "view path' = view path @ [of_nat i]"
    using nib_pushD [OF laws, of "of_nat i" path] len by auto
  have "walks N view n (L - 1)" using "3.prems"(3) by simp
  then have "walk N ((n, path') # stack) = Some (calls_at (view path') (leaf_paths n) @ r)"
    using "3.prems"(2) len path'(2) by (simp add: walks_def)
  from "3.IH" [OF _ this] obtain stack' where
    "push_children N path (occupied (Suc i) cs) ((n, path') # stack) = Some stack'"
    "walk N stack' = Some (calls_at (view path) (child_leaves (Suc i) cs) @ calls_at (view path') (leaf_paths n) @ r)"
    using "3.prems" by auto
  then show ?case by (simp add: path' calls_at_cons del: map_map)
qed auto

lemma extend_path_ok:
  assumes "nib_laws N view" and "prefix_nibs p = Some ss" and "nibbles ss"
    and "length (view path) + length ss \<le> 64"
  obtains path' where "extend_path N path p = Some path'" "view path' = view path @ ss"
proof -
  from assms obtain m where "nib_from_nibbles N ss = Some m" "view m = ss"
    unfolding nib_laws_def by (metis le_add2 le_trans)
  moreover from this obtain k where "nib_extend N path m = Some k" "view k = view path @ ss"
    using assms unfolding nib_laws_def by metis
  ultimately show thesis using that assms(2) by (simp add: extend_path_def)
qed

lemma walk_correct:
  assumes laws: "nib_laws N view"
  shows "canon t \<Longrightarrow> fixed_len L t \<Longrightarrow> walks N view t L"
proof (induction t arbitrary: L rule: mpt_induct)
  case (Branch cs c)
  have "walks N view n (L - 1)" if n: "Some n \<in> set cs" for n
    using Branch n by (auto simp: in_set_conv_nth list_all_children)
  then show ?case
    using walk_children [OF laws, of _ L cs 0] Branch.prems
    unfolding walks_def by (fastforce split: option.splits)
next
  case (Leaf p v c)
  then obtain ss where ss: "prefix_nibs p = Some ss" "nibbles ss" "length ss = L"
    by (auto elim!: valid_pathE)
  show ?case
    unfolding walks_def
  proof (intro allI impI)
    fix path stack r
    assume len: "length (view path) + L = 64" and r: "walk N stack = Some r"
    obtain path' where path': "extend_path N path p = Some path'" "view path' = view path @ ss"
      using extend_path_ok [OF laws ss(1,2), of path] len ss(3) by auto
    moreover have "nib_pack N path' = pack_pairs (view path')"
      using laws path'(2) ss(3) len unfolding nib_laws_def by simp
    ultimately show "walk N ((MptNode (Leaf p v) c, path) # stack) =
        Some (calls_at (view path) (leaf_paths (MptNode (Leaf p v) c)) @ r)"
      using r ss(1) by simp
  qed
next
  case (Extension p n c)
  then obtain ss where ss: "prefix_nibs p = Some ss" "nibbles ss" "length ss \<le> L"
    by (auto elim!: valid_pathE)
  have n: "walks N view n (L - length ss)" using Extension ss by simp
  show ?case
    unfolding walks_def
  proof (intro allI impI)
    fix path stack r
    assume len: "length (view path) + L = 64" and r: "walk N stack = Some r"
    obtain path' where path': "extend_path N path p = Some path'" "view path' = view path @ ss"
      using extend_path_ok [OF laws ss(1,2), of path] len ss(3) by auto
    then have "walk N ((n, path') # stack) = Some (calls_at (view path') (leaf_paths n) @ r)"
      using n r len ss(3) by (simp add: walks_def)
    then show "walk N ((MptNode (Extension p n) c, path) # stack) =
        Some (calls_at (view path) (leaf_paths (MptNode (Extension p n) c)) @ r)"
      using path' ss(1) by (simp add: comp_def case_prod_beta)
  qed
qed (simp_all add: walks_def)

text \<open>The leaves are the keys that \<open>get\<close> finds.\<close>

lemma child_leaves_iff:
  "(ks, v) \<in> set (child_leaves i cs) \<longleftrightarrow> (\<exists>j n tail. j < length cs \<and> cs ! j = Some n \<and>
    ks = of_nat (i + j) # tail \<and> (tail, v) \<in> set (leaf_paths n))"
proof (induction cs arbitrary: i)
  case (Cons x cs)
  have "(ks, v) \<in> set (child_leaves i (x # cs)) \<longleftrightarrow> (ks, v) \<in> set (child_leaves (Suc i) cs) \<or>
      (\<exists>n tail. x = Some n \<and> ks = of_nat i # tail \<and> (tail, v) \<in> set (leaf_paths n))"
    by (cases x) auto
  then show ?case unfolding Cons.IH by (auto simp: less_Suc_eq_0_disj)
qed simp

lemma leaf_paths_get:
  "canon t \<Longrightarrow> (ks, v) \<in> set (leaf_paths t) \<longleftrightarrow> nibbles ks \<and> get_internal t ks = Ok (Some v)"
proof (induction t arbitrary: ks rule: mpt_induct)
  case (Branch cs c)
  have len: "length cs = 16" using Branch.prems by simp
  have ch: "(tail, v) \<in> set (leaf_paths n) \<longleftrightarrow> nibbles tail \<and> get_internal n tail = Ok (Some v)"
    if "j < 16" "cs ! j = Some n" for j n tail
    using Branch.IH [of j n tail] Branch.prems that len by (auto simp: list_all_children)
  have "(ks, v) \<in> set (leaf_paths (MptNode (Branch cs) c)) \<longleftrightarrow>
      (\<exists>j n tail. j < 16 \<and> cs ! j = Some n \<and> ks = of_nat j # tail \<and> (tail, v) \<in> set (leaf_paths n))"
    using child_leaves_iff [of ks v 0 cs] len by (simp del: set_concat set_rev)
  also have "\<dots> \<longleftrightarrow> (\<exists>j n tail. j < 16 \<and> cs ! j = Some n \<and> ks = of_nat j # tail \<and>
      nibbles tail \<and> get_internal n tail = Ok (Some v))"
    using ch by blast
  also have "\<dots> \<longleftrightarrow> nibbles ks \<and> get_internal (MptNode (Branch cs) c) ks = Ok (Some v)"
  proof (cases ks)
    case (Cons i tail)
    show ?thesis
      using len by (auto simp: Cons nibble_of_nat nibble_unat split: option.splits)
  qed simp
  finally show ?case .
next
  case (Leaf p v' c)
  then show ?case by (auto elim!: valid_pathE split: if_splits)
next
  case (Extension p n c)
  then obtain ss where "prefix_nibs p = Some ss" "nibbles ss" "canon n" by (auto elim: valid_pathE)
  then have ext: "prefix_nibs p = Some ss" "nibbles ss"
    and IH: "(tail, v) \<in> set (leaf_paths n) \<longleftrightarrow> nibbles tail \<and> get_internal n tail = Ok (Some v)" for tail
    using Extension.IH by simp_all
  have "(ks, v) \<in> set (leaf_paths (MptNode (Extension p n) c)) \<longleftrightarrow>
      (\<exists>tail. ks = ss @ tail \<and> (tail, v) \<in> set (leaf_paths n))"
    using ext by force
  then show ?case
    using ext unfolding IH by (auto simp: strip_prefix_Some split: option.splits)
qed simp_all

lemma get_fixed_len: "fixed_len L t \<Longrightarrow> get_internal t ks = Ok (Some v) \<Longrightarrow> length ks = L"
proof (induction t arbitrary: ks L rule: mpt_induct)
  case (Branch cs c)
  show ?case
  proof (cases ks)
    case (Cons i tail)
    then obtain n where n: "unat i < length cs" "cs ! unat i = Some n" "get_internal n tail = Ok (Some v)"
      using Branch.prems(2) by (auto split: if_splits option.splits)
    then have "fixed_len (L - 1) n" "0 < L" using Branch.prems(1) by (auto simp: list_all_children)
    then show ?thesis using Branch.IH [OF n(1,2)] n(3) by (fastforce simp: Cons)
  qed (use Branch.prems(2) in simp)
next
  case (Extension p n c)
  then obtain ss tail where ss: "prefix_nibs p = Some ss" "ks = ss @ tail" "get_internal n tail = Ok (Some v)"
    by (auto simp: strip_prefix_Some split: option.splits)
  then show ?case using Extension.IH [of "L - length ss" tail] Extension.prems(1) by simp
qed (auto split: option.splits if_splits)

lemma for_each_leaves_correct:
  assumes "nib_laws N view" and "trie_inv 64 t"
  obtains calls where "for_each_leaves N t = Some calls"
    "\<And>key v. length key = 32 \<Longrightarrow> (key, v) \<in> set calls \<longleftrightarrow> get t key = Ok (Some v)"
proof -
  have view: "view (nib_default N) = []" using assms(1) by (simp add: nib_laws_def)
  have leaf: "walk N [(t, nib_default N)] = Some (calls_at [] (leaf_paths t))"
  proof (cases "is_empty t")
    case True
    then show ?thesis by (cases t rule: canon.cases) simp_all
  next
    case False
    then have "walks N view t 64"
      using walk_correct [OF assms(1)] assms(2) by (simp add: trie_inv_def wf_trie_def)
    then show ?thesis using view by (simp add: walks_def)
  qed
  moreover have "(key, v) \<in> set (calls_at [] (leaf_paths t)) \<longleftrightarrow> get t key = Ok (Some v)" for key v
  proof (cases "is_empty t")
    case True
    then show ?thesis by (cases t rule: canon.cases) (simp_all add: get_def)
  next
    case False
    then have c: "canon t" "fixed_len 64 t" using assms(2) by (simp_all add: trie_inv_def wf_trie_def)
    have pack: "key = pack_pairs ks \<longleftrightarrow> ks = to_nibs key" if "(ks, v) \<in> set (leaf_paths t)" for ks
    proof -
      have "nibbles ks" "length ks = 64"
        using that leaf_paths_get [OF c(1)] get_fixed_len [OF c(2)] by blast+
      then have "to_nibs (pack_pairs ks) = ks" by (simp add: to_nibs_def unpack_pack_pairs)
      then show ?thesis by auto
    qed
    have "(key, v) \<in> set (calls_at [] (leaf_paths t)) \<longleftrightarrow> (to_nibs key, v) \<in> set (leaf_paths t)"
      using pack by (force simp: image_iff)
    then show ?thesis using leaf_paths_get [OF c(1)] by (simp add: get_def)
  qed
  ultimately show thesis using that by (simp add: for_each_leaves_def)
qed

end
