(* ===== verification/Rlp_Instance.thy ===== *)
theory Rlp_Instance
  imports Mpt_Decode
begin

text \<open>
  A concrete instance of the third-party functions, on which the witnesses evaluate: the RLP
  writer and reader of the Ethereum specification, proved to satisfy every law that the
  theorems assume, and a small digest (of the length and the last byte) in the place of \<open>keccak256\<close>.
\<close>

section \<open>Lengths in big-endian bytes\<close>

fun be_nat :: "nat \<Rightarrow> bytes" where
  "be_nat n = (if n = 0 then [] else be_nat (n div 256) @ [of_nat (n mod 256)])"

declare be_nat.simps [simp del]

definition nat_be :: "bytes \<Rightarrow> nat" where
  "nat_be bs = foldl (\<lambda>n b. 256 * n + unat b) 0 bs"

lemma unat_byte: "unat (of_nat (n mod 256) :: u8) = n mod 256"
  by (simp add: unat_of_nat)

lemma nat_be_be_nat [simp]: "nat_be (be_nat n) = n"
proof (induction n rule: be_nat.induct)
  case (1 n)
  show ?case
  proof (cases "n = 0")
    case False
    then have "nat_be (be_nat n) = 256 * nat_be (be_nat (n div 256)) + n mod 256"
      by (subst be_nat.simps) (simp add: nat_be_def unat_byte)
    then show ?thesis using 1 False by simp
  qed (simp add: nat_be_def be_nat.simps)
qed

lemma length_be_nat: "n < 256 ^ k \<Longrightarrow> length (be_nat n) \<le> k"
proof (induction k arbitrary: n)
  case (Suc k)
  then have "n div 256 < 256 ^ k" by (simp add: less_mult_imp_div_less mult.commute)
  then show ?case using Suc.IH [of "n div 256"] by (subst be_nat.simps) simp
qed (simp add: be_nat.simps)

lemma size_be_nat: "size_ok n \<Longrightarrow> length (be_nat n) \<le> 8"
  using length_be_nat [of n 8] by (simp add: size_ok_def)

lemma be_nat_pos: "0 < n \<Longrightarrow> 0 < length (be_nat n)"
  by (subst be_nat.simps) simp

section \<open>The writer\<close>

definition w_prefix :: "u8 \<Rightarrow> u8 \<Rightarrow> nat \<Rightarrow> bytes" where
  "w_prefix short long n =
     (if n \<le> 55 then [short + of_nat n]
      else (long + of_nat (length (be_nat n))) # be_nat n)"

definition w_slice :: "bytes \<Rightarrow> bytes" where
  "w_slice bs = (if length bs = 1 \<and> hd bs < 0x80 then bs else w_prefix 0x80 0xb7 (length bs) @ bs)"

definition w_header :: "bool \<Rightarrow> nat \<Rightarrow> bytes" where
  "w_header is_list n = (if is_list then w_prefix 0xc0 0xf7 n else w_prefix 0x80 0xb7 n)"

section \<open>The reader\<close>

text \<open>The header of the first item: whether it is a list, the header's and payload's lengths.\<close>

fun r_header :: "bytes \<Rightarrow> bool \<times> nat \<times> nat" where
  "r_header [] = (False, 0, 0)"
| "r_header (b # rest) =
     (let n = unat b in
      if n < 0x80 then (False, 0, 1)
      else if n < 0xb8 then (False, 1, n - 0x80)
      else if n < 0xc0 then (False, 1 + (n - 0xb7), nat_be (take (n - 0xb7) rest))
      else if n < 0xf8 then (True, 1, n - 0xc0)
      else (True, 1 + (n - 0xf7), nat_be (take (n - 0xf7) rest)))"

definition r_total :: "bytes \<Rightarrow> nat" where
  "r_total bs = (case r_header bs of (_, h, p) \<Rightarrow> h + p)"

function r_split :: "bytes \<Rightarrow> bytes list" where
  "r_split bs = (if r_total bs = 0 \<or> bs = [] then []
     else take (r_total bs) bs # r_split (drop (r_total bs) bs))"
  by pat_completeness auto
termination by (relation "measure length") auto

declare r_split.simps [simp del]

definition r_payload :: "bytes \<Rightarrow> bytes" where
  "r_payload bs = (case r_header bs of (_, h, p) \<Rightarrow> take p (drop h bs))"

definition r_iter :: "bytes \<Rightarrow> bytes list" where
  "r_iter bs = (if fst (r_header bs) then r_split (r_payload bs) else [])"

definition r_prototype :: "bytes \<Rightarrow> (decoder_error, prototype) res" where
  "r_prototype bs = (if bs = [] then Ok PNull
     else if fst (r_header bs) then Ok (PList (length (r_iter bs)))
     else Ok (PData (length (r_payload bs))))"

definition r_at :: "bytes \<Rightarrow> nat \<Rightarrow> (decoder_error, bytes) res" where
  "r_at bs i = (if i < length (r_iter bs) then Ok (r_iter bs ! i)
     else Err (OtherDecoderError ''RlpIsTooShort''))"

definition r_as_val :: "bytes \<Rightarrow> (decoder_error, bytes) res" where
  "r_as_val bs = (if fst (r_header bs) then Err (OtherDecoderError ''RlpExpectedToBeData'')
     else Ok (r_payload bs))"

definition r_val_at :: "bytes \<Rightarrow> nat \<Rightarrow> (decoder_error, bytes) res" where
  "r_val_at bs i = res_bind (r_at bs i) r_as_val"

definition toy_digest :: "bytes \<Rightarrow> b256" where
  "toy_digest bs = (if bs = [0x80] then EMPTY_ROOT else if bs = [] then 0
     else of_nat (256 * length bs) + ucast (last bs))"

definition example_ext :: mpt_ext where
  "example_ext = \<lparr>
     keccak256 = toy_digest,
     empty_string_code = 0x80,
     header_encode = w_header,
     slice_encode = w_slice,
     slice_length = (\<lambda>bs. length (w_slice bs)),
     b256_encode = (\<lambda>d. w_slice (b256_slice d)),
     length_of_length = (\<lambda>n. length (w_header True n)),
     rlp_prototype = r_prototype,
     rlp_at = r_at,
     rlp_val_at = r_val_at,
     rlp_as_val = r_as_val,
     rlp_iter = r_iter \<rparr>"

section \<open>The reader inverts the writer\<close>

lemma r_header_prefix_short:
  "n \<le> 55 \<Longrightarrow> r_header (w_prefix 0x80 0xb7 n @ rest) = (False, length (w_prefix 0x80 0xb7 n), n)"
  "n \<le> 55 \<Longrightarrow> r_header (w_prefix 0xc0 0xf7 n @ rest) = (True, length (w_prefix 0xc0 0xf7 n), n)"
  by (simp_all add: w_prefix_def Let_def unat_word_ariths unat_of_nat)

lemma r_header_prefix_long:
  assumes "\<not> n \<le> 55" and "size_ok n"
  shows "r_header (w_prefix 0x80 0xb7 n @ rest) = (False, length (w_prefix 0x80 0xb7 n), n)"
    "r_header (w_prefix 0xc0 0xf7 n @ rest) = (True, length (w_prefix 0xc0 0xf7 n), n)"
proof -
  define l where "l = length (be_nat n)"
  have l: "0 < l" "l \<le> 8" using assms be_nat_pos size_be_nat by (simp_all add: l_def)
  have u: "unat (0xb7 + of_nat l :: u8) = 0xb7 + l" "unat (0xf7 + of_nat l :: u8) = 0xf7 + l"
    using l by (simp_all add: unat_word_ariths unat_of_nat)
  show "r_header (w_prefix 0x80 0xb7 n @ rest) = (False, length (w_prefix 0x80 0xb7 n), n)"
    "r_header (w_prefix 0xc0 0xf7 n @ rest) = (True, length (w_prefix 0xc0 0xf7 n), n)"
    using assms(1) l u by (simp_all add: w_prefix_def l_def [symmetric] Let_def)
qed

lemmas r_header_prefix = r_header_prefix_short r_header_prefix_long

lemma r_header_slice:
  assumes "size_ok (length bs)"
  shows "\<exists>h. r_header (w_slice bs @ rest) = (False, h, length bs) \<and>
    length (w_slice bs) = h + length bs \<and> drop h (w_slice bs) = bs"
proof (cases "length bs = 1 \<and> hd bs < 0x80")
  case True
  then obtain b where "bs = [b]" "unat b < 0x80"
    by (cases bs) (auto simp: word_less_nat_alt)
  then show ?thesis by (simp add: w_slice_def word_less_nat_alt Let_def)
next
  case False
  have "r_header (w_prefix 0x80 0xb7 (length bs) @ bs @ rest) =
      (False, length (w_prefix 0x80 0xb7 (length bs)), length bs)"
    using r_header_prefix(1,3) assms by (cases "length bs \<le> 55") auto
  then show ?thesis using False by (auto simp: w_slice_def)
qed

lemma r_header_list:
  assumes "size_ok n"
  shows "r_header (w_header True n @ rest) = (True, length (w_header True n), n)"
  using r_header_prefix(2,4) assms by (cases "n \<le> 55") (auto simp: w_header_def)

lemma w_slice_nonempty: "w_slice bs \<noteq> []"
  by (cases bs) (auto simp: w_slice_def w_prefix_def)

lemma w_header_nonempty: "w_header l n \<noteq> []"
  by (auto simp: w_header_def w_prefix_def)

lemma r_total_item:
  assumes "rlp_item example_ext i"
  shows "r_total (i @ rest) = length i" "i \<noteq> []"
proof -
  show "r_total (i @ rest) = length i"
    using assms
  proof cases
    case (string bs)
    then obtain h where "r_header (i @ rest) = (False, h, length bs)" "length i = h + length bs"
      using r_header_slice [of bs rest] by (auto simp: example_ext_def)
    then show ?thesis by (simp add: r_total_def)
  next
    case (list items)
    then show ?thesis using r_header_list [of "length (concat items)" "concat items @ rest"]
      by (simp add: r_total_def rlp_list_def example_ext_def)
  qed
  show "i \<noteq> []"
    using assms
    by cases (auto simp: example_ext_def rlp_list_def w_slice_nonempty w_header_nonempty)
qed

lemma r_split_concat:
  "(\<And>i. i \<in> set items \<Longrightarrow> rlp_item example_ext i) \<Longrightarrow> r_split (concat items) = items"
proof (induction items)
  case (Cons i items)
  have "r_total (i @ concat items) = length i" "i \<noteq> []"
    using Cons.prems r_total_item by simp_all
  then show ?case using Cons by (subst r_split.simps) simp
qed (simp add: r_split.simps)

lemma example_list:
  assumes "\<And>i. i \<in> set items \<Longrightarrow> rlp_item example_ext i" and "size_ok (length (concat items))"
  shows "r_iter (rlp_list example_ext items) = items" "fst (r_header (rlp_list example_ext items))"
    "rlp_list example_ext items \<noteq> []"
proof -
  have h: "r_header (rlp_list example_ext items) =
      (True, length (w_header True (length (concat items))), length (concat items))"
    using r_header_list [OF assms(2), of "concat items"] by (simp add: rlp_list_def example_ext_def)
  then have "r_payload (rlp_list example_ext items) = concat items"
    by (simp add: r_payload_def rlp_list_def example_ext_def)
  then show "r_iter (rlp_list example_ext items) = items"
    using h r_split_concat [OF assms(1)] by (simp add: r_iter_def)
  show "fst (r_header (rlp_list example_ext items))" using h by simp
  show "rlp_list example_ext items \<noteq> []"
    by (simp add: rlp_list_def example_ext_def w_header_nonempty)
qed

lemma example_string:
  assumes "size_ok (length bs)"
  shows "r_payload (w_slice bs) = bs" "\<not> fst (r_header (w_slice bs))"
  using r_header_slice [OF assms, of "[]"] by (auto simp: r_payload_def)

lemma example_rlp_laws: "rlp_laws example_ext"
proof -
  have strings: "r_prototype (w_slice bs) = Ok (PData (length bs)) \<and> r_as_val (w_slice bs) = Ok bs"
    if "size_ok (length bs)" for bs
    using example_string [OF that] by (simp add: r_prototype_def r_as_val_def w_slice_nonempty)
  have lists: "r_prototype (rlp_list example_ext items) = Ok (PList (length items)) \<and>
      r_iter (rlp_list example_ext items) = items \<and>
      (\<forall>i < length items. r_at (rlp_list example_ext items) i = Ok (items ! i))"
    if "\<forall>i \<in> set items. rlp_item example_ext i" "size_ok (length (concat items))" for items
    using example_list [of items] that by (simp add: r_prototype_def r_at_def)
  have "w_slice bs = (0x80 + 32) # bs" if "length bs = 32" for bs
    using that by (simp add: w_slice_def w_prefix_def)
  then show ?thesis
    unfolding rlp_laws_def using strings lists
    by (simp add: example_ext_def r_val_at_def w_slice_def w_prefix_def)
qed

lemma example_length_laws: "length_laws example_ext"
  by (simp add: length_laws_def example_ext_def w_slice_def w_header_def w_prefix_def)

lemma r_split_length: "b \<in> set (r_split bs) \<Longrightarrow> length b \<le> length bs"
proof (induction bs rule: r_split.induct)
  case (1 bs)
  show ?case using 1 by (cases "r_total bs = 0 \<or> bs = []") (auto simp: r_split.simps [of bs])
qed

lemma r_iter_shorter: "b \<in> set (r_iter bs) \<Longrightarrow> length b < length bs"
proof -
  assume b: "b \<in> set (r_iter bs)"
  obtain l h p where h: "r_header bs = (l, h, p)" by (cases "r_header bs")
  with b have l: "l" "b \<in> set (r_split (take p (drop h bs)))"
    by (auto simp: r_iter_def r_payload_def split: if_splits)
  then have "0 < h" "bs \<noteq> []" using h by (cases bs; auto simp: Let_def split: if_splits)+
  then show ?thesis using r_split_length [OF l(2)] by (cases bs) auto
qed

lemma example_rlp_shrinks: "rlp_shrinks example_ext"
  using r_iter_shorter
  by (auto simp: rlp_shrinks_def example_ext_def r_at_def split: if_splits)

lemma example_empty_root: "keccak256 example_ext [empty_string_code example_ext] = EMPTY_ROOT"
  by (simp add: example_ext_def toy_digest_def)

lemmas example_laws = example_rlp_laws example_length_laws example_rlp_shrinks example_empty_root

end
