(* ===== verification/Mpt_Properties.thy ===== *)
theory Mpt_Properties
  imports Mpt_Interface Mpt_Conflicts Mpt_Auth Mpt_Kinds Mpt_Proofs Eth_Update Trie_Walk Rlp_Instance
begin

text \<open>
  The properties of \<open>crates/mpt/src/mpt.rs\<close>, each with a concrete instance. The examples use
  the RLP reader and writer and the digest of \<open>Rlp_Instance\<close>, and tries small enough to
  evaluate.
\<close>

section \<open>Example tries\<close>

text \<open>
  A branch with two leaves, and the same trie with its second leaf left out: its digest
  stands in its place.
\<close>

definition leaf_a :: mpt where
  "leaf_a = node_of (Leaf [0x32] (replicate 30 5))"

definition leaf_b :: mpt where
  "leaf_b = node_of (Leaf [0x34] (replicate 31 7))"

definition ex_branch :: "(nat \<times> mpt) list \<Rightarrow> mpt" where
  "ex_branch cs = node_of (Branch (map (map_of cs) [0..<16]))"

definition ex_trie :: mpt where
  "ex_trie = ex_branch [(1, leaf_a), (9, leaf_b)]"

definition ex_blinded :: mpt where
  "ex_blinded = ex_branch [(1, leaf_a), (9, node_of (Digest (hash example_ext leaf_b)))]"

lemmas ex_trie_defs = ex_trie_def ex_blinded_def ex_branch_def leaf_a_def leaf_b_def node_of_def

lemma example_sel [simp]:
  "keccak256 example_ext = toy_digest" "empty_string_code example_ext = 0x80"
  "header_encode example_ext = w_header" "slice_encode example_ext = w_slice"
  "slice_length example_ext = (\<lambda>bs. length (w_slice bs))"
  "b256_encode example_ext = (\<lambda>d. w_slice (b256_slice d))"
  "length_of_length example_ext = (\<lambda>n. length (w_header True n))"
  by (simp_all add: example_ext_def)

lemma be_nat_one: "0 < n \<Longrightarrow> n < 256 \<Longrightarrow> be_nat n = [of_nat n]"
  by (subst be_nat.simps) (simp add: be_nat.simps)

lemmas ex_writer = w_slice_def w_header_def w_prefix_def be_nat_one

lemma ex_coherent: "coherent X ex_trie" "coherent X ex_blinded" "coherent X leaf_a" "coherent X leaf_b"
  by (simp_all add: ex_trie_defs upt_rec)

lemma ex_wf: "wf_trie ex_trie" "fixed_len 2 ex_trie" "wf_trie ex_blinded" "fixed_len 2 ex_blinded"
  by code_simp+

lemma ex_kinded: "well_kinded leaf_a" "well_kinded leaf_b" "well_kinded ex_trie" "well_kinded ex_blinded"
  by code_simp+

lemma ex_refs:
  "reference example_ext leaf_a = RefDigest (256 * 33 + 5)"
  "reference example_ext leaf_b = RefDigest (256 * 34 + 7)"
  by (simp_all add: leaf_a_def leaf_b_def node_of_def calc_reference_def ex_writer keccak_def toy_digest_def)

lemma ex_digest: "hash example_ext leaf_b = 256 * 34 + 7"
  using ex_refs(2) by (simp add: hash_def leaf_b_def node_of_def)

definition ex_root_refs :: "mpt_ref node_data" where
  "ex_root_refs = Branch (map (map_of [(1, RefDigest (256 * 33 + 5)), (9, RefDigest (256 * 34 + 7))]) [0..<16])"

lemma ex_erase: "erase leaf_a = leaf_a" "erase leaf_b = leaf_b" "erase ex_trie = ex_trie" "erase ex_blinded = ex_blinded"
  by (simp_all add: ex_trie_defs upt_rec)

lemma ex_root: "map_node_data (reference example_ext) (data ex_trie) = ex_root_refs"
  "map_node_data (reference example_ext) (data ex_blinded) = ex_root_refs"
  by (simp_all add: ex_trie_def ex_blinded_def ex_branch_def ex_root_refs_def ex_refs ex_digest upt_rec
      node_of_def calc_reference_def)

lemma ex_root_encoded: "encode example_ext ex_trie = encode example_ext ex_blinded"
  by (simp add: encode_def refs_def ex_root)

lemma ex_hash: "hash example_ext ex_trie = hash example_ext ex_blinded"
  by (simp add: hash_def) (simp add: ex_trie_def ex_blinded_def ex_branch_def node_of_def
      ex_root [unfolded ex_trie_def ex_blinded_def ex_branch_def node_of_def, simplified])

lemma ex_root_length: "payload_length example_ext ex_root_refs = 81"
  by (simp add: ex_root_refs_def upt_rec)

lemma ex_root_bytes: "length (encode example_ext ex_trie) = 83" "last (encode example_ext ex_trie) = 0x80"
proof -
  have e: "encode example_ext ex_trie = encode_refs example_ext ex_root_refs"
    by (simp add: encode_def refs_def ex_root)
  show "length (encode example_ext ex_trie) = 83"
    using length_encode_refs [OF example_length_laws] ex_root_length by (simp add: e ex_writer)
  show "last (encode example_ext ex_trie) = 0x80"
    unfolding e ex_root_refs_def by simp
qed

lemma ex_keccak:
  "toy_digest (encode example_ext ex_trie) = 256 * 83 + 0x80"
  "toy_digest (encode example_ext leaf_a) = 256 * 33 + 5"
  "toy_digest (encode example_ext leaf_b) = 256 * 34 + 7"
proof -
  show "toy_digest (encode example_ext ex_trie) = 256 * 83 + 0x80"
    using ex_root_bytes by (auto simp: toy_digest_def)
qed (simp_all add: encode_def refs_def leaf_a_def leaf_b_def node_of_def ex_writer toy_digest_def)

lemma ex_encodings:
  "encodings example_ext ex_trie = [encode example_ext ex_trie, encode example_ext leaf_a, encode example_ext leaf_b]"
  "encodings example_ext ex_blinded = [encode example_ext ex_trie, encode example_ext leaf_a]"
proof -
  have l: "encodings example_ext leaf_a = [encode example_ext leaf_a]" "encodings example_ext leaf_b = [encode example_ext leaf_b]"
    using ex_erase by (simp_all add: leaf_a_def leaf_b_def node_of_def)
  have b: "encodings example_ext (ex_branch [(1, leaf_a), (9, n)]) =
      encode example_ext (erase (ex_branch [(1, leaf_a), (9, n)])) # encodings example_ext leaf_a @ encodings example_ext n" for n
    by (simp only: ex_branch_def node_of_def encodings.simps list.inject simp_thms) (simp add: upt_rec)
  show "encodings example_ext ex_trie = [encode example_ext ex_trie, encode example_ext leaf_a, encode example_ext leaf_b]"
    using b [of leaf_b] ex_erase(3) by (simp add: l ex_trie_def)
  show "encodings example_ext ex_blinded = [encode example_ext ex_trie, encode example_ext leaf_a]"
    using b [of "node_of (Digest (hash example_ext leaf_b))"] ex_erase(4) ex_root_encoded
    by (simp add: l ex_blinded_def) (simp add: node_of_def)
qed

lemma ex_collision_free: "collision_free example_ext
   ([empty_string_code example_ext] # encodings example_ext ex_trie @ encodings example_ext ex_blinded)"
proof -
  have "toy_digest [0x80] = EMPTY_ROOT" by (simp add: toy_digest_def)
  then show ?thesis using ex_keccak by (auto simp: collision_free_def ex_encodings EMPTY_ROOT_def)
qed

lemma ex_sized: "sized example_ext leaf_a" "sized example_ext leaf_b"
  "sized example_ext ex_trie" "sized example_ext ex_blinded"
proof -
  show l: "sized example_ext leaf_a" "sized example_ext leaf_b"
    by (simp_all add: leaf_a_def leaf_b_def node_of_def ex_writer)
  have d: "sized example_ext (node_of (Digest h))" for h by (simp add: node_of_def)
  have b: "sized example_ext (MptNode (Branch cs) c)" if "\<forall>n. Some n \<in> set cs \<longrightarrow> sized example_ext n"
    "map_node_data (\<lambda>n. reference example_ext (erase n)) (Branch cs) = ex_root_refs" for cs c
    using that ex_root_length by (auto simp: ball_Un)
  show "sized example_ext ex_trie"
    unfolding ex_trie_def ex_branch_def node_of_def
    by (rule b) (auto simp: l ex_root_refs_def ex_erase ex_refs upt_rec)
  show "sized example_ext ex_blinded"
    unfolding ex_blinded_def ex_branch_def node_of_def
    by (rule b) (auto simp: l ex_root_refs_def ex_erase ex_refs upt_rec ex_digest calc_reference_def d [unfolded node_of_def])
qed

section \<open>Reads and writes\<close>

text \<open>
  C9. Authenticated reads: two sparse tries with the same root hash, whose nodes are of the kind
  their paths are flagged with, never answer a lookup differently, unless \<open>keccak256\<close> collides on
  their nodes. A subtree may be present in one and replaced by its digest in the other. Canonical
  tries and all tries the decoder returns have such nodes.
\<close>

theorem authenticated_reads:
  assumes "rlp_laws X" and "length_laws X" and "keccak256 X [empty_string_code X] = EMPTY_ROOT"
    and "well_kinded a" and "sized X a" and "coherent X a" and "well_kinded b" and "sized X b" and "coherent X b"
    and "collision_free X ([empty_string_code X] # encodings X a @ encodings X b)"
    and "hash X a = hash X b" and "get a key = Ok x" and "get b key = Ok y"
  shows "x = y"
  using same_hash_reads [OF assms(1-11), of "to_nibs key" x y] assms(12,13) by (simp add: get_def)

theorem authenticated_reads_witness:
  "\<exists>x y. get ex_trie [0x12] = Ok x \<and> get ex_blinded [0x12] = Ok y \<and> x = y"
proof -
  have "get ex_trie [0x12] = Ok (Some (replicate 30 5))" "get ex_blinded [0x12] = Ok (Some (replicate 30 5))"
    by code_simp+
  then obtain x y where r: "get ex_trie [0x12] = Ok x" "get ex_blinded [0x12] = Ok y" by blast
  have "x = y"
    by (rule authenticated_reads [OF example_rlp_laws example_length_laws example_empty_root
      ex_kinded(3) ex_sized(3) ex_coherent(1) ex_kinded(4) ex_sized(4)
      ex_coherent(2) ex_collision_free ex_hash r])
  then show ?thesis using r by blast
qed

lemma insert_by_lookup:
  assumes "wf_trie t" and "v \<noteq> []"
  shows "case get t key of
      Ok x \<Rightarrow>
        (if conflicts t (to_nibs key) then insert t key v = (t, Err ValueInBranch)
         else \<exists>t'. insert t key v = (t', Ok (x \<noteq> Some v)) \<and> wf_trie t' \<and> (x = Some v \<longrightarrow> t' = t) \<and>
           (\<forall>key'. get t' key' = (if key' = key then Ok (Some v) else get t key'))) \<and>
        (x \<noteq> None \<longrightarrow> \<not> conflicts t (to_nibs key))
    | Err e \<Rightarrow> insert t key v = (t, Err e)
    | Panic \<Rightarrow> False"
proof -
  have ks: "nibbles (to_nibs key)" by simp
  obtain t' r where r: "insert_internal t (to_nibs key) v = (t', r)" by fastforce
  have out: "insert_outcome t (to_nibs key) v" by (rule insert_internal_outcome [OF assms(1) ks])
  have same: "r \<noteq> Ok True \<Longrightarrow> t' = t" using insert_internal_unchanged [OF r] by blast
  have ins: "insert t key v = (t', r)" using r assms(2) by (simp add: insert_def)
  show ?thesis
  proof (cases "get t key")
    case (Ok x)
    have vib: "r = Err ValueInBranch \<longleftrightarrow> conflicts t (to_nibs key)"
      using insert_value_in_branch [OF assms(1) ks, of x v] Ok r by (simp add: get_def)
    have present: "conflicts t (to_nibs key) \<Longrightarrow> x = None"
      using present_no_conflict [OF assms(1) ks] Ok by (cases x) (auto simp: get_def)
    show ?thesis
    proof (cases "r = Err ValueInBranch")
      case False
      then have b: "r = Ok (x \<noteq> Some v)" using out Ok r by (simp add: insert_outcome_def get_def)
      have "inserted t (to_nibs key) v t'" using insert_internal_correct [OF assms(1) ks] r b by blast
      then have "wf_trie t'" "\<forall>key'. get t' key' = (if key' = key then Ok (Some v) else get t key')"
        by (simp_all add: inserted_def wf_trie_def get_def)
      moreover have "x = Some v \<longrightarrow> t' = t" using same b by simp
      moreover have "\<not> conflicts t (to_nibs key)" using vib False by simp
      ultimately show ?thesis using ins b Ok by auto
    qed (use same ins Ok vib present in auto)
  next
    case (Err e)
    then show ?thesis using out ins r by (simp add: insert_outcome_def get_def)
  next
    case Panic
    then show ?thesis using out by (simp add: insert_outcome_def get_def)
  qed
qed

text \<open>
  C7. \<open>insert\<close> of a non-empty value does what lookups foretell. Where the lookup of the key hits
  an unresolved node, \<open>insert\<close> reports that node and changes nothing. Otherwise it reports
  \<open>ValueInBranch\<close>, changing nothing, exactly when the trie does not answer \<open>None\<close> on some other path
  that continues the key's path or is continued by it (one of the two values would lie inside a branch); and in
  every other case, among them every key that is present, it reports whether the value is new
  and changes the answer of that key only. It never panics and keeps the trie canonical.
\<close>

theorem insert_effect:
  assumes "wf_trie t" and "v \<noteq> []"
  shows "case get t key of
      Ok x \<Rightarrow>
        (if \<exists>ks'. nibbles ks' \<and> overlaps (to_nibs key) ks' \<and> get_internal t ks' \<noteq> Ok None
         then insert t key v = (t, Err ValueInBranch)
         else \<exists>t'. insert t key v = (t', Ok (x \<noteq> Some v)) \<and> wf_trie t' \<and> (x = Some v \<longrightarrow> t' = t) \<and>
           (\<forall>key'. get t' key' = (if key' = key then Ok (Some v) else get t key'))) \<and>
        (x \<noteq> None \<longrightarrow> snd (insert t key v) = Ok (x \<noteq> Some v))
    | Err e \<Rightarrow> insert t key v = (t, Err e)
    | Panic \<Rightarrow> False"
  using insert_by_lookup [OF assms, of key] by (auto simp: conflicts_eq split: res.splits if_splits)

theorem insert_effect_witness:
  "(\<exists>t'. insert ex_trie [0x55] [1] = (t', Ok True) \<and> get t' [0x55] = Ok (Some [1]) \<and>
    get t' [0x94] = get ex_trie [0x94]) \<and> insert ex_trie [] [1] = (ex_trie, Err ValueInBranch)"
proof -
  have "get ex_trie [0x55] = Ok None" by code_simp
  moreover have "snd (insert ex_trie [0x55] [1]) = Ok True"
    by (simp add: insert_def ex_trie_def ex_branch_def node_of_def upt_rec)
  ultimately obtain t' where "insert ex_trie [0x55] [1] = (t', Ok True)"
    "\<forall>key'. get t' key' = (if key' = [0x55] then Ok (Some [1]) else get ex_trie key')"
    using insert_effect [OF ex_wf(1), of "[1]" "[0x55]"] by (fastforce split: if_splits)
  moreover have "insert ex_trie [] [1] = (ex_trie, Err ValueInBranch)"
  proof -
    have "get_internal ex_trie (to_nibs [0x12]) \<noteq> Ok None" "nibbles (to_nibs [0x12])"
      "overlaps (to_nibs []) (to_nibs [0x12])" and absent: "get ex_trie [] = Ok None" by code_simp+
    then have "\<exists>ks'. nibbles ks' \<and> overlaps (to_nibs []) ks' \<and> get_internal ex_trie ks' \<noteq> Ok None" by blast
    then show ?thesis
      using insert_effect [OF ex_wf(1), of "[1]" "[]", unfolded absent res.case] by (simp only: if_True) simp
  qed
  ultimately show ?thesis by (intro conjI exI [of _ t']) simp_all
qed

text \<open>
  C8. \<open>delete\<close> likewise: a present key is removed with \<open>Ok(true)\<close> and only its answer
  changes, an absent one leaves the trie as it was, an unresolved node is reported. It never
  panics and keeps the trie canonical, collapsing branches and merging paths as needed.
\<close>

theorem delete_effect:
  assumes "wf_trie t"
  shows "case get t key of
      Ok (Some v) \<Rightarrow> (\<exists>t'. delete t key = (t', Ok True) \<and> wf_trie t' \<and>
        (\<forall>key'. get t' key' = (if key' = key then Ok None else get t key')))
    | Ok None \<Rightarrow> delete t key \<in> {(t, Ok False), (t, Err ValueInBranch)}
    | Err e \<Rightarrow> delete t key = (t, Err e)
    | Panic \<Rightarrow> False"
  using delete_internal_correct [OF assms, of "to_nibs key" 0]
  by (auto simp: delete_outcome_def delete_def get_def deleted_def split: res.splits option.splits)

theorem delete_effect_witness:
  "\<exists>t'. delete ex_trie [0x12] = (t', Ok True) \<and> wf_trie t' \<and> get t' [0x12] = Ok None \<and>
    get t' [0x94] = get ex_trie [0x94]"
proof -
  have "get ex_trie [0x12] = Ok (Some (replicate 30 5))" by code_simp
  then show ?thesis using delete_effect [OF ex_wf(1), of "[0x12]"] by auto
qed

text \<open>
  C19. On the 32-byte keys of the state and storage tries the error \<open>ValueInBranch\<close> does not
  occur: \<open>insert\<close> and \<open>delete\<close> succeed exactly when a lookup of the key does, and the key
  length of the trie is kept.
\<close>

theorem state_key_operations:
  assumes "trie_inv 64 t" and "length key = 32" and "v \<noteq> []"
  shows "case get t key of
      Ok x \<Rightarrow> \<exists>s u. insert t key v = (s, Ok (x \<noteq> Some v)) \<and> trie_inv 64 s \<and>
        delete t key = (u, Ok (x \<noteq> None)) \<and> trie_inv 64 u
    | Err e \<Rightarrow> insert t key v = (t, Err e) \<and> delete t key = (t, Err e)
    | Panic \<Rightarrow> False"
proof -
  have k: "trie_key 64 (to_nibs key)" using assms(2) by simp
  show ?thesis
    using insert_internal_ok [OF assms(1) k, of _ v] insert_internal_err [OF assms(1) k, of _ v]
      delete_internal_ok [OF assms(1) k] delete_internal_err [OF assms(1) k]
      get_internal_no_panic [of t "to_nibs key"] assms(1,3)
    by (cases "get_internal t (to_nibs key)") (auto simp: insert_def delete_def get_def trie_inv_def)
qed

theorem state_key_operations_witness:
  "\<exists>s. insert mpt_default (replicate 32 7) [1] = (s, Ok True) \<and> trie_inv 64 s"
proof -
  have "trie_inv 64 mpt_default" "get mpt_default (replicate 32 7) = Ok None"
    by (simp_all add: trie_inv_def mpt_default_def node_of_def wf_trie_def is_empty_def get_def)
  then show ?thesis using state_key_operations [of mpt_default "replicate 32 7" "[1]"] by auto
qed

text \<open>
  C20. A trie is determined by its answers: two canonical tries that answer every lookup alike
  are equal for the program, whatever sequence of operations built them.
\<close>

theorem canonical_form:
  assumes "wf_trie a" and "wf_trie b" and "\<And>ks. nibbles ks \<Longrightarrow> get_internal a ks = get_internal b ks"
  shows "mpt_eq a b"
  using same_reads_erase [OF assms(1,2)] assms(3) by (simp add: same_reads_def mpt_eq_def)

theorem canonical_form_witness:
  "mpt_eq (ref_fill example_ext ex_trie) ex_trie"
proof (rule canonical_form)
  have e: "erase (ref_fill example_ext ex_trie) = erase ex_trie" using ref_fill_effect ex_coherent(1) by blast
  have "trie_inv 2 ex_trie" using ex_wf by (simp add: trie_inv_def)
  then show "wf_trie (ref_fill example_ext ex_trie)" using trie_inv_cong [OF e] by (auto simp: trie_inv_def)
  show "get_internal (ref_fill example_ext ex_trie) ks = get_internal ex_trie ks" for ks
    by (rule get_cong [OF e])
qed (rule ex_wf)

text \<open>
  C21. Tries are history independent: any two sequences of insertions (of non-empty values) and
  deletions on keys of one length, repeated keys included, that amount to the same map succeed on the
  empty trie and give tries that are equal for the program and have the same hash, and the
  lookups answer this map.
\<close>

theorem history_independent:
  assumes "\<And>k w. (k, w) \<in> set us \<Longrightarrow> length k = n \<and> w \<noteq> Some []"
    and "\<And>k w. (k, w) \<in> set vs \<Longrightarrow> length k = n \<and> w \<noteq> Some []"
    and "final_map us = final_map vs"
  shows "\<exists>s t. run_updates us mpt_default = Ok s \<and> run_updates vs mpt_default = Ok t \<and>
    mpt_eq s t \<and> hash X s = hash X t \<and> (\<forall>key. get s key = Ok (final_map us key))"
proof -
  have keys: "2 * length k = 2 * n \<and> w \<noteq> Some []" if "(k, w) \<in> set us \<union> set vs" for k w
    using that assms(1,2) by auto
  obtain s where s: "run_updates us mpt_default = Ok s" "trie_inv (2 * n) s" "coherent X s"
    "\<And>ks. nibbles ks \<Longrightarrow> get_internal s ks = Ok (if \<exists>key. ks = to_nibs key then final_map us (pack_pairs ks) else None)"
    by (rule run_updates_coherent [of us "2 * n" X, OF keys]) blast+
  obtain t where t: "run_updates vs mpt_default = Ok t" "trie_inv (2 * n) t" "coherent X t"
    "\<And>ks. nibbles ks \<Longrightarrow> get_internal t ks = Ok (if \<exists>key. ks = to_nibs key then final_map vs (pack_pairs ks) else None)"
    by (rule run_updates_coherent [of vs "2 * n" X, OF keys]) blast+
  have e: "erase s = erase t"
    by (rule tr.repr_unique [OF s(2) t(2)]) (simp add: s(4) t(4) assms(3))
  then have "hash X s = hash X t" using hash_coherent [OF s(3)] hash_coherent [OF t(3)] by simp
  moreover have "get s key = Ok (final_map us key)" for key using s(4) [of "to_nibs key"] by (simp add: get_def)
  ultimately show ?thesis using s(1) t(1) e by (auto simp: mpt_eq_def)
qed

theorem history_independent_witness:
  "\<exists>s t. run_updates [([1], Some [5]), ([2], Some [6]), ([1], None)] mpt_default = Ok s \<and>
    run_updates [([2], Some [7]), ([2], Some [6])] mpt_default = Ok t \<and> mpt_eq s t \<and>
    get s [2] = Ok (Some [6])"
proof -
  let ?us = "[([1], Some [5]), ([2], Some [6]), ([1], None)] :: (bytes \<times> bytes option) list"
  let ?vs = "[([2], Some [7]), ([2], Some [6])] :: (bytes \<times> bytes option) list"
  have same: "final_map ?us = final_map ?vs" by (rule ext) (simp add: final_map_def)
  have "\<exists>s t. run_updates ?us mpt_default = Ok s \<and> run_updates ?vs mpt_default = Ok t \<and> mpt_eq s t \<and>
      hash example_ext s = hash example_ext t \<and> (\<forall>key. get s key = Ok (final_map ?us key))"
    by (rule history_independent [where n = 1, OF _ _ same]) auto
  moreover have "final_map ?us [2] = Some [6]" by (simp add: final_map_def)
  ultimately show ?thesis by metis
qed

section \<open>Hashing and encoding\<close>

text \<open>
  C23. Cached references never go stale: \<open>insert\<close>, \<open>delete\<close>, \<open>clear\<close> and \<open>hash\<close> (which fills
  the caches) keep every cached reference equal to the recomputed one, and \<open>hash\<close> is the
  hash of the trie without caches.
\<close>

theorem caches_coherent:
  assumes "wf_trie t" and "coherent X t"
  shows "coherent X (fst (insert t key v)) \<and> coherent X (fst (delete t key)) \<and>
    coherent X (clear t) \<and> coherent X (hash_fill X t) \<and>
    hash X t = hash X (erase t) \<and> hash X (hash_fill X t) = hash X t"
proof (intro conjI)
  have "snd (delete_internal t (to_nibs key)) \<noteq> Panic"
    using delete_internal_correct [OF assms(1), of "to_nibs key" 0]
    by (auto simp: delete_outcome_def split: res.splits option.splits)
  then show "coherent X (fst (delete t key))"
    using coherent_delete_internal [of t "to_nibs key" _ _ X] assms(2)
    by (cases "delete_internal t (to_nibs key)") (simp add: delete_def)
  show "coherent X (fst (insert t key v))"
    using coherent_insert_internal [of t "to_nibs key" v _ _ X] assms(2)
    by (cases "insert_internal t (to_nibs key) v") (auto simp: insert_def)
  show "coherent X (clear t)" by (rule coherent_clear)
  show "coherent X (hash_fill X t)" "hash X (hash_fill X t) = hash X t"
    using hash_fill_effect [OF assms(2)] by simp_all
  show "hash X t = hash X (erase t)" by (rule hash_coherent [OF assms(2)])
qed

theorem caches_coherent_witness:
  "coherent example_ext (fst (insert (hash_fill example_ext ex_trie) [0x55] [1]))"
proof -
  have "trie_inv 2 (hash_fill example_ext ex_trie)"
    using hash_fill_inv [OF ex_coherent(1), of 2] ex_wf by (simp add: trie_inv_def)
  then show ?thesis
    using caches_coherent [of "hash_fill example_ext ex_trie"] caches_coherent [OF ex_wf(1) ex_coherent(1)]
    by (simp add: trie_inv_def)
qed

text \<open>
  The length a node announces to RLP (\<open>Encodable::length\<close>) is the number of bytes
  \<open>Encodable::encode\<close> writes, for the five kinds of node.
\<close>

lemma announced_length:
  assumes "length_laws X"
  shows "mpt_length X t = length (encode X t)"
  using length_encode_refs [OF assms, of "refs X t"] by (simp add: encode_def mpt_length_def Let_def)

text \<open>Decoding the encoding of a canonical node.\<close>

lemma decode_encoded_canon:
  assumes "rlp_laws X" and "length_laws X" and "rlp_shrinks X"
    and "canon t" and "sized X t" and "coherent X t"
  shows "decode X (encode X t) = Ok (cut_refs X t) \<and> hash X (cut_refs X t) = hash X t"
proof (intro conjI)
  have e: "encode X t = encode X (erase t)"
    using refs_coherent [OF assms(6)] by (simp add: encode_def)
  show "decode X (encode X t) = Ok (cut_refs X t)"
    using decode_encoded [OF assms(1-5), of "Suc (length (encode X t))"] by (simp add: decode_def e del: decode_fuel.simps)
  have "is_empty (cut_refs X t) = is_empty t"
    by (cases t; cases "data t") (simp_all add: is_empty_def node_of_def)
  moreover have "reference X (cut_refs X t) = reference X t"
    using fresh_ref_truncate [of X t] reference_coherent [OF assms(6)] erase_truncate [of X t] by simp
  ultimately show "hash X (cut_refs X t) = hash X t" by (simp add: hash_alt)
qed

text \<open>
  C24. Encoding and decoding round trip: decoding the encoding of a canonical node gives the
  node with every child that is referenced by digest cut off there and every other child
  embedded, and the decoded node has the same root hash.
\<close>

theorem decode_encode:
  assumes "rlp_laws X" and "length_laws X" and "rlp_shrinks X"
    and "canon t" and "sized X t" and "coherent X t"
  shows "decode X (encode X t) = Ok (cut_refs X t) \<and> hash X (cut_refs X t) = hash X t"
  by (rule decode_encoded_canon [OF assms])

lemma ex_decode: "decode example_ext (encode example_ext leaf_a) = Ok leaf_a"
proof -
  have "canon leaf_a" by code_simp
  then have "decode example_ext (encode example_ext (erase leaf_a)) = Ok (cut_refs example_ext leaf_a)"
    using decode_encoded [OF example_laws(1-3) _ ex_sized(1)] by (simp add: decode_def del: decode_fuel.simps)
  then show ?thesis using ex_erase(1) by (simp add: leaf_a_def node_of_def)
qed

theorem decode_encode_witness: "decode example_ext (encode example_ext leaf_a) = Ok leaf_a"
proof -
  have "canon leaf_a" by code_simp
  then have "decode example_ext (encode example_ext leaf_a) = Ok (cut_refs example_ext leaf_a)"
    using decode_encode [OF example_rlp_laws example_length_laws example_rlp_shrinks _ ex_sized(1) ex_coherent(3)]
    by blast
  then show ?thesis by (simp add: leaf_a_def node_of_def)
qed

text \<open>
  C40. The decoder returns on every input: the fuel it is given, one more than the length of
  the input, is never used up, and more fuel changes nothing.
\<close>

theorem decode_returns:
  assumes "rlp_shrinks X" and "length b < k"
  shows "decode_fuel X k b \<noteq> None \<and> decode_fuel X k b = decode_fuel X (Suc (length b)) b"
  using decode_fuel_total [OF assms] decode_fuel_mono [OF assms(1), of b k "Suc (length b)"] assms(2) by auto

theorem decode_returns_witness: "decode_fuel example_ext 3 [0xc1, 0x80] \<noteq> None"
  by (rule decode_returns [OF example_rlp_shrinks, THEN conjunct1]) simp

text \<open>
  C22. Decoded nodes are well typed: a node the decoder returns is of the kind its paths are flagged
  with (an extension never has a leaf's path), its branches have 16 slots with no empty node in them,
  it has no caches, and on it neither a lookup nor an insertion can panic.
\<close>

theorem decode_typed:
  assumes "decode X b = Ok t"
  shows "well_kinded t \<and> erase t = t \<and> get t key \<noteq> Panic \<and> (v \<noteq> [] \<longrightarrow> snd (insert t key v) \<noteq> Panic)"
  using decode_kinded [OF assms] decode_erased [OF assms] get_kinded insert_kinded by (simp add: get_def insert_def)

theorem decode_typed_witness: "snd (insert leaf_a [0x55] [1]) \<noteq> Panic"
  using decode_typed [OF ex_decode, of "[0x55]" "[1]"] by simp

section \<open>Proofs\<close>

text \<open>
  \<open>mpt_from_proof\<close> links the nodes of a proof into one trie without changing the root
  hash: each node replaces the digest that its predecessor has for it, and a proof whose nodes
  do not link up is rejected.
\<close>

lemma linked_proof_root:
  assumes "parse_proof X proof = Ok nodes" and "nodes \<noteq> []" and "mpt_from_proof X nodes = Ok t"
  shows "coherent X t \<and> hash X t = hash X (hd nodes)"
  using from_proof_root [OF assms(3) parse_proof_coherent [OF assms(1)] assms(2)] by simp_all

text \<open>
  C27. An exclusion proof is sound: when \<open>is_not_included\<close> answers, its answer is what a lookup
  of the key gives in a trie with the root hash of the first node of the proof.
\<close>

theorem exclusion_sound:
  assumes "is_not_included X key nodes = Ok b" and "\<forall>n \<in> set nodes. coherent X n" and "nodes \<noteq> []"
  shows "\<exists>t v. coherent X t \<and> hash X t = hash X (hd nodes) \<and> get t key = Ok v \<and> (b \<longleftrightarrow> v = None)"
  using is_not_included_correct [OF assms] by metis

theorem exclusion_sound_witness:
  "\<exists>t v. hash example_ext t = hash example_ext ex_trie \<and> get t [0x55] = Ok v \<and> v = None"
proof -
  have "mpt_from_proof example_ext [ex_trie] = Ok ex_trie"
    by (simp add: mpt_from_proof_def from_proof_step_def)
  moreover have "get ex_trie [0x55] = Ok None" by code_simp
  ultimately have "is_not_included example_ext [0x55] [ex_trie] = Ok True"
    by (simp add: is_not_included_def)
  then show ?thesis
    using exclusion_sound [of example_ext "[0x55]" "[ex_trie]" True] ex_coherent(1) by auto
qed

text \<open>
  C26. \<open>resolve_nodes\<close> returns on every store without a cycle of digests, keeps the root hash, the coherence of the caches and the kinds of the
  nodes, and leaves a digest in place only when the store has no node for it.
\<close>

theorem resolved_trie:
  assumes "store_sound X m" and "sound_node X t" and "acyclic_store rank m"
  shows "\<exists>t'. resolve_nodes t m = Some t' \<and> sound_node X t' \<and> hash X t' = hash X t \<and>
    (\<forall>h \<in> digests t'. hm_get m (RefDigest h) = None)"
proof -
  obtain t' where t': "resolve_nodes t m = Some t'" using resolve_nodes_returns [OF assms(3), of t] by auto
  then show ?thesis
    using resolve_hash [OF assms(1) t' assms(2)] resolve_fuel_complete [OF t' [unfolded resolve_nodes_def]] by blast
qed

theorem resolved_trie_witness:
  "\<exists>t'. resolve_nodes ex_blinded [(RefDigest (256 * 34 + 7), leaf_b)] = Some t' \<and>
    hash example_ext t' = hash example_ext ex_trie"
proof -
  have "store_sound example_ext [(RefDigest (256 * 34 + 7), leaf_b)]"
    using ex_coherent(4) ex_refs(2) ex_erase(2) ex_kinded by (simp add: store_sound_def sound_node_def)
  moreover have "acyclic_store (\<lambda>_. 0) [(RefDigest (256 * 34 + 7), leaf_b)]"
    by (simp add: acyclic_store_def leaf_b_def node_of_def)
  moreover have "sound_node example_ext ex_blinded" using ex_coherent(2) ex_kinded by (simp add: sound_node_def)
  ultimately show ?thesis
    using resolved_trie [of example_ext "[(RefDigest (256 * 34 + 7), leaf_b)]" ex_blinded "\<lambda>_. 0"]
      ex_hash by auto
qed

text \<open>
  The candidates for an orphaned node: \<open>shorten_node_path\<close> gives, for a leaf or an
  extension, the node with every suffix of its path and the same value or child, starting with
  the node itself, and nothing for other nodes. One of them is the node that a deletion moves
  up or down the trie.
\<close>

lemma orphan_candidates:
  assumes "canon node"
  shows "\<exists>ns. shorten_node_path node = Some ns \<and> (case data node of
      Leaf p v \<Rightarrow> map data ns = map (\<lambda>i. Leaf (to_encoded_path (drop i (the (nibs node))) True) v)
          [0..<Suc (length (the (nibs node)))] \<and> data (hd ns) = data node
    | Extension p n \<Rightarrow> map data ns = map (\<lambda>i. Extension (to_encoded_path (drop i (the (nibs node))) False) n)
          [0..<Suc (length (the (nibs node)))] \<and> data (hd ns) = data node
    | _ \<Rightarrow> ns = [])"
proof (cases node rule: canon.cases)
  case (3 p v c)
  then show ?thesis using assms
    by (auto simp: shorten_node_path_def nibs_def hd_map comp_def simp del: upt_Suc elim!: valid_pathE)
next
  case (4 p n c)
  then show ?thesis using assms
    by (auto simp: shorten_node_path_def nibs_def hd_map comp_def simp del: upt_Suc elim!: valid_pathE)
qed (use assms in \<open>auto simp: shorten_node_path_def nibs_def\<close>)

section \<open>Walks and paths\<close>

text \<open>
  C25. \<open>for_each_leaves\<close> on a state or storage trie: it returns, and it calls its argument with
  a 32-byte key and a value exactly when a lookup of the key finds that value.
\<close>

theorem leaves_visited:
  assumes "nib_laws N view" and "trie_inv 64 t"
  shows "\<exists>calls. for_each_leaves N t = Some calls \<and>
    (\<forall>key v. length key = 32 \<longrightarrow> ((key, v) \<in> set calls \<longleftrightarrow> get t key = Ok (Some v)))"
  using for_each_leaves_correct [OF assms] by metis

definition list_nibs :: "u8 list nib_ext" where
  "list_nibs = \<lparr>nib_default = [], nib_push = (\<lambda>n x. Some (n @ [x])), nib_from_nibbles = Some,
     nib_extend = (\<lambda>n m. Some (n @ m)), nib_pack = pack_pairs\<rparr>"

lemma list_nibs_laws: "nib_laws list_nibs id"
  by (simp add: nib_laws_def list_nibs_def)

theorem leaves_visited_witness:
  "\<exists>calls. for_each_leaves list_nibs
     (node_of (Leaf (to_encoded_path (to_nibs (replicate 32 7)) True) [1])) = Some calls \<and>
     (replicate 32 7, [1]) \<in> set calls"
proof -
  let ?t = "node_of (Leaf (to_encoded_path (to_nibs (replicate 32 7)) True) [1])"
  have "trie_inv 64 ?t" "get ?t (replicate 32 7) = Ok (Some [1])"
    by (simp_all add: trie_inv_def wf_trie_def node_of_def get_def hp.dec_enc)
  then show ?thesis
    using leaves_visited [OF list_nibs_laws, of ?t] by (metis length_replicate)
qed

text \<open>
  Paths round trip: a nibble path encoded for a leaf or an extension is read back by
  \<open>prefix_nibs\<close>, and encodings of different paths or kinds differ; \<open>to_nibs\<close> is injective and
  gives two nibbles per byte.
\<close>

lemma path_roundtrip:
  assumes "nibbles ns" and "nibbles ms"
  shows "prefix_nibs (to_encoded_path ns leaf) = Some ns \<and>
    (to_encoded_path ns leaf = to_encoded_path ms leaf' \<longleftrightarrow> ns = ms \<and> leaf = leaf') \<and>
    nibbles (to_nibs key) \<and> length (to_nibs key) = 2 * length key"
  using hp.dec_enc [OF assms(1)] hp.enc_inject [OF assms] by simp_all

end
