(* ===== verification/Exec_Witness.thy ===== *)
theory Exec_Witness
  imports Eth_Update Trie_Walk
begin

text \<open>
  \<open>crates/mpt/src/execution_witness.rs\<close>: the tries of a \<open>debug_executionWitness\<close> answer,
  and \<open>EthereumState::from_execution_witness\<close>. The theorems state what the two validation
  functions guarantee of every state the function returns, whatever the witness contains.
\<close>

section \<open>Definitions\<close>

text \<open>The messages of the error strings of \<open>validate_storage_tries\<close>.\<close>

datatype witness_error =
    FailedToDecodeAccount
  | AccountNotFound
  | MismatchedRootForHash b256 b256 b256

text \<open>\<open>validate_state_trie\<close> panics on a mismatch.\<close>

definition validate_state_trie :: "mpt_ext \<Rightarrow> mpt \<Rightarrow> b256 \<Rightarrow> ('e, unit) res" where
  "validate_state_trie X trie pre_state_root =
     (if hash X trie \<noteq> pre_state_root then Panic else Ok ())"

text \<open>The body of the loop of \<open>validate_storage_tries\<close>: any error of the lookup has one message.\<close>

definition validate_storage_trie ::
  "state_ext \<Rightarrow> mpt \<Rightarrow> b256 \<times> mpt \<Rightarrow> (witness_error, unit) res" where
  "validate_storage_trie S trie = (\<lambda>(hashed_address, storage_trie).
     res_bind (map_err (\<lambda>_. FailedToDecodeAccount)
         (get_rlp (account_decode S) trie (b256_slice hashed_address))) (\<lambda>found.
       res_bind (ok_or AccountNotFound found) (\<lambda>account.
         let storage_root = ta_storage_root account;
             actual_hash = hash (base S) storage_trie
         in if storage_root \<noteq> actual_hash
            then Err (MismatchedRootForHash hashed_address storage_root actual_hash)
            else Ok ())))"

definition validate_storage_tries ::
  "state_ext \<Rightarrow> mpt \<Rightarrow> (b256, mpt) hashmap \<Rightarrow> (witness_error, unit) res" where
  "validate_storage_tries S trie tries =
     res_fold (\<lambda>entry _. validate_storage_trie S trie entry) tries ()"

text \<open>
  Step 1: every encoded node is decoded and filed by hash and by reference; the one whose
  hash is the expected root is remembered.
\<close>

type_synonym witness_nodes = "(mpt_ref, mpt) hashmap \<times> (b256, mpt) hashmap \<times> mpt option"

definition index_node ::
  "mpt_ext \<Rightarrow> b256 \<Rightarrow> bytes \<Rightarrow> witness_nodes \<Rightarrow> ('e, witness_nodes) res" where
  "index_node X pre_state_root encoded = (\<lambda>(node_map, node_by_hash, root_node).
     res_bind (unwrap_res (decode X encoded)) (\<lambda>node.
       let h = keccak256 X encoded
       in Ok (store_node X node node_map, hm_insert h node node_by_hash,
              if h = pre_state_root then Some node else root_node)))"

text \<open>Step 2: the closure passed to \<open>for_each_leaves\<close> collects the storage roots.\<close>

definition leaf_storage_root :: "state_ext \<Rightarrow> bytes \<times> bytes \<Rightarrow> ('e, b256 \<times> b256) res" where
  "leaf_storage_root S = (\<lambda>(key, value).
     res_bind (unwrap_res (account_decode S value)) (\<lambda>account.
       res_bind (unwrap_opt (b256_from_slice key)) (\<lambda>hashed_address.
         Ok (hashed_address, ta_storage_root account))))"

text \<open>
  Step 3: the storage trie of one account; an account whose storage the witness omits is
  skipped, a trie that is still a digest is a panic.
\<close>

definition insert_storage_trie ::
  "(mpt_ref, mpt) hashmap \<Rightarrow> (b256, mpt) hashmap \<Rightarrow> b256 \<times> b256 \<Rightarrow> (b256, mpt) hashmap \<Rightarrow>
   ('e, (b256, mpt) hashmap) res" where
  "insert_storage_trie node_map node_by_hash = (\<lambda>(hashed_address, storage_root) storage_tries.
     case hm_get node_by_hash storage_root of
       None \<Rightarrow> Ok storage_tries
     | Some root_node \<Rightarrow>
         res_bind (resolve root_node node_map) (\<lambda>storage_trie.
           if is_digest storage_trie then Panic
           else Ok (hm_insert hashed_address storage_trie storage_tries)))"

definition build_validated_tries ::
  "state_ext \<Rightarrow> 'n nib_ext \<Rightarrow> bytes list \<Rightarrow> b256 \<Rightarrow> (witness_error, mpt \<times> (b256, mpt) hashmap) res" where
  "build_validated_tries S N witness_state pre_state_root =
     res_bind (res_fold (index_node (base S) pre_state_root) witness_state ([], [], None))
     (\<lambda>(node_map, node_by_hash, root_node).
       let root = (case root_node of Some node \<Rightarrow> node | None \<Rightarrow> node_of (Digest pre_state_root))
       in res_bind (resolve root node_map) (\<lambda>state_trie.
          res_bind (unwrap_opt (for_each_leaves N state_trie)) (\<lambda>calls.
          res_bind (res_map (leaf_storage_root S) calls) (\<lambda>raw_storage_tries.
          res_bind (res_fold (insert_storage_trie node_map node_by_hash) raw_storage_tries [])
            (\<lambda>storage_tries.
          res_bind (validate_state_trie (base S) state_trie pre_state_root) (\<lambda>_.
          res_bind (validate_storage_tries S state_trie storage_tries) (\<lambda>_.
            Ok (hash_fill (base S) state_trie,
                map (\<lambda>(k, t). (k, hash_fill (base S) t)) storage_tries))))))))"

definition from_execution_witness ::
  "state_ext \<Rightarrow> 'n nib_ext \<Rightarrow> bytes list \<Rightarrow> b256 \<Rightarrow> ('e, ethereum_state) res" where
  "from_execution_witness S N witness_state pre_state_root =
     map_res (\<lambda>(t, storage). \<lparr>state_trie = t, storage_tries = storage\<rparr>)
       (unwrap_res (build_validated_tries S N witness_state pre_state_root))"

section \<open>The node indexes\<close>

definition index_ok :: "mpt_ext \<Rightarrow> witness_nodes \<Rightarrow> bool" where
  "index_ok X = (\<lambda>(node_map, node_by_hash, root_node). store_sound X node_map \<and>
     (\<forall>(k, n) \<in> set node_by_hash. sound_node X n) \<and>
     (\<forall>n. root_node = Some n \<longrightarrow> sound_node X n))"

lemma index_node_ok:
  assumes "index_node X r encoded s = Ok s'" and "index_ok X s"
  shows "index_ok X s'"
proof -
  obtain nm nh rn where s: "s = (nm, nh, rn)" by (cases s)
  obtain n where n: "decode X encoded = Ok n"
    "s' = (store_node X n nm, hm_insert (keccak256 X encoded) n nh,
      if keccak256 X encoded = r then Some n else rn)"
    using assms(1) by (auto simp: index_node_def s res_ok_simps Let_def)
  have "sound_node X n" using decode_sound n(1) .
  moreover have prev: "store_sound X nm" "\<forall>(k, n) \<in> set nh. sound_node X n" "\<forall>n. rn = Some n \<longrightarrow> sound_node X n"
    using assms(2) by (simp_all add: index_ok_def s)
  ultimately have "store_sound X (store_node X n nm)" using store_sound_node by simp
  moreover have "\<forall>(k, n) \<in> set (hm_insert (keccak256 X encoded) n nh). sound_node X n"
  proof
    fix x
    assume "x \<in> set (hm_insert (keccak256 X encoded) n nh)"
    then have "x = (keccak256 X encoded, n) \<or> x \<in> set nh" using set_hm_insert by fast
    then show "case x of (k, n) \<Rightarrow> sound_node X n" using \<open>sound_node X n\<close> prev(2) by auto
  qed
  ultimately show ?thesis
    using \<open>sound_node X n\<close> prev(3) by (simp add: index_ok_def n(2))
qed

lemma index_fold_ok:
  assumes "res_fold (index_node X r) encs ([], [], None) = Ok s"
  shows "index_ok X s"
  by (rule res_fold_invariant [OF assms]) (simp add: index_ok_def, erule index_node_ok)

lemma insert_storage_trie_ok:
  assumes "insert_storage_trie nm nh e m = Ok m'" and "store_sound X nm" and "\<forall>(k, n) \<in> set nh. sound_node X n"
    and "\<forall>(k, t) \<in> set m. sound_node X t \<and> \<not> is_digest t"
  shows "\<forall>(k, t) \<in> set m'. sound_node X t \<and> \<not> is_digest t"
proof -
  obtain h r where e: "e = (h, r)" by (cases e)
  show ?thesis
  proof (cases "hm_get nh r")
    case (Some root)
    then obtain t where t: "resolve_nodes root nm = Some t" "\<not> is_digest t" "m' = hm_insert h t m"
      using assms(1) by (auto simp: insert_storage_trie_def e res_ok_simps resolve_def split: if_splits)
    have "sound_node X root" using assms(3) map_of_SomeD [OF Some] by blast
    then have "sound_node X t" using resolve_hash [OF assms(2) t(1)] by blast
    then show ?thesis using assms(4) t set_hm_insert [of h t m] by blast
  qed (use assms(1,4) in \<open>simp add: insert_storage_trie_def e\<close>)
qed

section \<open>What validation guarantees\<close>

text \<open>
  The state trie hashes to the expected root, and every storage trie to the storage root of
  an account that a lookup finds in the state trie.
\<close>

definition validated :: "state_ext \<Rightarrow> b256 \<Rightarrow> ethereum_state \<Rightarrow> bool" where
  "validated S root st \<longleftrightarrow>
     sound_node (base S) (state_trie st) \<and> state_root (base S) st = root \<and> hm_wf (storage_tries st) \<and>
     (\<forall>k t. hm_get (storage_tries st) k = Some t \<longrightarrow>
        sound_node (base S) t \<and> \<not> is_digest t \<and>
        (\<exists>account. get_rlp (account_decode S) (state_trie st) (b256_slice k) = Ok (Some account) \<and>
           hash (base S) t = ta_storage_root account))"

lemma validate_storage_tries_ok:
  assumes "validate_storage_tries S st m = Ok u" and "(k, t) \<in> set m"
  shows "\<exists>account. get_rlp (account_decode S) st (b256_slice k) = Ok (Some account) \<and>
    hash (base S) t = ta_storage_root account"
  using assms unfolding validate_storage_tries_def
proof (induction m arbitrary: u)
  case (Cons e m)
  from Cons.prems(1) have e: "validate_storage_trie S st e = Ok ()"
    "res_fold (\<lambda>entry _. validate_storage_trie S st entry) m () = Ok u"
    by (auto simp: res_bind_eq_Ok)
  show ?case
  proof (cases "e = (k, t)")
    case True
    then show ?thesis using e(1)
      by (auto simp: validate_storage_trie_def res_ok_simps Let_def split: if_splits)
  next
    case False
    then show ?thesis using Cons.IH [OF e(2)] Cons.prems(2) by auto
  qed
qed simp

lemma is_digest_hash_fill: "is_digest (hash_fill X t) = is_digest t"
proof (cases t)
  case (MptNode d c)
  then show ?thesis by (cases d; cases c) (simp_all add: hash_fill_def)
qed

lemma build_validated:
  assumes "build_validated_tries S N ws root = Ok (t, m)"
  shows "validated S root \<lparr>state_trie = t, storage_tries = m\<rparr>"
proof -
  obtain nm nh rn t0 calls raw m0 where
    f: "res_fold (index_node (base S) root) ws ([], [], None) = (Ok (nm, nh, rn) :: (witness_error, _) res)"
    "resolve (case rn of Some n \<Rightarrow> n | None \<Rightarrow> node_of (Digest root)) nm = (Ok t0 :: (witness_error, mpt) res)"
    "res_fold (insert_storage_trie nm nh) raw [] = (Ok m0 :: (witness_error, _) res)"
    "validate_state_trie (base S) t0 root = (Ok () :: (witness_error, unit) res)"
    "validate_storage_tries S t0 m0 = Ok ()"
    "t = hash_fill (base S) t0" "m = map (\<lambda>(k, t). (k, hash_fill (base S) t)) m0"
    using assms by (auto simp: build_validated_tries_def res_ok_simps Let_def)
  have ix: "index_ok (base S) (nm, nh, rn)" by (rule index_fold_ok [OF f(1)])
  have "sound_node (base S) (case rn of Some n \<Rightarrow> n | None \<Rightarrow> node_of (Digest root))"
    using ix by (auto simp: index_ok_def split: option.split)
  then have t0: "sound_node (base S) t0"
    using resolve_hash [of "base S" nm _ t0] ix f(2) by (auto simp: index_ok_def resolve_def unwrap_opt_eq_Ok)
  have m0: "\<forall>(k, t) \<in> set m0. sound_node (base S) t \<and> \<not> is_digest t"
  proof (rule res_fold_invariant [OF f(3)])
    fix e and s s' :: "(b256, mpt) hashmap"
    assume "\<forall>(k, t) \<in> set s. sound_node (base S) t \<and> \<not> is_digest t"
      "insert_storage_trie nm nh e s = (Ok s' :: (witness_error, _) res)"
    then show "\<forall>(k, t) \<in> set s'. sound_node (base S) t \<and> \<not> is_digest t"
      using insert_storage_trie_ok [of nm nh e s s' "base S"] ix by (simp add: index_ok_def)
  qed simp
  have reads: "get_rlp dec t key = get_rlp dec t0 key" for dec key
    using get_hash_fill [OF sound_node_coherent [OF t0]] by (simp add: get_rlp_def f(6))
  have "sound_node (base S) u \<and> \<not> is_digest u \<and>
      (\<exists>account. get_rlp (account_decode S) t (b256_slice k) = Ok (Some account) \<and>
         hash (base S) u = ta_storage_root account)" if g: "hm_get m k = Some u" for k u
  proof -
    obtain u0 where u0: "(k, u0) \<in> set m0" "u = hash_fill (base S) u0"
      using map_of_SomeD [OF g] f(7) by auto
    then have "sound_node (base S) u0" "\<not> is_digest u0" using m0 by auto
    then show ?thesis
      using validate_storage_tries_ok [OF f(5) u0(1)] sound_hash_fill is_digest_hash_fill reads u0(2) by metis
  qed
  moreover have "hm_wf m"
  proof -
    have "hm_wf m0"
    proof (rule res_fold_invariant [OF f(3)])
      show "hm_wf s'" if "hm_wf s" and "insert_storage_trie nm nh e s = (Ok s' :: (witness_error, _) res)" for e s s'
        using that by (cases e) (auto simp: insert_storage_trie_def res_ok_simps hm_wf_insert split: option.splits if_splits)
    qed simp
    moreover have "map fst m = map fst m0" by (auto simp: f(7))
    ultimately show ?thesis by simp
  qed
  moreover have "hash (base S) t0 = root" using f(4) by (simp add: validate_state_trie_def split: if_splits)
  ultimately show ?thesis
    using sound_hash_fill [OF t0] by (simp add: validated_def state_root_def f(6))
qed

end
