(* ===== verification/Primitives.thy ===== *)
theory Primitives
  imports Eth_State Eth_Update
begin

text \<open>
  \<open>crates/primitives\<close>: the supported chains and their ids (\<open>genesis.rs\<close>), \<open>is_goat_testnet\<close>
  (\<open>lib.rs\<close>), the chain specifications (\<open>genesis.rs\<close>, \<open>chain_spec.rs\<close>) and the conversion of
  an EIP-1186 answer to an account proof (\<open>account_proof.rs\<close>).
\<close>

section \<open>Chains\<close>

datatype genesis = Mainnet | OpMainnet | Sepolia | Linea | GOAT | GoatTestnet | Custom string

datatype genesis_error =
    ChainNotSupported u64
  | CustomGenesisNotSupported
  | OnlyOpMainnet
  | BadGenesisJson

definition genesis_of_chain_id :: "u64 \<Rightarrow> (genesis_error, genesis) res" where
  "genesis_of_chain_id value =
     (if value = 1 then Ok Mainnet
      else if value = 10 then Ok OpMainnet
      else if value = 59144 then Ok Linea
      else if value = 11155111 then Ok Sepolia
      else if value = 2345 then Ok GOAT
      else if value = 48816 then Ok GoatTestnet
      else Err (ChainNotSupported value))"

fun chain_id_of_genesis :: "genesis \<Rightarrow> (genesis_error, u64) res" where
  "chain_id_of_genesis Mainnet = Ok 1"
| "chain_id_of_genesis OpMainnet = Ok 10"
| "chain_id_of_genesis Linea = Ok 59144"
| "chain_id_of_genesis Sepolia = Ok 11155111"
| "chain_id_of_genesis GOAT = Ok 2345"
| "chain_id_of_genesis GoatTestnet = Ok 48816"
| "chain_id_of_genesis (Custom _) = Err CustomGenesisNotSupported"

definition is_goat_testnet :: "u64 \<Rightarrow> bool" where
  "is_goat_testnet chain_id \<longleftrightarrow> chain_id = 48816"

section \<open>Chain specifications\<close>

text \<open>
  \<open>ChainSpec\<close> belongs to \<open>reth_chainspec\<close>: its fields are kept, their values are of one
  opaque type. \<open>chain_ext\<close> holds the library's values and functions the conversions use, and
  the three genesis files compiled into the crate.
\<close>

record 'v chain_spec =
  cs_chain :: 'v
  cs_genesis :: 'v
  cs_genesis_header :: 'v
  cs_paris_block_and_final_difficulty :: 'v
  cs_hardforks :: 'v
  cs_deposit_contract :: 'v
  cs_base_fee_params :: 'v
  cs_prune_delete_limit :: nat
  cs_blob_params :: 'v

record ('v, 'json) chain_ext =
  chain_mainnet :: 'v
  chain_sepolia :: 'v
  chain_optimism_mainnet :: 'v
  default_genesis :: 'v
  default_genesis_header :: 'v
  default_paris :: 'v
  default_deposit_contract :: 'v
  default_blob_params :: 'v
  hardforks_mainnet :: 'v
  hardforks_sepolia :: 'v
  hardforks_op_mainnet :: 'v
  fee_ethereum :: 'v
  fee_optimism :: 'v
  mainnet_prune_delete_limit :: nat
  blob_mainnet_scheduled :: 'v
  blob_sepolia_scheduled :: 'v
  serde_genesis :: "string \<Rightarrow> 'json option"
  spec_from_genesis :: "'json \<Rightarrow> 'v chain_spec"
  linea_genesis_json :: string
  goat_genesis_json :: string
  goat_testnet_genesis_json :: string

definition genesis_from_json :: "('v, 'json) chain_ext \<Rightarrow> string \<Rightarrow> (genesis_error, 'json) res" where
  "genesis_from_json C json = ok_or BadGenesisJson (serde_genesis C json)"

definition spec_of_json :: "('v, 'json) chain_ext \<Rightarrow> string \<Rightarrow> (genesis_error, 'v chain_spec) res" where
  "spec_of_json C json = map_res (spec_from_genesis C) (genesis_from_json C json)"

fun chain_spec_of_genesis ::
  "('v, 'json) chain_ext \<Rightarrow> genesis \<Rightarrow> (genesis_error, 'v chain_spec) res" where
  "chain_spec_of_genesis C Mainnet = Ok \<lparr>
     cs_chain = chain_mainnet C, cs_genesis = default_genesis C,
     cs_genesis_header = default_genesis_header C,
     cs_paris_block_and_final_difficulty = default_paris C, cs_hardforks = hardforks_mainnet C,
     cs_deposit_contract = default_deposit_contract C, cs_base_fee_params = fee_ethereum C,
     cs_prune_delete_limit = mainnet_prune_delete_limit C, cs_blob_params = blob_mainnet_scheduled C\<rparr>"
| "chain_spec_of_genesis C Sepolia = Ok \<lparr>
     cs_chain = chain_sepolia C, cs_genesis = default_genesis C,
     cs_genesis_header = default_genesis_header C,
     cs_paris_block_and_final_difficulty = default_paris C, cs_hardforks = hardforks_sepolia C,
     cs_deposit_contract = default_deposit_contract C, cs_base_fee_params = fee_ethereum C,
     cs_prune_delete_limit = 10000, cs_blob_params = blob_sepolia_scheduled C\<rparr>"
| "chain_spec_of_genesis C OpMainnet = Err OnlyOpMainnet"
| "chain_spec_of_genesis C Linea = spec_of_json C (linea_genesis_json C)"
| "chain_spec_of_genesis C GOAT = spec_of_json C (goat_genesis_json C)"
| "chain_spec_of_genesis C GoatTestnet = spec_of_json C (goat_testnet_genesis_json C)"
| "chain_spec_of_genesis C (Custom json) = spec_of_json C json"

text \<open>The conversion to \<open>OpChainSpec\<close>, whose only field is the inner specification.\<close>

fun op_chain_spec_of_genesis ::
  "('v, 'json) chain_ext \<Rightarrow> genesis \<Rightarrow> (genesis_error, 'v chain_spec) res" where
  "op_chain_spec_of_genesis C OpMainnet = Ok \<lparr>
     cs_chain = chain_optimism_mainnet C, cs_genesis = default_genesis C,
     cs_genesis_header = default_genesis_header C,
     cs_paris_block_and_final_difficulty = default_paris C, cs_hardforks = hardforks_op_mainnet C,
     cs_deposit_contract = default_deposit_contract C, cs_base_fee_params = fee_optimism C,
     cs_prune_delete_limit = 10000, cs_blob_params = default_blob_params C\<rparr>"
| "op_chain_spec_of_genesis C g = Err OnlyOpMainnet"

text \<open>\<open>chain_spec.rs\<close>.\<close>

definition spec_mainnet where "spec_mainnet C = chain_spec_of_genesis C Mainnet"
definition spec_op_mainnet where "spec_op_mainnet C = op_chain_spec_of_genesis C OpMainnet"
definition spec_linea_mainnet where "spec_linea_mainnet C = chain_spec_of_genesis C Linea"
definition spec_sepolia where "spec_sepolia C = chain_spec_of_genesis C Sepolia"

text \<open>Each genesis converts to at most one of the two kinds of specification.\<close>

lemma chain_spec_kinds:
  "chain_spec_of_genesis C g = Ok s \<Longrightarrow> op_chain_spec_of_genesis C g = Err OnlyOpMainnet"
  "op_chain_spec_of_genesis C g = Ok s \<Longrightarrow> chain_spec_of_genesis C g = Err OnlyOpMainnet"
  by (cases g; simp)+

section \<open>Account proofs\<close>

text \<open>The answer of \<open>eth_getProof\<close> and the proof it becomes, with the fields the code reads.\<close>

record rpc_storage_proof =
  rsp_key :: b256
  rsp_value :: u256
  rsp_proof :: "bytes list"

record rpc_account_proof =
  rap_address :: address
  rap_balance :: u256
  rap_code_hash :: b256
  rap_nonce :: u64
  rap_storage_hash :: b256
  rap_account_proof :: "bytes list"
  rap_storage_proof :: "rpc_storage_proof list"

record full_account_proof =
  fap_address :: address
  fap_info :: "account option"
  fap_proof :: "bytes list"
  fap_storage_root :: b256
  fap_storage_proofs :: "rpc_storage_proof list"

definition eip1186_proof_to_account_proof :: "rpc_account_proof \<Rightarrow> full_account_proof" where
  "eip1186_proof_to_account_proof proof =
     (let storage_proofs = map (\<lambda>sp. \<lparr>rsp_key = rsp_key sp, rsp_value = rsp_value sp,
            rsp_proof = rsp_proof sp\<rparr>) (rap_storage_proof proof);
          (storage_root, info) =
            (if rap_nonce proof = 0 \<and> rap_balance proof = 0 \<and> rap_storage_hash proof = 0 \<and>
                rap_code_hash proof = 0
             then (EMPTY_ROOT, None)
             else (rap_storage_hash proof,
                   Some \<lparr>ac_nonce = rap_nonce proof, ac_balance = rap_balance proof,
                         ac_bytecode_hash = Some (rap_code_hash proof)\<rparr>))
      in \<lparr>fap_address = rap_address proof, fap_info = info, fap_proof = rap_account_proof proof,
          fap_storage_root = storage_root, fap_storage_proofs = storage_proofs\<rparr>)"

text \<open>What the trie construction of \<open>mpt.rs\<close> reads of an account proof.\<close>

definition trie_view :: "full_account_proof \<Rightarrow> account_proof" where
  "trie_view p = \<lparr>ap_proof = fap_proof p, ap_storage_root = fap_storage_root p,
     ap_storage_proofs = map (\<lambda>sp. \<lparr>sp_key = rsp_key sp, sp_proof = rsp_proof sp\<rparr>) (fap_storage_proofs p)\<rparr>"

section \<open>Lemmas\<close>

lemma genesis_roundtrip: "genesis_of_chain_id i = Ok g \<longleftrightarrow> chain_id_of_genesis g = Ok i"
  by (cases g) (auto simp: genesis_of_chain_id_def)

lemma eip1186_fields:
  "fap_address (eip1186_proof_to_account_proof p) = rap_address p"
  "fap_proof (eip1186_proof_to_account_proof p) = rap_account_proof p"
  "fap_storage_proofs (eip1186_proof_to_account_proof p) = rap_storage_proof p"
proof -
  have "map (\<lambda>sp. \<lparr>rsp_key = rsp_key sp, rsp_value = rsp_value sp, rsp_proof = rsp_proof sp\<rparr>)
      (rap_storage_proof p) = rap_storage_proof p"
    by (rule map_idI) simp
  then show "fap_address (eip1186_proof_to_account_proof p) = rap_address p"
    "fap_proof (eip1186_proof_to_account_proof p) = rap_account_proof p"
    "fap_storage_proofs (eip1186_proof_to_account_proof p) = rap_storage_proof p"
    by (simp_all add: eip1186_proof_to_account_proof_def Let_def)
qed

text \<open>An absent account is converted to the empty storage root, every other to its own.\<close>

lemma eip1186_storage_root:
  "fap_storage_root (eip1186_proof_to_account_proof p) =
    (if fap_info (eip1186_proof_to_account_proof p) = None then EMPTY_ROOT else rap_storage_hash p)"
  "fap_info (eip1186_proof_to_account_proof p) = None \<longleftrightarrow>
    rap_nonce p = 0 \<and> rap_balance p = 0 \<and> rap_storage_hash p = 0 \<and> rap_code_hash p = 0"
  by (simp_all add: eip1186_proof_to_account_proof_def Let_def)

end
