(* ===== verification/Eth_Orphans.thy ===== *)
theory Eth_Orphans
  imports Eth_State
begin

text \<open>
  What \<open>add_orphaned_leafs\<close> achieves in \<open>from_transition_proofs\<close>: the last node of every exclusion
  proof taken after the block, with every suffix of its path, is resolved wherever its digest
  occurs in the tries of the parent state, so that a deletion that merges it with its branch
  meets the node and not its digest.
\<close>

section \<open>The nodes an exclusion proof adds\<close>

definition shortened :: "mpt \<Rightarrow> mpt \<Rightarrow> bool" where
  "shortened node n \<longleftrightarrow>
     (\<exists>p v ss i. data node = Leaf p v \<and> prefix_nibs p = Some ss \<and> i \<le> length ss \<and>
        n = node_of (Leaf (to_encoded_path (drop i ss) True) v)) \<or>
     (\<exists>p child ss i. data node = Extension p child \<and> prefix_nibs p = Some ss \<and> i \<le> length ss \<and>
        n = node_of (Extension (to_encoded_path (drop i ss) False) child))"

definition orphan_of :: "mpt_ext \<Rightarrow> bytes \<Rightarrow> bytes list \<Rightarrow> mpt \<Rightarrow> bool" where
  "orphan_of X key proof n \<longleftrightarrow> proof \<noteq> [] \<and> (\<exists>nodes. parse_proof X proof = Ok nodes \<and>
     is_not_included X (b256_slice (keccak X key)) nodes = Ok True \<and> shortened (last nodes) n)"

definition stays_digest :: "mpt_ext \<Rightarrow> mpt \<Rightarrow> mpt \<Rightarrow> bool" where
  "stays_digest X t n \<longleftrightarrow> (\<exists>h \<in> digests t. reference X n = RefDigest h)"

lemma shortened_iff: "shorten_node_path node = Some ns \<Longrightarrow> shortened node n \<Longrightarrow> n \<in> set ns"
  by (auto simp: shorten_node_path_def nibs_def shortened_def simp del: upt_Suc)

lemma dom_store_node: "dom (hm_get (store_node X n m)) = Set.insert (reference X n) (dom (hm_get m))"
  by (simp add: store_node_def)

lemma dom_store_nodes: "dom (hm_get (store_nodes X ns m)) = reference X ` set ns \<union> dom (hm_get m)"
  unfolding store_nodes_def by (induction ns arbitrary: m) (auto simp: dom_store_node)

lemma store_nodes_mono: "dom (hm_get m) \<subseteq> dom (hm_get (store_nodes X ns m))"
  by (simp add: dom_store_nodes)

lemma store_proof_dom:
  assumes "store_proof X proof (r, m) = Ok (r', m')"
  shows "dom (hm_get m) \<subseteq> dom (hm_get m')"
proof -
  obtain ns where "m' = store_nodes X ns m" using assms by (auto simp: store_proof_def res_ok_simps)
  then show ?thesis using store_nodes_mono by blast
qed

lemma add_orphaned_leafs_dom:
  assumes "add_orphaned_leafs X key proof m = Ok m'"
  shows "dom (hm_get m) \<subseteq> dom (hm_get m')" and "orphan_of X key proof n \<Longrightarrow> reference X n \<in> dom (hm_get m')"
proof -
  have "m' = m \<or> (\<exists>ns. m' = store_nodes X ns m)"
    using assms by (auto simp: add_orphaned_leafs_def res_ok_simps split: if_splits)
  then show "dom (hm_get m) \<subseteq> dom (hm_get m')" using store_nodes_mono by blast
  show "reference X n \<in> dom (hm_get m')" if orphan: "orphan_of X key proof n"
  proof -
    obtain nodes where nodes: "proof \<noteq> []" "parse_proof X proof = Ok nodes"
      "is_not_included X (b256_slice (keccak X key)) nodes = Ok True" "shortened (last nodes) n"
      using orphan by (auto simp: orphan_of_def)
    then obtain ns where "shorten_node_path (last nodes) = Some ns" "m' = store_nodes X ns m"
      using assms by (auto simp: add_orphaned_leafs_def res_ok_simps split: if_splits)
    then show ?thesis using shortened_iff nodes(4) by (auto simp: dom_store_nodes)
  qed
qed

lemma orphans_dom:
  "res_fold (\<lambda>sp. add_orphaned_leafs X (b256_slice (sp_key sp)) (sp_proof sp)) sps m = Ok m' \<Longrightarrow>
    dom (hm_get m) \<subseteq> dom (hm_get m') \<and>
    (\<forall>sp \<in> set sps. \<forall>n. orphan_of X (b256_slice (sp_key sp)) (sp_proof sp) n \<longrightarrow> reference X n \<in> dom (hm_get m'))"
proof (induction sps arbitrary: m)
  case (Cons sp sps)
  then obtain m1 where m1: "add_orphaned_leafs X (b256_slice (sp_key sp)) (sp_proof sp) m = Ok m1"
    "res_fold (\<lambda>sp. add_orphaned_leafs X (b256_slice (sp_key sp)) (sp_proof sp)) sps m1 = Ok m'"
    by (auto simp: res_bind_eq_Ok)
  show ?case
    using add_orphaned_leafs_dom [OF m1(1)] Cons.IH [OF m1(2)] by (auto simp: subset_iff)
qed simp

section \<open>They are resolved\<close>

lemma digests_ref_fill: "digests (ref_fill X t) = digests t"
proof (induction t rule: mpt_induct)
  case (Branch cs c)
  then have "digests (ref_fill X n) = digests n" if "Some n \<in> set cs" for n
    using that by (metis in_set_conv_nth)
  then show ?case by (cases c) (auto split: option.splits)
qed (auto split: option.splits)

lemma digests_hash_fill: "digests (hash_fill X t) = digests t"
  by (simp add: hash_fill_def digests_ref_fill)

lemma resolved_no_digest:
  "resolve root m = Ok t \<Longrightarrow> reference X n \<in> dom (hm_get m) \<Longrightarrow> \<not> stays_digest X t n"
  using resolve_fuel_complete [of _ m root t]
  by (auto simp: resolve_def unwrap_opt_eq_Ok resolve_nodes_def stays_digest_def simp del: resolve_fuel.simps)

definition orphans_resolved :: "mpt_ext \<Rightarrow> (address, account_proof) hashmap \<Rightarrow> (address \<times> account_proof) list \<Rightarrow>
    proof_loop \<Rightarrow> bool" where
  "orphans_resolved X proofs seen = (\<lambda>(storage, root, nodes). \<forall>(address, proof) \<in> set seen.
     \<exists>fini. hm_get proofs address = Some fini \<and>
       (\<forall>n. orphan_of X (address_slice address) (ap_proof fini) n \<longrightarrow> reference X n \<in> dom (hm_get nodes)) \<and>
       (ap_storage_proofs proof \<noteq> [] \<longrightarrow> distinct (map (\<lambda>(a, _). hashed_address X a) seen) \<longrightarrow>
         (\<exists>t. hm_get storage (hashed_address X address) = Some t \<and> (\<forall>sp \<in> set (ap_storage_proofs fini).
           \<forall>n. orphan_of X (b256_slice (sp_key sp)) (sp_proof sp) n \<longrightarrow> \<not> stays_digest X t n))))"

lemma orphans_resolved_init: "orphans_resolved X proofs [] ([], root, [])"
  by (simp add: orphans_resolved_def)

lemma transition_step_storage:
  assumes "transition_step X proofs (address, proof) (storage, root, nodes) = Ok (storage', root', nodes')"
  obtains fini t where "hm_get proofs address = Some fini" "dom (hm_get nodes) \<subseteq> dom (hm_get nodes')"
    "\<And>n. orphan_of X (address_slice address) (ap_proof fini) n \<Longrightarrow> reference X n \<in> dom (hm_get nodes')"
    "storage' = hm_insert (hashed_address X address) t storage"
    "\<And>sp n. ap_storage_proofs proof \<noteq> [] \<Longrightarrow> sp \<in> set (ap_storage_proofs fini) \<Longrightarrow>
      orphan_of X (b256_slice (sp_key sp)) (sp_proof sp) n \<Longrightarrow> \<not> stays_digest X t n"
proof -
  obtain root1 nodes1 fini where
    r: "store_proof X (ap_proof proof) (root, nodes) = Ok (root1, nodes1)" "hm_get proofs address = Some fini"
      "add_orphaned_leafs X (address_slice address) (ap_proof fini) nodes1 = Ok nodes'"
    using assms by (auto simp: transition_step_def res_ok_simps split: if_splits)
  note dom = add_orphaned_leafs_dom [OF r(3)] store_proof_dom [OF r(1)]
  show thesis
  proof (cases "ap_storage_proofs proof = []")
    case True
    then have "storage' = hm_insert (hashed_address X address) (node_from_digest (ap_storage_root proof)) storage"
      using assms r by (auto simp: transition_step_def)
    then show thesis using that [OF r(2) order_trans [OF dom(3,1)] dom(2)] True by blast
  next
    case False
    then obtain sroot snodes snodes' t where
      f: "res_fold (\<lambda>sp. add_orphaned_leafs X (b256_slice (sp_key sp)) (sp_proof sp)) (ap_storage_proofs fini) snodes = Ok snodes'"
      "checked_storage_trie X address (ap_storage_root proof) (sroot, snodes') = Ok t"
      "storage' = hm_insert (hashed_address X address) t storage"
      using assms r by (auto simp: transition_step_def res_ok_simps)
    obtain u where u: "resolve sroot snodes' = (Ok u :: (from_proof_error, mpt) res)" "t = hash_fill X u"
      using f(2) by (auto simp: checked_storage_trie_def res_ok_simps Let_def split: if_splits)
    have "\<not> stays_digest X t n" if "sp \<in> set (ap_storage_proofs fini)"
      "orphan_of X (b256_slice (sp_key sp)) (sp_proof sp) n" for sp n
      using resolved_no_digest [OF u(1)] orphans_dom [OF f(1)] that by (simp add: u(2) stays_digest_def digests_hash_fill)
    then show thesis using that [OF r(2) order_trans [OF dom(3,1)] dom(2) f(3)] by blast
  qed
qed

lemma transition_step_orphans:
  assumes "transition_step X proofs x s = Ok s'" and "orphans_resolved X proofs seen s"
  shows "orphans_resolved X proofs (seen @ [x]) s'"
proof -
  obtain address account where x: "x = (address, account)" by (cases x)
  obtain storage root nodes where s: "s = (storage, root, nodes)" by (cases s)
  obtain storage' root' nodes' where s': "s' = (storage', root', nodes')" by (cases s')
  obtain fini t where t: "hm_get proofs address = Some fini" "dom (hm_get nodes) \<subseteq> dom (hm_get nodes')"
    "\<And>n. orphan_of X (address_slice address) (ap_proof fini) n \<Longrightarrow> reference X n \<in> dom (hm_get nodes')"
    "storage' = hm_insert (hashed_address X address) t storage"
    "\<And>sp n. ap_storage_proofs account \<noteq> [] \<Longrightarrow> sp \<in> set (ap_storage_proofs fini) \<Longrightarrow>
      orphan_of X (b256_slice (sp_key sp)) (sp_proof sp) n \<Longrightarrow> \<not> stays_digest X t n"
    by (rule transition_step_storage [OF assms(1) [unfolded x s s']]) blast
  have old: "\<exists>fini. hm_get proofs a = Some fini \<and>
      (\<forall>n. orphan_of X (address_slice a) (ap_proof fini) n \<longrightarrow> reference X n \<in> dom (hm_get nodes')) \<and>
      (ap_storage_proofs p \<noteq> [] \<longrightarrow> distinct (map (\<lambda>(a, _). hashed_address X a) (seen @ [x])) \<longrightarrow>
        (\<exists>t. hm_get storage' (hashed_address X a) = Some t \<and> (\<forall>sp \<in> set (ap_storage_proofs fini).
          \<forall>n. orphan_of X (b256_slice (sp_key sp)) (sp_proof sp) n \<longrightarrow> \<not> stays_digest X t n)))"
    if m: "(a, p) \<in> set seen" for a p
  proof -
    have ne: "hashed_address X a \<noteq> hashed_address X address"
      if "distinct (map (\<lambda>(a, _). hashed_address X a) (seen @ [x]))"
      using that m by (force simp: x)
    have "\<exists>fini. hm_get proofs a = Some fini \<and>
       (\<forall>n. orphan_of X (address_slice a) (ap_proof fini) n \<longrightarrow> reference X n \<in> dom (hm_get nodes)) \<and>
       (ap_storage_proofs p \<noteq> [] \<longrightarrow> distinct (map (\<lambda>(a, _). hashed_address X a) seen) \<longrightarrow>
         (\<exists>t. hm_get storage (hashed_address X a) = Some t \<and> (\<forall>sp \<in> set (ap_storage_proofs fini).
           \<forall>n. orphan_of X (b256_slice (sp_key sp)) (sp_proof sp) n \<longrightarrow> \<not> stays_digest X t n)))"
      using assms(2) m unfolding orphans_resolved_def s by fast
    then show ?thesis using t(2) ne by (fastforce simp: t(4))
  qed
  then show ?thesis using t(1,3,5) unfolding orphans_resolved_def s' by (auto simp: x t(4))
qed

lemma transition_orphans_resolved:
  assumes "transition_proofs_to_tries X root parent_proofs proofs = Ok st" and "(address, proof) \<in> set parent_proofs"
  obtains fini where "hm_get proofs address = Some fini"
    "\<And>n. orphan_of X (address_slice address) (ap_proof fini) n \<Longrightarrow> \<not> stays_digest X (state_trie st) n"
    "ap_storage_proofs proof \<noteq> [] \<Longrightarrow> distinct (map (\<lambda>(a, _). hashed_address X a) parent_proofs) \<Longrightarrow>
      \<exists>t. hm_get (storage_tries st) (hashed_address X address) = Some t \<and> (\<forall>sp \<in> set (ap_storage_proofs fini).
        \<forall>n. orphan_of X (b256_slice (sp_key sp)) (sp_proof sp) n \<longrightarrow> \<not> stays_digest X t n)"
proof -
  obtain storage rn ns u where
    f: "res_fold (transition_step X proofs) parent_proofs ([], mpt_default, []) = Ok (storage, rn, ns)"
    "resolve rn ns = (Ok u :: (from_proof_error, mpt) res)" "st = \<lparr>state_trie = hash_fill X u, storage_tries = storage\<rparr>"
    using assms by (auto simp: transition_proofs_to_tries_def checked_state_trie_def res_ok_simps Let_def split: if_splits)
  have "orphans_resolved X proofs ([] @ parent_proofs) (storage, rn, ns)"
    by (rule seen_fold [where I = "orphans_resolved X proofs", OF transition_step_orphans f(1) orphans_resolved_init])
  then obtain fini where fini: "hm_get proofs address = Some fini"
    "\<forall>n. orphan_of X (address_slice address) (ap_proof fini) n \<longrightarrow> reference X n \<in> dom (hm_get ns)"
    "ap_storage_proofs proof \<noteq> [] \<longrightarrow> distinct (map (\<lambda>(a, _). hashed_address X a) parent_proofs) \<longrightarrow>
      (\<exists>t. hm_get storage (hashed_address X address) = Some t \<and> (\<forall>sp \<in> set (ap_storage_proofs fini).
        \<forall>n. orphan_of X (b256_slice (sp_key sp)) (sp_proof sp) n \<longrightarrow> \<not> stays_digest X t n))"
    using assms(2) unfolding orphans_resolved_def by fastforce
  show thesis
  proof (rule that [OF fini(1)])
    show "\<not> stays_digest X (state_trie st) n" if "orphan_of X (address_slice address) (ap_proof fini) n" for n
      using resolved_no_digest [OF f(2)] fini(2) that by (simp add: f(3) stays_digest_def digests_hash_fill)
  qed (use fini(3) in \<open>simp add: f(3)\<close>)
qed

text \<open>And they change no hash: a store with them still resolves every node to its own hash.\<close>

lemma orphans_keep_hash:
  assumes "store_sound X m" and "add_orphaned_leafs X key proof m = Ok m'" and "sound_node X node"
    and "resolve node m' = Ok t"
  shows "hash X t = hash X node"
  using resolve_hash [OF store_sound_orphans [OF assms(2,1)] _ assms(3)] assms(4)
  by (simp add: resolve_def unwrap_opt_eq_Ok)

end
