(* ===== verification/State_Properties.thy ===== *)
theory State_Properties
  imports Exec_Witness Primitives Eth_Orphans Mpt_Properties
begin

text \<open>
  The properties of \<open>EthereumState\<close> (\<open>crates/mpt/src/lib.rs\<close>, \<open>execution_witness.rs\<close>, the
  constructors of \<open>mpt.rs\<close>) and of \<open>crates/primitives\<close>, each with a concrete instance.
\<close>

section \<open>Example states\<close>

text \<open>
  A fixed-width codec in the place of the RLP codecs of accounts and slot values; the theorems
  hold for any. The example state has one account whose storage holds one slot.
\<close>

definition example_account_encode :: "trie_account \<Rightarrow> bytes" where
  "example_account_encode a = b256_slice (ucast (ta_nonce a)) @ b256_slice (ta_balance a) @
     b256_slice (ta_storage_root a) @ b256_slice (ta_code_hash a)"

definition example_account_decode :: "bytes \<Rightarrow> (rlp_error, trie_account) res" where
  "example_account_decode bs =
     (if length bs = 128
      then Ok \<lparr>ta_nonce = ucast (be_word (take 32 bs)), ta_balance = be_word (take 32 (drop 32 bs)),
        ta_storage_root = be_word (take 32 (drop 64 bs)), ta_code_hash = be_word (drop 96 bs)\<rparr>
      else Err (RlpError ''InputTooShort''))"

definition example_state_ext :: state_ext where
  "example_state_ext = \<lparr>base = example_ext, account_encode = example_account_encode,
     account_decode = example_account_decode, u256_encode = b256_slice,
     u256_decode = (\<lambda>bs. ok_or (RlpError ''InputTooShort'') (b256_from_slice bs)),
     get_bytecode_hash = (\<lambda>a. case ac_bytecode_hash a of Some h \<Rightarrow> h | None \<Rightarrow> 0),
     hashed_storage_new = (\<lambda>wiped. \<lparr>hs_wiped = wiped, hs_storage = []\<rparr>)\<rparr>"

lemma example_state_sel [simp]:
  "base example_state_ext = example_ext" "account_encode example_state_ext = example_account_encode"
  "account_decode example_state_ext = example_account_decode" "u256_encode example_state_ext = b256_slice"
  "hashed_storage_new example_state_ext w = \<lparr>hs_wiped = w, hs_storage = []\<rparr>"
  by (simp_all add: example_state_ext_def)

lemma u64_of_slice: "ucast (ucast n :: b256) = n" for n :: u64
  by (rule bit_word_eqI) (simp add: bit_simps)

lemma example_account_codec [simp]: "example_account_decode (example_account_encode a) = Ok a"
  by (simp add: example_account_decode_def example_account_encode_def u64_of_slice)

definition empty_state :: ethereum_state where
  "empty_state = \<lparr>state_trie = mpt_default, storage_tries = []\<rparr>"

definition ex_account :: account where
  "ex_account = \<lparr>ac_nonce = 1, ac_balance = 10, ac_bytecode_hash = None\<rparr>"

definition ex_post :: "(b256 \<times> account option) list \<Rightarrow> hashed_post_state" where
  "ex_post accs = \<lparr>hp_accounts = accs, hp_storages = [(5, \<lparr>hs_wiped = False, hs_storage = [(7, 42)]\<rparr>)]\<rparr>"

lemma ex_post_accounts [simp]: "hp_accounts (ex_post accs) = accs"
  by (simp add: ex_post_def)

lemma ex_post_storage: "storage_of example_state_ext (ex_post accs) k =
    \<lparr>hs_wiped = False, hs_storage = if k = 5 then [(7, 42)] else []\<rparr>"
  by (simp add: storage_of_def ex_post_def)

lemma ex_post_wf: "hm_wf accs \<Longrightarrow> post_wf example_state_ext (ex_post accs)"
  by (simp add: post_wf_def ex_post_storage)

lemma empty_state_inv: "state_inv S empty_state"
  by (simp add: state_inv_def empty_state_def mpt_default_def node_of_def)

lemma get_default: "get mpt_default key = Ok None"
  by (simp add: get_def mpt_default_def node_of_def)

lemma empty_resolved: "update_resolved example_state_ext (ex_post accs) empty_state"
  by (simp add: update_resolved_def empty_state_def get_default slots_resolved_def storage_trie_of_def)

section \<open>\<open>update\<close>\<close>

text \<open>
  C6. \<open>EthereumState::update\<close> applies the post state of a block: when everything it touches is
  resolved it returns, and afterwards every account lookup answers the account of the post
  state (with the hash of its updated storage trie as storage root), nothing for a destroyed
  account and what it answered before for an untouched one. In the storage trie of an account
  that the post state lists as existing, every slot lookup answers the written value, nothing for
  a zeroed or wiped slot, and otherwise what it answered before; the storage tries of the other
  accounts, destroyed ones included, answer what they did before, whatever the post state says
  of their storage.
\<close>

theorem update_applies_post_state:
  assumes "state_inv S st" and "post_wf S ps" and "update_resolved S ps st"
  shows "\<exists>st'. update S ps st = Ok st' \<and> state_inv S st' \<and>
    (\<forall>k. get (state_trie st') (b256_slice k) = account_after S ps st st' k) \<and>
    (\<forall>k key. get (storage_trie_of (storage_tries st') k) (b256_slice key) = storage_answer S ps st k key)"
  using update_correct [OF assms] unfolding updated_def by metis

theorem update_applies_post_state_witness:
  "\<exists>st'. update example_state_ext (ex_post [(5, Some ex_account)]) empty_state = Ok st' \<and>
    get (storage_trie_of (storage_tries st') 5) (b256_slice 7) = Ok (Some (b256_slice 42))"
proof -
  have "storage_answer example_state_ext (ex_post [(5, Some ex_account)]) empty_state 5 7 = Ok (Some (b256_slice 42))"
    by (simp add: storage_answer_def slot_after_def ex_post_storage)
  then show ?thesis
    using update_applies_post_state [OF empty_state_inv ex_post_wf empty_resolved, of "[(5, Some ex_account)]"]
    by auto
qed

text \<open>
  C28. \<open>update\<close> panics exactly when a key it touches leads to an unresolved node: an account of
  the post state in the state trie, or a slot of a storage trie that is not wiped.
\<close>

theorem update_panics_iff_unresolved:
  assumes "state_inv S st" and "post_wf S ps"
  shows "update S ps st = Panic \<longleftrightarrow> \<not> update_resolved S ps st"
  using update_unresolved [OF assms] update_correct [OF assms] by (metis res.distinct(3))

theorem update_panics_iff_unresolved_witness:
  "update example_state_ext (ex_post [(5, None)]) \<lparr>state_trie = node_of (Digest 1), storage_tries = []\<rparr> = Panic"
proof -
  let ?st = "\<lparr>state_trie = node_of (Digest 1), storage_tries = []\<rparr>"
  have "state_inv example_state_ext ?st"
    by (simp add: state_inv_def node_of_def trie_inv_def wf_trie_def)
  moreover have "post_wf example_state_ext (ex_post [(5, None)])" by (simp add: ex_post_wf)
  moreover have "\<not> update_resolved example_state_ext (ex_post [(5, None)]) ?st"
    by (simp add: update_resolved_def get_def node_of_def)
  ultimately show ?thesis using update_panics_iff_unresolved by blast
qed

text \<open>
  C29. The order in which the hash maps of the post state are iterated (accounts and slots) does
  not matter: the updated state is the same up to caches, or \<open>update\<close> panics in both orders.
\<close>

theorem update_any_order:
  assumes "state_inv S st" and "post_wf S ps" and "post_wf S ps'" and "same_post S ps ps'"
  shows "map_res contents (update S ps st) = map_res contents (update S ps' st)"
  by (rule update_order_irrelevant [OF assms(1,1) refl assms(2-4)])

theorem update_any_order_witness:
  "map_res contents (update example_state_ext (ex_post [(5, Some ex_account), (6, None)]) empty_state) =
   map_res contents (update example_state_ext (ex_post [(6, None), (5, Some ex_account)]) empty_state)"
proof (rule update_any_order [OF empty_state_inv])
  show "same_post example_state_ext (ex_post [(5, Some ex_account), (6, None)]) (ex_post [(6, None), (5, Some ex_account)])"
    by (auto simp: same_post_def ex_post_storage)
qed (simp_all add: ex_post_wf)

section \<open>The constructors\<close>

text \<open>
  C12. \<open>EthereumState::from_proofs\<close>: whatever the proofs of a non-empty map say, a state that is
  returned has the expected state root, a storage trie for every account of the map and for no
  other, and each storage trie has the storage root that the account's proof declares. The nodes of
  its tries are of the kind their paths are flagged with.
\<close>

theorem from_proofs_anchored:
  assumes "from_proofs X root proofs = Ok st" and "proofs \<noteq> []"
  shows "anchored X root proofs st"
  using proofs_to_tries_anchored assms unfolding from_proofs_def .

lemma ex_parse: "parse_proof example_ext [encode example_ext leaf_a] = Ok [leaf_a]"
  using ex_decode by (simp add: parse_proof_def)

lemma resolve_leaf: "resolve leaf_a m = Ok leaf_a"
  by (simp add: resolve_def resolve_nodes_def leaf_a_def)

lemma ex_store_proof: "store_proof example_ext [encode example_ext leaf_a] (r, m) =
    Ok (leaf_a, store_nodes example_ext [leaf_a] m)"
  by (simp add: store_proof_def ex_parse mpt_from_proof_def from_proof_step_def)

lemma leaf_a_hash: "hash example_ext leaf_a = 256 * 33 + 5"
  using ex_refs(1) by (simp add: hash_def leaf_a_def node_of_def)

text \<open>An account whose storage proof is the proof of \<open>leaf_a\<close>.\<close>

definition ex_proof :: account_proof where
  "ex_proof = \<lparr>ap_proof = [encode example_ext leaf_a], ap_storage_root = 256 * 33 + 5,
     ap_storage_proofs = [\<lparr>sp_key = 1, sp_proof = [encode example_ext leaf_a]\<rparr>]\<rparr>"

lemma ex_from_proofs: "\<exists>st. from_proofs example_ext (256 * 33 + 5) [(9, ex_proof)] = Ok st"
  by (simp add: from_proofs_def proofs_to_tries_def proofs_step_def ex_proof_def ex_store_proof
      checked_storage_trie_def checked_state_trie_def resolve_leaf leaf_a_hash)

theorem from_proofs_anchored_witness:
  "\<exists>st. from_proofs example_ext (256 * 33 + 5) [(9, ex_proof)] = Ok st \<and>
    anchored example_ext (256 * 33 + 5) [(9, ex_proof)] st"
  using ex_from_proofs from_proofs_anchored by blast

text \<open>
  C13. \<open>EthereumState::from_transition_proofs\<close> (the state the host builds from the proofs before
  and after the block): every account of the parent proofs has proofs after the block too, and
  when such a later proof shows that its account is absent, the leaf or extension the proof ends with,
  with any suffix of its path, is nowhere left as a digest in the state trie; likewise for the slots of an account
  with storage proofs and its storage trie (the hashed addresses being distinct). So the deletions
  of the block find the nodes they have to merge. Adding these nodes changes no hash: from a
  store of nodes filed under their references, every node is still resolved to a trie with its
  own hash. And the returned state is anchored in the parent proofs as in C12.
\<close>

theorem transition_orphans:
  assumes "from_transition_proofs X root parent_proofs proofs = Ok st" and "(address, account) \<in> set parent_proofs"
  shows "anchored X root parent_proofs st \<and>
    (\<exists>fini. hm_get proofs address = Some fini \<and>
      (\<forall>n. orphan_of X (address_slice address) (ap_proof fini) n \<longrightarrow> \<not> stays_digest X (state_trie st) n) \<and>
      (ap_storage_proofs account \<noteq> [] \<longrightarrow> distinct (map (\<lambda>(a, _). hashed_address X a) parent_proofs) \<longrightarrow>
        (\<exists>t. hm_get (storage_tries st) (hashed_address X address) = Some t \<and>
          (\<forall>sp \<in> set (ap_storage_proofs fini). \<forall>n.
            orphan_of X (b256_slice (sp_key sp)) (sp_proof sp) n \<longrightarrow> \<not> stays_digest X t n)))) \<and>
    (\<forall>key nodes m m' n t. store_sound X m \<longrightarrow> add_orphaned_leafs X key nodes m = Ok m' \<longrightarrow> sound_node X n \<longrightarrow>
      resolve n m' = (Ok t :: (from_proof_error, mpt) res) \<longrightarrow> hash X t = hash X n)"
proof (intro conjI)
  note ok = assms(1) [unfolded from_transition_proofs_def]
  show "anchored X root parent_proofs st"
    using transition_proofs_to_tries_anchored [OF ok] assms(2) by fastforce
  show "\<exists>fini. hm_get proofs address = Some fini \<and>
      (\<forall>n. orphan_of X (address_slice address) (ap_proof fini) n \<longrightarrow> \<not> stays_digest X (state_trie st) n) \<and>
      (ap_storage_proofs account \<noteq> [] \<longrightarrow> distinct (map (\<lambda>(a, _). hashed_address X a) parent_proofs) \<longrightarrow>
        (\<exists>t. hm_get (storage_tries st) (hashed_address X address) = Some t \<and>
          (\<forall>sp \<in> set (ap_storage_proofs fini). \<forall>n.
            orphan_of X (b256_slice (sp_key sp)) (sp_proof sp) n \<longrightarrow> \<not> stays_digest X t n)))"
    by (rule transition_orphans_resolved [OF ok assms(2)]) metis
qed (use orphans_keep_hash in blast)

text \<open>
  The example: a branch of which only the digests of the leaves are proved, and a later proof of
  absence that ends in one of these leaves.
\<close>

definition ex_cut :: mpt where
  "ex_cut = ex_branch [(1, node_of (Digest (256 * 33 + 5))), (9, node_of (Digest (256 * 34 + 7)))]"

lemma ex_cut_decode: "decode example_ext (encode example_ext ex_trie) = Ok ex_cut"
proof -
  have "canon ex_trie" using ex_wf(1) by (simp add: wf_trie_def ex_trie_defs)
  then have "decode example_ext (encode example_ext (erase ex_trie)) = Ok (cut_refs example_ext ex_trie)"
    using decode_encoded [OF example_laws(1-3) _ ex_sized(3)] by (simp add: decode_def del: decode_fuel.simps)
  moreover have "cut_refs example_ext ex_trie = ex_cut"
    using ex_refs by (simp add: ex_trie_def ex_cut_def ex_branch_def leaf_a_def leaf_b_def node_of_def upt_rec)
  ultimately show ?thesis by (simp only: ex_erase)
qed

lemma ex_decode_b: "decode example_ext (encode example_ext leaf_b) = Ok leaf_b"
proof -
  have "canon leaf_b" by code_simp
  then have "decode example_ext (encode example_ext (erase leaf_b)) = Ok (cut_refs example_ext leaf_b)"
    using decode_encoded [OF example_laws(1-3) _ ex_sized(2)] by (simp add: decode_def del: decode_fuel.simps)
  then show ?thesis using ex_erase(2) by (simp add: leaf_b_def node_of_def)
qed

definition ex_before :: account_proof where
  "ex_before = \<lparr>ap_proof = [encode example_ext ex_trie], ap_storage_root = EMPTY_ROOT, ap_storage_proofs = []\<rparr>"

definition ex_after :: account_proof where
  "ex_after = \<lparr>ap_proof = [encode example_ext leaf_b], ap_storage_root = EMPTY_ROOT, ap_storage_proofs = []\<rparr>"

lemma ex_cut_reference: "reference example_ext ex_cut = RefDigest (256 * 83 + 0x80)"
  and ex_cut_hash: "hash example_ext ex_cut = 256 * 83 + 0x80"
proof -
  have d: "data ex_cut = Branch (map (map_of [(1, node_of (Digest (256 * 33 + 5))), (9, node_of (Digest (256 * 34 + 7)))]) [0..<16])"
    and c: "cached_reference ex_cut = None"
    by (simp_all add: ex_cut_def ex_branch_def)
  have "map_node_data (reference example_ext) (data ex_cut) = ex_root_refs"
    by (simp add: d ex_root_refs_def upt_rec node_of_def calc_reference_def)
  then have e: "encode example_ext ex_cut = encode example_ext ex_trie"
    by (simp add: encode_def refs_def ex_root)
  have coh: "coherent example_ext ex_cut" using ex_cut_decode decode_coherent by blast
  have "erase ex_cut = ex_cut" by (simp add: ex_cut_def ex_branch_def node_of_def upt_rec)
  then have "fresh_ref example_ext ex_cut = RefDigest (toy_digest (encode example_ext ex_cut))"
    using fresh_ref_list [of ex_cut example_ext] ex_root_bytes(1) 
    by (simp add: e d is_list_node_def)
  then show r: "reference example_ext ex_cut = RefDigest (256 * 83 + 0x80)"
    using ex_keccak(1) reference_coherent [OF coh] by (simp add: e)
  then show "hash example_ext ex_cut = 256 * 83 + 0x80"
    using c by (simp add: hash_def d)
qed

lemma ex_shorten: "shorten_node_path leaf_b = Some [leaf_b, node_of (Leaf [0x20] (replicate 31 7))]"
  by (simp add: shorten_node_path_def nibs_def leaf_b_def prefix_nibs_def to_encoded_path_def upt_rec)

lemma ex_orphans: "add_orphaned_leafs example_ext (address_slice 9) [encode example_ext leaf_b] m =
    Ok (store_nodes example_ext [leaf_b, node_of (Leaf [0x20] (replicate 31 7))] m)" (is ?added)
  and ex_orphan: "orphan_of example_ext (address_slice 9) [encode example_ext leaf_b] leaf_b"
proof -
  have p: "parse_proof example_ext [encode example_ext leaf_b] = Ok [leaf_b]"
    using ex_decode_b by (simp add: parse_proof_def)
  have "[4] \<noteq> to_nibs (b256_slice k)" for k
    by (auto dest: arg_cong [of _ _ length])
  then have "get leaf_b (b256_slice k) = Ok None" for k
    by (simp add: leaf_b_def node_of_def get_def prefix_nibs_def)
  then have ni: "is_not_included example_ext (b256_slice k) [leaf_b] = Ok True" for k
    by (simp add: is_not_included_def mpt_from_proof_def from_proof_step_def)
  show ?added using ex_shorten by (simp add: add_orphaned_leafs_def p ni)
  have "0 \<le> length [4 :: u8]" "leaf_b = node_of (Leaf (to_encoded_path (drop 0 [4]) True) (replicate 31 7))"
    by (simp_all add: leaf_b_def to_encoded_path_def)
  moreover have "data leaf_b = Leaf [0x34] (replicate 31 7)" "prefix_nibs [0x34] = Some [4]"
    by (simp_all add: leaf_b_def prefix_nibs_def)
  ultimately have "shortened leaf_b leaf_b" unfolding shortened_def by blast
  then show "orphan_of example_ext (address_slice 9) [encode example_ext leaf_b] leaf_b"
    using ni p by (simp add: orphan_of_def)
qed

lemma ex_transition: "\<exists>st. from_transition_proofs example_ext (256 * 83 + 0x80) [(9, ex_before)] [(9, ex_after)] = Ok st"
proof -
  let ?short = "node_of (Leaf [0x20] (replicate 31 7))"
  let ?m = "store_nodes example_ext [leaf_b, ?short] (store_nodes example_ext [ex_cut] [])"
  have p: "store_proof example_ext (ap_proof ex_before) (mpt_default, []) = Ok (ex_cut, store_nodes example_ext [ex_cut] [])"
    by (simp add: store_proof_def ex_before_def parse_proof_def ex_cut_decode mpt_from_proof_def from_proof_step_def)
  have sound: "store_sound example_ext ?m" "sound_node example_ext ex_cut"
  proof -
    show c: "sound_node example_ext ex_cut" using decode_sound [OF ex_cut_decode] .
    have "sound_node example_ext leaf_b" using decode_sound [OF ex_decode_b] .
    moreover have "\<forall>n \<in> set [leaf_b, ?short]. sound_node example_ext n"
      using shorten_node_path_sound [OF ex_shorten calculation] .
    ultimately show "store_sound example_ext ?m"
      using c by (intro store_sound_nodes) auto
  qed
  have leaf: "digests (ref_fill example_ext leaf_b) = {}" "digests (ref_fill example_ext ?short) = {}"
    by (simp_all add: digests_ref_fill) (simp_all add: leaf_b_def node_of_def)
  have "set ?m \<subseteq> {(reference example_ext n, ref_fill example_ext n) | n. n = ex_cut \<or> n = leaf_b \<or> n = ?short}"
    unfolding store_nodes_def store_node_def by (auto dest!: set_hm_insert [THEN subsetD])
  moreover have "\<forall>h \<in> digests (ref_fill example_ext ex_cut). h \<noteq> 256 * 83 + 0x80"
    by (auto simp: digests_ref_fill ex_cut_def ex_branch_def node_of_def upt_rec)
  ultimately have "acyclic_store (\<lambda>h. if h = 256 * 83 + 0x80 then 1 else 0) ?m"
    using leaf ex_cut_reference unfolding acyclic_store_def by fastforce
  then obtain t where "resolve_nodes ex_cut ?m = Some t" using resolve_nodes_returns by blast
  moreover from this have "hash example_ext t = 256 * 83 + 0x80"
    using resolve_hash [OF sound(1) _ sound(2)] ex_cut_hash by simp
  ultimately have "checked_state_trie example_ext (256 * 83 + 0x80) ex_cut ?m = Ok (hash_fill example_ext t)"
    by (simp add: checked_state_trie_def resolve_def)
  moreover have "ap_storage_proofs ex_before = []" "ap_proof ex_after = [encode example_ext leaf_b]"
    by (simp_all add: ex_before_def ex_after_def)
  ultimately show ?thesis
    by (simp add: from_transition_proofs_def transition_proofs_to_tries_def transition_step_def p ex_orphans)
qed

theorem transition_orphans_witness:
  "\<exists>st. from_transition_proofs example_ext (256 * 83 + 0x80) [(9, ex_before)] [(9, ex_after)] = Ok st \<and>
    256 * 34 + 7 \<in> digests ex_cut \<and> 256 * 34 + 7 \<notin> digests (state_trie st)"
proof -
  obtain st where st: "from_transition_proofs example_ext (256 * 83 + 0x80) [(9, ex_before)] [(9, ex_after)] = Ok st"
    using ex_transition by blast
  have "ap_proof ex_after = [encode example_ext leaf_b]" by (simp add: ex_after_def)
  then have "\<not> stays_digest example_ext (state_trie st) leaf_b"
    using transition_orphans [OF st, of 9 ex_before] ex_orphan by auto
  then have "256 * 34 + 7 \<notin> digests (state_trie st)" using ex_refs(2) by (auto simp: stays_digest_def)
  moreover have "256 * 34 + 7 \<in> digests ex_cut"
    by (simp add: ex_cut_def ex_branch_def node_of_def upt_rec)
  ultimately show ?thesis using st by blast
qed

text \<open>
  C11. \<open>from_execution_witness\<close>: whatever nodes the execution witness holds, a state that is
  returned has the expected root, and each of its storage tries is resolved at the root and
  hashes to the storage root of an account that a lookup finds in the state trie. The nodes of its
  tries are of the kind their paths are flagged with.
\<close>

theorem execution_witness_validated:
  assumes "from_execution_witness S N witness_state root = Ok st"
  shows "validated S root st"
  using build_validated assms
  by (auto simp: from_execution_witness_def res_ok_simps)

definition ex_holder :: trie_account where
  "ex_holder = \<lparr>ta_nonce = 1, ta_balance = 10, ta_storage_root = 256 * 33 + 5, ta_code_hash = 3\<rparr>"

definition ex_state_leaf :: mpt where
  "ex_state_leaf = node_of (Leaf (to_encoded_path (to_nibs (b256_slice 5121)) True) (example_account_encode ex_holder))"

lemma ex_state_leaf_sel: "data ex_state_leaf = Leaf (to_encoded_path (to_nibs (b256_slice 5121)) True) (example_account_encode ex_holder)"
  "erase ex_state_leaf = ex_state_leaf" "coherent X ex_state_leaf" "canon ex_state_leaf"
  by (simp_all add: ex_state_leaf_def node_of_def)

lemma ex_state_path: "length (to_encoded_path (to_nibs (b256_slice 5121)) True) = 33"
  by (simp add: to_encoded_path_def)

lemma ex_state_value: "length (example_account_encode ex_holder) = 128"
  by (simp add: example_account_encode_def)

lemma b256_slice_nonempty [simp]: "b256_slice d \<noteq> []"
  using length_b256_slice [of d] by (metis list.size(3) zero_neq_numeral)

lemma ex_state_encoded: "length (encode example_ext ex_state_leaf) = 166"
  "last (encode example_ext ex_state_leaf) = 3"
proof -
  have "last (b256_slice 3) = 3" by (simp add: b256_slice_def upt_rec)
  then have "last (example_account_encode ex_holder) = 3"
    by (simp add: example_account_encode_def ex_holder_def)
  moreover have "example_account_encode ex_holder \<noteq> []" using ex_state_value by auto
  ultimately show "last (encode example_ext ex_state_leaf) = 3"
    by (simp add: encode_def refs_def ex_state_leaf_sel w_slice_def ex_state_value)
  show "length (encode example_ext ex_state_leaf) = 166"
    using length_encode_refs [OF example_length_laws, of "refs example_ext ex_state_leaf"]
    by (simp add: encode_def refs_def ex_state_leaf_sel ex_state_path ex_state_value ex_writer)
qed

lemma ex_state_sized: "sized example_ext ex_state_leaf"
  by (simp add: ex_state_leaf_def node_of_def ex_state_path ex_state_value ex_writer)

lemma ex_state_decode: "decode example_ext (encode example_ext ex_state_leaf) = Ok ex_state_leaf"
proof -
  have "decode example_ext (encode example_ext (erase ex_state_leaf)) = Ok (cut_refs example_ext ex_state_leaf)"
    using decode_encoded [OF example_laws(1-3) ex_state_leaf_sel(4) ex_state_sized]
    by (simp add: decode_def del: decode_fuel.simps)
  moreover have "cut_refs example_ext ex_state_leaf = ex_state_leaf" by (simp add: ex_state_leaf_def node_of_def)
  ultimately show ?thesis by (simp only: ex_state_leaf_sel(2))
qed

lemma ex_state_hash: "keccak256 example_ext (encode example_ext ex_state_leaf) = 256 * 166 + 3"
  "hash example_ext ex_state_leaf = 256 * 166 + 3"
proof -
  show k: "keccak256 example_ext (encode example_ext ex_state_leaf) = 256 * 166 + 3"
    using ex_state_encoded by (auto simp: toy_digest_def)
  have "fresh_ref example_ext ex_state_leaf = RefDigest (toy_digest (encode example_ext ex_state_leaf))"
    using fresh_ref_list [of ex_state_leaf example_ext] ex_state_encoded
    by (simp add: ex_state_leaf_sel is_list_node_def)
  then have "reference example_ext ex_state_leaf = RefDigest (256 * 166 + 3)"
    using k by (simp add: ex_state_leaf_sel)
  then show "hash example_ext ex_state_leaf = 256 * 166 + 3"
    by (simp add: hash_def ex_state_leaf_sel)
qed

lemma ex_state_get: "get ex_state_leaf (b256_slice 5121) = Ok (Some (example_account_encode ex_holder))"
  by (simp add: get_def ex_state_leaf_def node_of_def hp.dec_enc)

lemma ex_state_leaves: "for_each_leaves list_nibs ex_state_leaf = Some [(b256_slice 5121, example_account_encode ex_holder)]"
  by (simp add: for_each_leaves_def ex_state_leaf_def node_of_def list_nibs_def extend_path_def hp.dec_enc)

lemma ex_from_witness:
  "\<exists>st. from_execution_witness example_state_ext list_nibs
     [encode example_ext leaf_a, encode example_ext ex_state_leaf] (256 * 166 + 3) = (Ok st :: (mpt_error, _) res)"
proof -
  have leaf: "keccak256 example_ext (encode example_ext leaf_a) = 256 * 33 + 5" using ex_keccak(2) by simp
  have r: "resolve ex_state_leaf m = Ok ex_state_leaf" for m
    by (simp add: resolve_def resolve_nodes_def ex_state_leaf_sel)
  have nd: "\<not> is_digest leaf_a" by (simp add: leaf_a_def is_digest_def)
  show ?thesis
    by (simp add: from_execution_witness_def build_validated_tries_def index_node_def ex_decode ex_state_decode
        leaf ex_state_hash r ex_state_leaves leaf_storage_root_def ex_holder_def [symmetric] insert_storage_trie_def
        resolve_leaf nd validate_state_trie_def validate_storage_tries_def validate_storage_trie_def get_rlp_def
        ex_state_get leaf_a_hash Let_def del: example_sel(1))
      (simp add: ex_holder_def resolve_leaf nd leaf_a_hash)
qed

theorem execution_witness_validated_witness:
  "\<exists>st. from_execution_witness example_state_ext list_nibs
     [encode example_ext leaf_a, encode example_ext ex_state_leaf] (256 * 166 + 3) = (Ok st :: (mpt_error, _) res) \<and>
     validated example_state_ext (256 * 166 + 3) st"
  using ex_from_witness execution_witness_validated by blast

section \<open>Chains and account proofs\<close>

text \<open>
  The chain ids and the supported chains are in bijection: \<open>Genesis::try_from\<close> accepts an id
  exactly when converting the genesis back gives that id, and a custom genesis has no id.
\<close>

lemma genesis_ids: "genesis_of_chain_id i = Ok g \<longleftrightarrow> chain_id_of_genesis g = Ok i"
  by (rule genesis_roundtrip)

text \<open>
  \<open>eip1186_proof_to_account_proof\<close> carries address, proof nodes and storage proofs over
  unchanged; the account is absent exactly when nonce, balance, storage hash and code hash are
  all zero, and its storage root is then the empty root, otherwise the storage hash of the answer.
\<close>

lemma account_proof_conversion:
  "fap_address (eip1186_proof_to_account_proof p) = rap_address p \<and>
   fap_proof (eip1186_proof_to_account_proof p) = rap_account_proof p \<and>
   fap_storage_proofs (eip1186_proof_to_account_proof p) = rap_storage_proof p \<and>
   (fap_info (eip1186_proof_to_account_proof p) = None) =
     (rap_nonce p = 0 \<and> rap_balance p = 0 \<and> rap_storage_hash p = 0 \<and> rap_code_hash p = 0) \<and>
   fap_storage_root (eip1186_proof_to_account_proof p) =
     (if fap_info (eip1186_proof_to_account_proof p) = None then EMPTY_ROOT else rap_storage_hash p)"
  using eip1186_fields [of p] eip1186_storage_root [of p] by simp

end
