(* ===== verification/Database.thy ===== *)
theory Database
  imports Eth_Update
begin

text \<open>
  The interface \<open>revm::DatabaseRef\<close> as the repository's databases provide it over an
  \<open>EthereumState\<close>: the account and slot answers are reads of the state's tries. The users of
  a database (the block executor) get from it that the answers depend on nothing but the
  state root.
\<close>

section \<open>Data\<close>

text \<open>\<open>revm::state::AccountInfo\<close>; a bytecode is its bytes.\<close>

record account_info =
  ai_balance :: u256
  ai_nonce :: u64
  ai_code_hash :: b256
  ai_code :: "bytes option"

definition info_of_account :: "trie_account \<Rightarrow> account_info" where
  "info_of_account account_in_trie =
     \<lparr>ai_balance = ta_balance account_in_trie, ai_nonce = ta_nonce account_in_trie,
      ai_code_hash = ta_code_hash account_in_trie, ai_code = None\<rparr>"

text \<open>\<open>index.to_be_bytes::<32>()\<close> and \<open>B256::from(index)\<close> have the layout of a digest.\<close>

definition hashed_slot :: "mpt_ext \<Rightarrow> u256 \<Rightarrow> b256" where
  "hashed_slot X index = keccak256 X (b256_slice index)"

definition account_read ::
  "state_ext \<Rightarrow> ethereum_state \<Rightarrow> address \<Rightarrow> (mpt_error, trie_account option) res" where
  "account_read S st address =
     get_rlp (account_decode S) (state_trie st) (b256_slice (hashed_address (base S) address))"

definition slot_read :: "state_ext \<Rightarrow> mpt \<Rightarrow> u256 \<Rightarrow> (mpt_error, u256 option) res" where
  "slot_read S t index = get_rlp (u256_decode S) t (b256_slice (hashed_slot (base S) index))"

definition value_or_zero :: "u256 option \<Rightarrow> u256" where
  "value_or_zero v = (case v of Some x \<Rightarrow> x | None \<Rightarrow> 0)"

section \<open>States with one root\<close>

text \<open>
  A state whose storage tries are those of its accounts: what \<open>witness_db\<close> and
  \<open>build_validated_tries\<close> check, with the size bounds of RLP and coherent caches.
\<close>

definition storage_root_of :: "state_ext \<Rightarrow> ethereum_state \<Rightarrow> b256 \<Rightarrow> (mpt_error, b256) res" where
  "storage_root_of S st k =
     map_res (\<lambda>found. case found of Some a \<Rightarrow> ta_storage_root a | None \<Rightarrow> EMPTY_ROOT)
       (get_rlp (account_decode S) (state_trie st) (b256_slice k))"

definition trie_ok :: "state_ext \<Rightarrow> mpt \<Rightarrow> bool" where
  "trie_ok S t \<longleftrightarrow> well_kinded t \<and> sized (base S) t \<and> coherent (base S) t"

definition rooted :: "state_ext \<Rightarrow> b256 \<Rightarrow> ethereum_state \<Rightarrow> bool" where
  "rooted S root st \<longleftrightarrow> trie_ok S (state_trie st) \<and> state_root (base S) st = root \<and>
     (\<forall>k t. hm_get (storage_tries st) k = Some t \<longrightarrow>
        trie_ok S t \<and> storage_root_of S st k = Ok (hash (base S) t))"

text \<open>\<open>keccak256\<close> does not collide on the nodes of two tries.\<close>

definition no_collision :: "state_ext \<Rightarrow> mpt \<Rightarrow> mpt \<Rightarrow> bool" where
  "no_collision S a b \<longleftrightarrow>
     collision_free (base S) ([empty_string_code (base S)] # encodings (base S) a @ encodings (base S) b)"

definition no_state_collision :: "state_ext \<Rightarrow> ethereum_state \<Rightarrow> ethereum_state \<Rightarrow> bool" where
  "no_state_collision S st st' \<longleftrightarrow> no_collision S (state_trie st) (state_trie st') \<and>
     (\<forall>k t t'. hm_get (storage_tries st) k = Some t \<longrightarrow> hm_get (storage_tries st') k = Some t' \<longrightarrow>
        no_collision S t t')"

text \<open>What the RLP and hashing libraries must satisfy.\<close>

definition ext_laws :: "mpt_ext \<Rightarrow> bool" where
  "ext_laws X \<longleftrightarrow> rlp_laws X \<and> length_laws X \<and> rlp_shrinks X \<and>
     keccak256 X [empty_string_code X] = EMPTY_ROOT"

lemma same_root_get:
  assumes "ext_laws (base S)" and "trie_ok S a" and "trie_ok S b" and "no_collision S a b"
    and "hash (base S) a = hash (base S) b" and "get a key = Ok x" and "get b key = Ok y"
  shows "x = y"
  using same_hash_reads [of "base S" a b "to_nibs key" x y] assms
  by (simp add: ext_laws_def trie_ok_def no_collision_def get_def)

lemma same_root_get_rlp:
  assumes "ext_laws (base S)" and "trie_ok S a" and "trie_ok S b" and "no_collision S a b"
    and "hash (base S) a = hash (base S) b"
    and "get_rlp dec a key = Ok x" and "get_rlp dec b key = Ok y"
  shows "x = y"
proof -
  obtain u v where uv: "get a key = Ok u" "get b key = Ok v"
    using assms(6,7) by (auto simp: get_rlp_def res_ok_simps)
  then have "u = v" using same_root_get [OF assms(1-5)] by blast
  then show ?thesis using assms(6,7) uv by (simp add: get_rlp_def)
qed

lemma same_root_account:
  assumes "ext_laws (base S)" and st: "rooted S root st" and st': "rooted S root st'"
    and "no_state_collision S st st'"
    and "get_rlp dec (state_trie st) key = Ok x" and "get_rlp dec (state_trie st') key = Ok y"
  shows "x = y"
proof (rule same_root_get_rlp [OF assms(1) _ _ _ _ assms(5,6)])
  show "trie_ok S (state_trie st)" "trie_ok S (state_trie st')"
    using st st' by (simp_all add: rooted_def)
  show "no_collision S (state_trie st) (state_trie st')"
    using assms(4) by (simp add: no_state_collision_def)
  show "hash (base S) (state_trie st) = hash (base S) (state_trie st')"
    using st st' by (simp add: rooted_def state_root_def)
qed

section \<open>The interface\<close>

text \<open>
  \<open>state_of\<close> is the state behind a database. \<open>storage\<close> may answer zero for an account whose
  storage trie the state does not have (\<open>missing_ok\<close>); a database that panics there has
  \<open>missing_ok = False\<close>.
\<close>

locale state_database =
  fixes S :: state_ext
    and missing_ok :: bool
    and state_of :: "'db \<Rightarrow> ethereum_state"
    and basic :: "'db \<Rightarrow> address \<Rightarrow> ('e, account_info option) res"
    and storage :: "'db \<Rightarrow> address \<Rightarrow> u256 \<Rightarrow> ('e, u256) res"
  assumes basic_read: "basic d a = Ok x \<Longrightarrow>
      \<exists>y. account_read S (state_of d) a = Ok y \<and> x = map_option info_of_account y"
    and storage_read: "storage d a i = Ok v \<Longrightarrow>
      (case hm_get (storage_tries (state_of d)) (hashed_address (base S) a) of
         Some t \<Rightarrow> \<exists>w. slot_read S t i = Ok w \<and> v = value_or_zero w
       | None \<Rightarrow> missing_ok \<and> v = 0)"
begin

lemma basic_unique:
  assumes "ext_laws (base S)" and "rooted S root (state_of d)" and "rooted S root (state_of d')"
    and "no_state_collision S (state_of d) (state_of d')"
    and "basic d a = Ok x" and "basic d' a = Ok x'"
  shows "x = x'"
proof -
  obtain y y' where y: "account_read S (state_of d) a = Ok y" "x = map_option info_of_account y"
    "account_read S (state_of d') a = Ok y'" "x' = map_option info_of_account y'"
    using basic_read assms(5,6) by blast
  then have "y = y'"
    using same_root_account [OF assms(1-4)] unfolding account_read_def by auto
  then show ?thesis using y by simp
qed

lemma storage_unique:
  assumes "ext_laws (base S)" and "rooted S root (state_of d)" and "rooted S root (state_of d')"
    and "no_state_collision S (state_of d) (state_of d')" and "\<not> missing_ok"
    and "storage d a i = Ok v" and "storage d' a i = Ok v'"
  shows "v = v'"
proof -
  let ?k = "hashed_address (base S) a"
  obtain t w t' w' where t: "hm_get (storage_tries (state_of d)) ?k = Some t" "slot_read S t i = Ok w"
      "v = value_or_zero w"
    "hm_get (storage_tries (state_of d')) ?k = Some t'" "slot_read S t' i = Ok w'" "v' = value_or_zero w'"
    using storage_read [OF assms(6)] storage_read [OF assms(7)] assms(5) by (auto split: option.splits)
  have ok: "trie_ok S t" "trie_ok S t'" "no_collision S t t'"
    "storage_root_of S (state_of d) ?k = Ok (hash (base S) t)"
    "storage_root_of S (state_of d') ?k = Ok (hash (base S) t')"
    using assms(2-4) t(1,4) by (simp_all add: rooted_def no_state_collision_def)
  obtain y y' where y: "get_rlp (account_decode S) (state_trie (state_of d)) (b256_slice ?k) = Ok y"
      "get_rlp (account_decode S) (state_trie (state_of d')) (b256_slice ?k) = Ok y'"
      "hash (base S) t = (case y of Some a \<Rightarrow> ta_storage_root a | None \<Rightarrow> EMPTY_ROOT)"
      "hash (base S) t' = (case y' of Some a \<Rightarrow> ta_storage_root a | None \<Rightarrow> EMPTY_ROOT)"
    using ok(4,5) by (auto simp: storage_root_of_def map_res_eq_Ok)
  have "y = y'" by (rule same_root_account [OF assms(1-4) y(1,2)])
  then have "w = w'"
    using same_root_get_rlp [OF assms(1) ok(1-3)] y(3,4) t(2,5) unfolding slot_read_def by simp
  then show ?thesis using t by simp
qed

end

end
