(* ===== verification/Witness_Db.thy ===== *)
theory Witness_Db
  imports Database Primitives
begin

text \<open>
  \<open>crates/executor/guest/src/io.rs\<close>: the input of the guest program, \<open>WitnessInput::witness_db\<close>,
  which checks the input against the parent state root and the header chain, and \<open>TrieDB\<close>,
  the database the guest executes on.
\<close>

section \<open>Headers and blocks\<close>

text \<open>\<open>alloy_consensus::Header\<close>, by the fields the code builds it from.\<close>

record header =
  hd_parent_hash :: b256
  hd_ommers_hash :: b256
  hd_beneficiary :: address
  hd_state_root :: b256
  hd_transactions_root :: b256
  hd_receipts_root :: b256
  hd_logs_bloom :: "2048 word"
  hd_difficulty :: u256
  hd_number :: u64
  hd_gas_limit :: u64
  hd_gas_used :: u64
  hd_timestamp :: u64
  hd_extra_data :: bytes
  hd_mix_hash :: b256
  hd_nonce :: "64 word"
  hd_base_fee_per_gas :: "u64 option"
  hd_withdrawals_root :: "b256 option"
  hd_blob_gas_used :: "u64 option"
  hd_excess_blob_gas :: "u64 option"
  hd_parent_beacon_block_root :: "b256 option"
  hd_requests_hash :: "b256 option"

record sealed_header =
  sh_header :: header
  sh_hash :: b256

record 'body block =
  bl_header :: header
  bl_body :: 'body

text \<open>
  \<open>SealedHeader::seal_slow\<close>, \<open>Header::hash_slow\<close> and \<open>Bytecode::hash_slow\<close>; sealing keeps
  the header and stores its hash.
\<close>

record header_ext =
  hash_slow :: "header \<Rightarrow> b256"
  seal_slow :: "header \<Rightarrow> sealed_header"
  bytecode_hash :: "bytes \<Rightarrow> b256"

definition seal_laws :: "header_ext \<Rightarrow> bool" where
  "seal_laws H \<longleftrightarrow> (\<forall>h. sh_header (seal_slow H h) = h \<and> sh_hash (seal_slow H h) = hash_slow H h)"

section \<open>The input\<close>

text \<open>\<open>ConsensusError\<close>, by the variants the code distinguishes.\<close>

datatype consensus_error =
    ExtraDataExceedsMax nat
  | TheMergeDifficultyIsNotZero
  | OtherConsensusError string

text \<open>\<open>ClientError\<close>; payloads that come from libraries are kept as strings.\<close>

datatype client_error =
    SignatureRecoveryFailed
  | MismatchedStateRootError
  | MismatchedStorageRootError
  | UnknownChainId u64
  | MissingBytecode address
  | MissingTrie address
  | InvalidHeaderBlockNumber u64 u64
  | InvalidHeaderParentHash b256 b256
  | PostExecutionError consensus_error
  | BlockExecutionError string
  | ClientMptError mpt_error
  | FailedToReadGenesisFile string
  | FailedToDeserializeGenesisFile string

record 'body client_input =
  current_block :: "'body block"
  ancestor_headers :: "header list"
  parent_state :: ethereum_state
  input_bytecodes :: "bytes list"
  input_genesis :: genesis
  custom_beneficiary :: "address option"
  opcode_tracking :: bool

text \<open>\<open>parent_header\<close>: indexing an empty list of ancestors panics.\<close>

definition parent_header :: "'body client_input \<Rightarrow> header option" where
  "parent_header input = (case ancestor_headers input of [] \<Rightarrow> None | h # _ \<Rightarrow> Some h)"

text \<open>The implementation of \<open>WitnessInput\<close> for \<open>ClientExecutorInput\<close>.\<close>

definition state_anchor :: "'body client_input \<Rightarrow> b256 option" where
  "state_anchor input = map_option hd_state_root (parent_header input)"

definition sealed_headers :: "header_ext \<Rightarrow> 'body client_input \<Rightarrow> sealed_header list" where
  "sealed_headers H input =
     seal_slow H (bl_header (current_block input)) # map (seal_slow H) (ancestor_headers input)"

section \<open>The database\<close>

record trie_db =
  td_inner :: ethereum_state
  td_block_hashes :: "(u64, b256) hashmap"
  td_bytecode_by_hash :: "(b256, bytes) hashmap"

definition td_basic :: "state_ext \<Rightarrow> trie_db \<Rightarrow> address \<Rightarrow> ('e, account_info option) res" where
  "td_basic S self address =
     (let hashed = hashed_address (base S) address
      in map_res (map_option info_of_account)
           (unwrap_res (get_rlp (account_decode S) (state_trie (td_inner self)) (b256_slice hashed))))"

definition td_code_by_hash :: "trie_db \<Rightarrow> b256 \<Rightarrow> ('e, bytes) res" where
  "td_code_by_hash self h = unwrap_opt (hm_get (td_bytecode_by_hash self) h)"

definition td_storage :: "state_ext \<Rightarrow> trie_db \<Rightarrow> address \<Rightarrow> u256 \<Rightarrow> ('e, u256) res" where
  "td_storage S self address index =
     (let hashed = hashed_address (base S) address
      in res_bind (unwrap_opt (hm_get (storage_tries (td_inner self)) hashed)) (\<lambda>storage_trie.
           map_res value_or_zero
             (unwrap_res (get_rlp (u256_decode S) storage_trie
                (b256_slice (hashed_slot (base S) index))))))"

definition td_block_hash :: "trie_db \<Rightarrow> u64 \<Rightarrow> ('e, b256) res" where
  "td_block_hash self number = unwrap_opt (hm_get (td_block_hashes self) number)"

section \<open>\<open>witness_db\<close>\<close>

text \<open>
  The checks of the storage tries; a failing lookup is unwrapped. \<open>EMPTY_ROOT_HASH\<close> of
  \<open>reth_trie\<close> is the root of an empty trie.
\<close>

definition check_storage :: "state_ext \<Rightarrow> mpt \<Rightarrow> b256 \<times> mpt \<Rightarrow> (client_error, unit) res" where
  "check_storage S trie = (\<lambda>(hashed_address, storage_trie).
     res_bind (unwrap_res (get_rlp (account_decode S) trie (b256_slice hashed_address))) (\<lambda>account.
       let storage_root = (case account of None \<Rightarrow> EMPTY_ROOT | Some a \<Rightarrow> ta_storage_root a)
       in if storage_root \<noteq> hash (base S) storage_trie then Err MismatchedStorageRootError
          else Ok ()))"

text \<open>\<open>tuple_windows\<close>: consecutive pairs.\<close>

definition tuple_windows :: "'a list \<Rightarrow> ('a \<times> 'a) list" where
  "tuple_windows xs = zip xs (tl xs)"

text \<open>
  The loop over the headers. The subtraction and the addition are on \<open>u64\<close>; the guest is a
  release build, where they wrap.
\<close>

definition check_header ::
  "sealed_header \<times> sealed_header \<Rightarrow> (u64, b256) hashmap \<Rightarrow> (client_error, (u64, b256) hashmap) res" where
  "check_header = (\<lambda>(child_header, parent_header) block_hashes.
     let parent_number = hd_number (sh_header parent_header);
         child_number = hd_number (sh_header child_header);
         parent_header_hash = sh_hash parent_header;
         child_parent_hash = hd_parent_hash (sh_header child_header)
     in if parent_number \<noteq> child_number - 1
        then Err (InvalidHeaderBlockNumber (parent_number + 1) child_number)
        else if parent_header_hash \<noteq> child_parent_hash
        then Err (InvalidHeaderParentHash parent_header_hash child_parent_hash)
        else Ok (hm_insert parent_number child_parent_hash block_hashes))"

text \<open>Hashing the tries fills their caches in place.\<close>

definition fill_state :: "mpt_ext \<Rightarrow> ethereum_state \<Rightarrow> ethereum_state" where
  "fill_state X st = \<lparr>state_trie = hash_fill X (state_trie st),
     storage_tries = map (\<lambda>(k, t). (k, hash_fill X t)) (storage_tries st)\<rparr>"

definition bytecodes_by_hash :: "header_ext \<Rightarrow> bytes list \<Rightarrow> (b256, bytes) hashmap" where
  "bytecodes_by_hash H codes = fold (\<lambda>code m. hm_insert (bytecode_hash H code) code m) codes []"

definition witness_db ::
  "state_ext \<Rightarrow> header_ext \<Rightarrow> ethereum_state \<Rightarrow> b256 \<Rightarrow> bytes list \<Rightarrow> sealed_header list \<Rightarrow>
   (client_error, trie_db) res" where
  "witness_db S H state anchor codes headers =
     (if anchor \<noteq> state_root (base S) state then Err MismatchedStateRootError
      else res_bind (res_fold (\<lambda>entry _. check_storage S (state_trie state) entry) (storage_tries state) ())
        (\<lambda>_. res_bind (res_fold check_header (tuple_windows headers) [])
          (\<lambda>block_hashes. Ok \<lparr>td_inner = fill_state (base S) state, td_block_hashes = block_hashes,
             td_bytecode_by_hash = bytecodes_by_hash H codes\<rparr>)))"

text \<open>\<open>ClientExecutorInput::witness_db\<close>.\<close>

definition input_witness_db ::
  "state_ext \<Rightarrow> header_ext \<Rightarrow> 'body client_input \<Rightarrow> sealed_header list \<Rightarrow> (client_error, trie_db) res" where
  "input_witness_db S H input headers =
     res_bind (unwrap_opt (state_anchor input)) (\<lambda>anchor.
       witness_db S H (parent_state input) anchor (input_bytecodes input) headers)"

section \<open>The header chain\<close>

text \<open>
  Headers from the youngest to the oldest, each naming the hash of the next one as its parent
  and numbered one above it (on \<open>u64\<close>).
\<close>

fun linked :: "sealed_header list \<Rightarrow> bool" where
  "linked (child # parent # hs) \<longleftrightarrow>
     hd_number (sh_header parent) = hd_number (sh_header child) - 1 \<and>
     sh_hash parent = hd_parent_hash (sh_header child) \<and> linked (parent # hs)"
| "linked hs \<longleftrightarrow> True"

definition numbered :: "sealed_header list \<Rightarrow> (u64 \<times> b256) list" where
  "numbered hs = map (\<lambda>h. (hd_number (sh_header h), sh_hash h)) hs"

lemma tuple_windows_simps [simp]:
  "tuple_windows [] = []" "tuple_windows [a] = []"
  "tuple_windows (a # b # xs) = (a, b) # tuple_windows (b # xs)"
  by (simp_all add: tuple_windows_def)

lemma check_headers:
  "res_fold check_header (tuple_windows hs) m = Ok m' \<Longrightarrow>
    linked hs \<and> hm_get m' = hm_get m ++ map_of (rev (numbered (tl hs)))"
proof (induction hs arbitrary: m rule: linked.induct)
  case (1 c p hs)
  from "1.prems" have ok: "hd_number (sh_header p) = hd_number (sh_header c) - 1"
    "sh_hash p = hd_parent_hash (sh_header c)"
    and rest: "res_fold check_header (tuple_windows (p # hs))
      (hm_insert (hd_number (sh_header p)) (hd_parent_hash (sh_header c)) m) = Ok m'"
    by (auto simp: check_header_def Let_def res_bind_eq_Ok split: if_splits)
  have "hm_get m' = (hm_get m)(hd_number (sh_header p) \<mapsto> sh_hash p) ++ map_of (rev (numbered hs))"
    using "1.IH" [OF rest] by (simp only: ok(2) hm_get_insert list.sel)
  also have "\<dots> = hm_get m ++ map_of (rev (numbered (p # hs)))"
    by (auto simp: numbered_def map_add_def split: option.split)
  finally show ?case using "1.IH" [OF rest] ok by simp
qed (simp_all add: numbered_def)

lemma linked_number:
  "linked hs \<Longrightarrow> i < length hs \<Longrightarrow>
    hd_number (sh_header (hs ! i)) = hd_number (sh_header (hd hs)) - of_nat i"
proof (induction hs arbitrary: i rule: linked.induct)
  case (1 c p hs)
  then show ?case by (cases i) (auto simp: algebra_simps)
qed auto

lemma linked_hash:
  "linked hs \<Longrightarrow> Suc i < length hs \<Longrightarrow>
    sh_hash (hs ! Suc i) = hd_parent_hash (sh_header (hs ! i))"
proof (induction hs arbitrary: i rule: linked.induct)
  case (1 c p hs)
  then show ?case by (cases i) auto
qed auto

lemma word_minus_inject: "a - x = a - y \<longleftrightarrow> x = y" for a x y :: "'a::len word"
proof
  assume "a - x = a - y"
  then have "a - (a - x) = a - (a - y)" by (rule arg_cong)
  then show "x = y" by simp
qed (rule arg_cong)

text \<open>As long as the numbers of a chain do not wrap around, they identify its headers.\<close>

lemma numbered_lookup:
  assumes "linked hs" and "length hs \<le> 2 ^ 64" and "0 < i" and "i < length hs"
  shows "map_of (rev (numbered (tl hs))) (hd_number (sh_header (hd hs)) - of_nat i) = Some (sh_hash (hs ! i))"
proof -
  have num: "hd_number (sh_header (hs ! j)) = hd_number (sh_header (hd hs)) - of_nat j" if "j < length hs" for j
    using linked_number [OF assms(1) that] .
  have inj: "of_nat j = (of_nat k :: u64) \<longleftrightarrow> j = k" if "j < length hs" "k < length hs" for j k
    using that assms(2) by (intro iffI) (auto simp: word_of_nat_eq_iff take_bit_nat_eq_self)
  have keys: "map fst (numbered (tl hs)) = map (\<lambda>j. hd_number (sh_header (hd hs)) - of_nat (Suc j)) [0..<length hs - 1]"
    by (rule nth_equalityI) (auto simp: numbered_def nth_tl num)
  have "inj_on (\<lambda>j. hd_number (sh_header (hd hs)) - of_nat (Suc j) :: u64) {0..<length hs - 1}"
  proof (rule inj_onI)
    fix j k
    assume jk: "j \<in> {0..<length hs - 1}" "k \<in> {0..<length hs - 1}"
      "hd_number (sh_header (hd hs)) - of_nat (Suc j) = hd_number (sh_header (hd hs)) - (of_nat (Suc k) :: u64)"
    then have "of_nat (Suc j) = (of_nat (Suc k) :: u64)" by (simp only: word_minus_inject)
    moreover have "Suc j < length hs" "Suc k < length hs" using jk(1,2) by auto
    ultimately show "j = k" using inj by blast
  qed
  then have "distinct (map fst (numbered (tl hs)))"
    unfolding keys distinct_map by simp
  then have d: "distinct (map fst (rev (numbered (tl hs))))" by (simp add: rev_map [symmetric])
  have "hs ! i \<in> set (tl hs)" using assms(3,4) nth_mem [of "i - 1" "tl hs"] by (simp add: nth_tl)
  then have "(hd_number (sh_header (hs ! i)), sh_hash (hs ! i)) \<in> set (numbered (tl hs))"
    by (simp add: numbered_def)
  then show ?thesis using map_of_is_SomeI [OF d] num [OF assms(4)] by simp
qed

section \<open>Bytecodes\<close>

lemma bytecodes_lookup: "hm_get (bytecodes_by_hash H codes) h = find (\<lambda>c. bytecode_hash H c = h) (rev codes)"
proof -
  have "hm_get (fold (\<lambda>code m. hm_insert (bytecode_hash H code) code m) codes m) h =
    (case find (\<lambda>c. bytecode_hash H c = h) (rev codes) of Some c \<Rightarrow> Some c | None \<Rightarrow> hm_get m h)" for m
    by (induction codes arbitrary: m rule: rev_induct) auto
  from this [of "[]"] show ?thesis by (simp add: bytecodes_by_hash_def split: option.split)
qed

lemma find_SomeD: "find P xs = Some x \<Longrightarrow> x \<in> set xs \<and> P x"
  by (induction xs) (auto split: if_splits)

lemma bytecodes_sound:
  "hm_get (bytecodes_by_hash H codes) h = Some c \<Longrightarrow> c \<in> set codes \<and> bytecode_hash H c = h"
  using find_SomeD [of _ "rev codes" c] by (fastforce simp: bytecodes_lookup)

lemma bytecodes_complete: "c \<in> set codes \<Longrightarrow> hm_get (bytecodes_by_hash H codes) (bytecode_hash H c) \<noteq> None"
  by (auto simp: bytecodes_lookup find_None_iff)

section \<open>What \<open>witness_db\<close> guarantees\<close>

text \<open>
  The state has the anchor as its root, every storage trie hashes to the storage root the
  state trie records for its account (the empty root when it records no account).
\<close>

definition state_checked :: "state_ext \<Rightarrow> b256 \<Rightarrow> ethereum_state \<Rightarrow> bool" where
  "state_checked S root st \<longleftrightarrow> state_root (base S) st = root \<and>
     (\<forall>(k, t) \<in> set (storage_tries st). storage_root_of S st k = Ok (hash (base S) t))"

lemma check_storage_ok:
  "check_storage S (state_trie st) (k, u) = Ok x \<longleftrightarrow> storage_root_of S st k = Ok (hash (base S) u)"
  by (auto simp: check_storage_def storage_root_of_def res_ok_simps Let_def split: if_splits)

lemma check_storages:
  assumes "res_fold (\<lambda>entry _. check_storage S (state_trie st) entry) es u = Ok v"
  shows "\<forall>(k, t) \<in> set es. storage_root_of S st k = Ok (hash (base S) t)"
  using assms
proof (induction es arbitrary: u)
  case (Cons e es)
  obtain k t where e: "e = (k, t)" by (cases e)
  obtain w where "check_storage S (state_trie st) (k, t) = Ok w"
    "res_fold (\<lambda>entry _. check_storage S (state_trie st) entry) es w = Ok v"
    using Cons.prems by (auto simp: e res_bind_eq_Ok)
  then show ?case
    using Cons.IH check_storage_ok [of S st k t w] by (simp add: e)
qed simp

definition db_sound :: "state_ext \<Rightarrow> header_ext \<Rightarrow> ethereum_state \<Rightarrow> b256 \<Rightarrow> bytes list \<Rightarrow> sealed_header list \<Rightarrow>
    trie_db \<Rightarrow> bool" where
  "db_sound S H state anchor codes headers db \<longleftrightarrow>
     state_checked S anchor state \<and> linked headers \<and> td_inner db = fill_state (base S) state \<and>
     hm_get (td_block_hashes db) = map_of (rev (numbered (tl headers))) \<and>
     (\<forall>h. hm_get (td_bytecode_by_hash db) h = find (\<lambda>c. bytecode_hash H c = h) (rev codes))"

lemma witness_db_sound:
  assumes "witness_db S H state anchor codes headers = Ok db"
  shows "db_sound S H state anchor codes headers db"
proof -
  obtain block_hashes where w: "anchor = state_root (base S) state"
    "res_fold (\<lambda>entry _. check_storage S (state_trie state) entry) (storage_tries state) () = Ok ()"
    "res_fold check_header (tuple_windows headers) [] = Ok block_hashes"
    "db = \<lparr>td_inner = fill_state (base S) state, td_block_hashes = block_hashes,
       td_bytecode_by_hash = bytecodes_by_hash H codes\<rparr>"
    using assms by (auto simp: witness_db_def res_bind_eq_Ok split: if_splits)
  then show ?thesis
    using check_storages [OF w(2)] check_headers [OF w(3)]
    by (simp add: db_sound_def state_checked_def bytecodes_lookup)
qed

section \<open>The database interface\<close>

interpretation td: state_database S False td_inner "td_basic S" "td_storage S" for S
proof unfold_locales
  fix d a x
  assume "td_basic S d a = Ok x"
  then show "\<exists>y. account_read S (td_inner d) a = Ok y \<and> x = map_option info_of_account y"
    by (auto simp: td_basic_def account_read_def res_ok_simps)
next
  fix d a i v
  assume "td_storage S d a i = Ok v"
  then show "case hm_get (storage_tries (td_inner d)) (hashed_address (base S) a) of
      Some t \<Rightarrow> \<exists>w. slot_read S t i = Ok w \<and> v = value_or_zero w | None \<Rightarrow> False \<and> v = 0"
    by (auto simp: td_storage_def slot_read_def res_ok_simps)
qed

text \<open>Filling the caches of a state keeps it rooted.\<close>

lemma trie_ok_erase_cong:
  assumes "erase t = erase u"
  shows "well_kinded t = well_kinded u" and "sized X t = sized X u" and "encodings X t = encodings X u"
proof -
  show "well_kinded t = well_kinded u"
    using assms well_kinded_erase by metis
  show "sized X t = sized X u"
    using assms sized_erase by metis
  show "encodings X t = encodings X u"
    using assms encodings_erase by metis
qed

lemma trie_ok_hash_fill: "trie_ok S t \<Longrightarrow> trie_ok S (hash_fill (base S) t)"
  using hash_fill_effect [of "base S" t] trie_ok_erase_cong [of "hash_fill (base S) t" t]
  by (simp add: trie_ok_def)

lemma storage_root_of_fill:
  "coherent (base S) (state_trie st) \<Longrightarrow> storage_root_of S (fill_state (base S) st) k = storage_root_of S st k"
  by (simp add: storage_root_of_def fill_state_def get_rlp_def get_hash_fill)

lemma rooted_fill_state: "rooted S root st \<Longrightarrow> rooted S root (fill_state (base S) st)"
proof -
  assume r: "rooted S root st"
  have get: "hm_get (storage_tries (fill_state (base S) st)) k = map_option (hash_fill (base S)) (hm_get (storage_tries st) k)" for k
    by (simp add: fill_state_def map_of_map)
  have coh: "coherent (base S) (state_trie st)" using r by (simp add: rooted_def trie_ok_def)
  show ?thesis
    using r trie_ok_hash_fill [of S] hash_fill_effect [of "base S"] storage_root_of_fill [OF coh]
    by (auto simp: rooted_def get state_root_def trie_ok_def) (auto simp: fill_state_def)
qed

lemma no_collision_fill:
  "coherent (base S) a \<Longrightarrow> coherent (base S) b \<Longrightarrow>
    no_collision S (hash_fill (base S) a) (hash_fill (base S) b) = no_collision S a b"
  using hash_fill_effect [of "base S"] trie_ok_erase_cong(3) [of "hash_fill (base S) _"]
  by (simp add: no_collision_def)

lemma hash_hash_fill: "hash X (hash_fill X t) = hash X t"
proof (cases t)
  case (MptNode d c)
  then show ?thesis by (cases d; cases c) (simp_all add: hash_fill_def hash_def)
qed

lemma state_root_fill: "state_root X (fill_state X st) = state_root X st"
  by (simp add: state_root_def fill_state_def hash_hash_fill)

section \<open>The databases of two inputs with one anchor\<close>

definition tries_ok :: "state_ext \<Rightarrow> ethereum_state \<Rightarrow> bool" where
  "tries_ok S st \<longleftrightarrow> trie_ok S (state_trie st) \<and>
     (\<forall>k t. hm_get (storage_tries st) k = Some t \<longrightarrow> trie_ok S t)"

lemma checked_rooted: "state_checked S root st \<Longrightarrow> tries_ok S st \<Longrightarrow> rooted S root st"
  using map_of_SomeD by (fastforce simp: state_checked_def tries_ok_def rooted_def)

lemma no_state_collision_fill:
  assumes "tries_ok S st" and "tries_ok S st'" and "no_state_collision S st st'"
  shows "no_state_collision S (fill_state (base S) st) (fill_state (base S) st')"
proof -
  have get: "hm_get (storage_tries (fill_state (base S) s)) k = map_option (hash_fill (base S)) (hm_get (storage_tries s) k)" for s k
    by (simp add: fill_state_def map_of_map)
  have tr: "state_trie (fill_state (base S) s) = hash_fill (base S) (state_trie s)" for s
    by (simp add: fill_state_def)
  have coh: "coherent (base S) (state_trie s)"
    "hm_get (storage_tries s) k = Some t \<Longrightarrow> coherent (base S) t" if "tries_ok S s" for s k t
    using that by (auto simp: tries_ok_def trie_ok_def)
  show ?thesis
    using assms(3) no_collision_fill coh [OF assms(1)] coh [OF assms(2)]
    by (auto simp: no_state_collision_def get tr)
qed

lemma dbs_agree:
  assumes laws: "ext_laws (base S)"
    and db: "witness_db S H st anchor codes headers = Ok db" "tries_ok S st"
    and db': "witness_db S H st' anchor codes' headers' = Ok db'" "tries_ok S st'"
    and cf: "no_state_collision S st st'"
  shows "td_basic S db a = (Ok x :: ('e, _) res) \<Longrightarrow> td_basic S db' a = (Ok x' :: ('e, _) res) \<Longrightarrow> x = x'"
    and "td_storage S db a i = (Ok v :: ('e, _) res) \<Longrightarrow> td_storage S db' a i = (Ok v' :: ('e, _) res) \<Longrightarrow> v = v'"
proof -
  have r: "rooted S anchor (td_inner db)" "rooted S anchor (td_inner db')"
    using witness_db_sound [OF db(1)] witness_db_sound [OF db'(1)] db(2) db'(2)
    by (simp_all add: db_sound_def rooted_fill_state checked_rooted)
  have c: "no_state_collision S (td_inner db) (td_inner db')"
    using witness_db_sound [OF db(1)] witness_db_sound [OF db'(1)]
      no_state_collision_fill [OF db(2) db'(2) cf] by (simp add: db_sound_def)
  show "td_basic S db a = (Ok x :: ('e, _) res) \<Longrightarrow> td_basic S db' a = (Ok x' :: ('e, _) res) \<Longrightarrow> x = x'"
    by (rule td.basic_unique [OF laws r c])
  show "td_storage S db a i = (Ok v :: ('e, _) res) \<Longrightarrow> td_storage S db' a i = (Ok v' :: ('e, _) res) \<Longrightarrow> v = v'"
    by (rule td.storage_unique [OF laws r c]) simp
qed

section \<open>When \<open>witness_db\<close> accepts\<close>

lemma check_storages_iff:
  "(\<exists>v. res_fold (\<lambda>entry _. check_storage S (state_trie st) entry) es u = Ok v) \<longleftrightarrow>
    (\<forall>(k, t) \<in> set es. storage_root_of S st k = Ok (hash (base S) t))"
proof (induction es arbitrary: u)
  case (Cons e es)
  obtain k t where e: "e = (k, t)" by (cases e)
  have "(\<exists>w. check_storage S (state_trie st) (k, t) = Ok w) \<longleftrightarrow> storage_root_of S st k = Ok (hash (base S) t)"
    using check_storage_ok by blast
  then show ?case using Cons.IH by (auto simp: e res_bind_eq_Ok)
qed simp

lemma check_headers_iff:
  "(\<exists>m'. res_fold check_header (tuple_windows hs) m = Ok m') \<longleftrightarrow> linked hs"
proof (induction hs arbitrary: m rule: linked.induct)
  case (1 c p hs)
  then show ?case by (simp add: check_header_def Let_def)
qed simp_all

lemma witness_db_accepts:
  "(\<exists>db. witness_db S H st anchor codes headers = Ok db) \<longleftrightarrow> state_checked S anchor st \<and> linked headers"
proof -
  have "(\<exists>db. witness_db S H st anchor codes headers = Ok db) \<longleftrightarrow> anchor = state_root (base S) st \<and>
    (\<exists>v. res_fold (\<lambda>entry _. check_storage S (state_trie st) entry) (storage_tries st) () = Ok v) \<and>
    (\<exists>m'. res_fold check_header (tuple_windows headers) [] = Ok m')"
    by (auto simp: witness_db_def res_bind_eq_Ok)
  then show ?thesis
    unfolding check_storages_iff check_headers_iff state_checked_def by auto
qed

end
