(* ===== verification/Validators.thy ===== *)
theory Validators
  imports Witness_Db
begin

text \<open>
  \<open>crates/executor/guest/src/into_primitives.rs\<close>: the conversions between network and
  primitive types, and the block validators of Ethereum with the relaxation for the Linea
  chains (\<open>handle_custom_chains\<close>).
\<close>

section \<open>Data\<close>

text \<open>\<open>RecoveredBlock\<close>: a block with the senders of its transactions.\<close>

record 'body recovered_block =
  rb_block :: "'body block"
  rb_senders :: "address list"

definition rb_header :: "'body recovered_block \<Rightarrow> header" where
  "rb_header r = bl_header (rb_block r)"

text \<open>\<open>NamedChain\<close>, by the variants the code distinguishes.\<close>

datatype named_chain = ChainLinea | ChainLineaSepolia | ChainLineaGoerli | ChainOther string

text \<open>\<open>BlockExecutionResult\<close> and \<open>BlockExecutionOutput\<close>.\<close>

record ('receipt, 'request) execution_result =
  er_receipts :: "'receipt list"
  er_requests :: "'request"

record ('bundle, 'receipt, 'request) execution_output =
  eo_state :: 'bundle
  eo_result :: "('receipt, 'request) execution_result"

text \<open>
  The consensus functions of \<open>reth\<close>: the validator \<open>EthBeaconConsensus\<close> of a chain
  specification, the checks of the body and of the receipts, the chain id of a specification
  and the table of named chains.
\<close>

record ('v, 'body, 'receipt, 'request) consensus_ext =
  beacon_validate_header :: "'v chain_spec \<Rightarrow> sealed_header \<Rightarrow> (consensus_error, unit) res"
  beacon_validate_against_parent ::
    "'v chain_spec \<Rightarrow> sealed_header \<Rightarrow> sealed_header \<Rightarrow> (consensus_error, unit) res"
  body_against_header :: "'body \<Rightarrow> header \<Rightarrow> (consensus_error, unit) res"
  eth_post_execution ::
    "'body recovered_block \<Rightarrow> 'v chain_spec \<Rightarrow> 'receipt list \<Rightarrow> 'request \<Rightarrow> bool \<Rightarrow> (consensus_error, unit) res"
  spec_chain_id :: "'v chain_spec \<Rightarrow> u64"
  named_chain_of :: "u64 \<Rightarrow> named_chain option"
  op_validate_header :: "'v chain_spec \<Rightarrow> sealed_header \<Rightarrow> (consensus_error, unit) res"
  op_validate_against_parent ::
    "'v chain_spec \<Rightarrow> sealed_header \<Rightarrow> sealed_header \<Rightarrow> (consensus_error, unit) res"
  op_body_against_header :: "'v chain_spec \<Rightarrow> 'body \<Rightarrow> header \<Rightarrow> (consensus_error, unit) res"
  op_post_execution ::
    "header \<Rightarrow> 'v chain_spec \<Rightarrow> ('receipt, 'request) execution_result \<Rightarrow> (consensus_error, unit) res"

section \<open>Conversions\<close>

text \<open>
  For Ethereum and Optimism the input block is the primitive block. An RPC block becomes one
  by converting its transactions and dropping the rest of the response.
\<close>

definition from_input_block :: "'body block \<Rightarrow> 'body block" where
  "from_input_block block = block"

definition into_input_block :: "'body block \<Rightarrow> 'body block" where
  "into_input_block block = block"

record ('rpctx, 'tx, 'body) convert_ext =
  tx_convert :: "'rpctx \<Rightarrow> 'tx"
  into_consensus_body :: "'tx list \<Rightarrow> 'body"

record 'rpctx rpc_block =
  rpc_header :: header
  rpc_hash :: b256
  rpc_transactions :: "'rpctx list"

definition into_primitive_block :: "('rpctx, 'tx, 'body) convert_ext \<Rightarrow> 'rpctx rpc_block \<Rightarrow> 'body block" where
  "into_primitive_block C block =
     \<lparr>bl_header = rpc_header block,
      bl_body = into_consensus_body C (map (tx_convert C) (rpc_transactions block))\<rparr>"

definition into_consensus_header :: "header \<Rightarrow> header" where
  "into_consensus_header h = h"

text \<open>For Optimism; here \<open>tx_convert\<close> takes the inner transaction out of the response's wrappers.\<close>

definition op_into_primitive_block :: "('rpctx, 'tx, 'body) convert_ext \<Rightarrow> 'rpctx rpc_block \<Rightarrow> 'body block" where
  "op_into_primitive_block C block =
     (let transactions = map (tx_convert C) (rpc_transactions block)
      in \<lparr>bl_header = rpc_header block, bl_body = into_consensus_body C transactions\<rparr>)"

definition op_into_consensus_header :: "header \<Rightarrow> header" where
  "op_into_consensus_header h = h"

definition op_from_input_block :: "'body block \<Rightarrow> 'body block" where
  "op_from_input_block block = block"

definition op_into_input_block :: "'body block \<Rightarrow> 'body block" where
  "op_into_input_block block = block"

section \<open>The validators\<close>

definition handle_custom_chains ::
  "('v, 'body, 'receipt, 'request) consensus_ext \<Rightarrow> (consensus_error, unit) res \<Rightarrow> 'v chain_spec \<Rightarrow>
   (consensus_error, unit) res" where
  "handle_custom_chains K result chain_spec =
     (case result of
        Err err \<Rightarrow>
          (case named_chain_of K (spec_chain_id K chain_spec) of
             None \<Rightarrow> Err err
           | Some (ChainOther _) \<Rightarrow> Err err
           | Some _ \<Rightarrow>
               (case err of
                  ExtraDataExceedsMax _ \<Rightarrow> Ok ()
                | TheMergeDifficultyIsNotZero \<Rightarrow> Ok ()
                | _ \<Rightarrow> Err err))
      | r \<Rightarrow> r)"

definition validate_header where
  "validate_header K header chain_spec =
     handle_custom_chains K (beacon_validate_header K chain_spec header) chain_spec"

text \<open>\<open>recovered.sealed_header()\<close> is the sealed header of the block.\<close>

definition validate_block ::
  "('v, 'body, 'receipt, 'request) consensus_ext \<Rightarrow> header_ext \<Rightarrow> 'body recovered_block \<Rightarrow> 'v chain_spec \<Rightarrow>
   (consensus_error, unit) res" where
  "validate_block K H recovered chain_spec =
     res_bind (validate_header K (seal_slow H (rb_header recovered)) chain_spec) (\<lambda>_.
       res_bind (body_against_header K (bl_body (rb_block recovered)) (rb_header recovered)) (\<lambda>_. Ok ()))"

definition validate_header_against_parent where
  "validate_header_against_parent K header parent chain_spec =
     beacon_validate_against_parent K chain_spec header parent"

definition validate_block_post_execution ::
  "('v, 'body, 'receipt, 'request) consensus_ext \<Rightarrow> 'body recovered_block \<Rightarrow> 'v chain_spec \<Rightarrow>
   ('bundle, 'receipt, 'request) execution_output \<Rightarrow> bool \<Rightarrow> (consensus_error, unit) res" where
  "validate_block_post_execution K block chain_spec output goat =
     eth_post_execution K block chain_spec (er_receipts (eo_result output)) (er_requests (eo_result output)) goat"

subsection \<open>Optimism\<close>

definition op_validate_block ::
  "('v, 'body, 'receipt, 'request) consensus_ext \<Rightarrow> header_ext \<Rightarrow> 'body recovered_block \<Rightarrow> 'v chain_spec \<Rightarrow>
   (consensus_error, unit) res" where
  "op_validate_block K H recovered chain_spec =
     res_bind (op_validate_header K chain_spec (seal_slow H (rb_header recovered))) (\<lambda>_.
       res_bind (op_body_against_header K chain_spec (bl_body (rb_block recovered)) (rb_header recovered))
         (\<lambda>_. Ok ()))"

definition op_validate_header_against_parent where
  "op_validate_header_against_parent K header parent chain_spec =
     op_validate_against_parent K chain_spec header parent"

definition op_validate_block_post_execution where
  "op_validate_block_post_execution K block chain_spec output (goat :: bool) =
     op_post_execution K (rb_header block) chain_spec (eo_result output)"

section \<open>Lemmas\<close>

text \<open>
  The relaxation: an accepted header was accepted by the validator, or the chain is one of the
  Linea chains and the only complaint was the extra data or the difficulty.
\<close>

definition linea_chain :: "named_chain option \<Rightarrow> bool" where
  "linea_chain c \<longleftrightarrow> c \<in> {Some ChainLinea, Some ChainLineaSepolia, Some ChainLineaGoerli}"

definition linea_exempt :: "consensus_error \<Rightarrow> bool" where
  "linea_exempt e \<longleftrightarrow> (case e of OtherConsensusError _ \<Rightarrow> False | _ \<Rightarrow> True)"

lemma handle_custom_chains_Ok:
  "handle_custom_chains K r spec = Ok u \<longleftrightarrow> r = Ok u \<or>
    (\<exists>e. r = Err e \<and> linea_chain (named_chain_of K (spec_chain_id K spec)) \<and> linea_exempt e)"
  by (cases r)
    (auto simp: handle_custom_chains_def linea_chain_def linea_exempt_def
      split: option.splits named_chain.splits consensus_error.splits)

lemma handle_custom_chains_Err:
  "handle_custom_chains K r spec = Err e \<longleftrightarrow> r = Err e \<and>
    \<not> (linea_chain (named_chain_of K (spec_chain_id K spec)) \<and> linea_exempt e)"
  by (cases r)
    (auto simp: handle_custom_chains_def linea_chain_def linea_exempt_def
      split: option.splits named_chain.splits consensus_error.splits)

end
