(* ===== verification/Client_Executor.thy ===== *)
theory Client_Executor
  imports Validators
begin

text \<open>
  \<open>crates/executor/guest/src/executor.rs\<close> and \<open>lib.rs\<close>: \<open>ClientExecutor::execute\<close>, which the
  guest runs inside the zkVM, and \<open>verify_block\<close>, whose result the proof commits to.
\<close>

section \<open>What the block executor sees of a database\<close>

text \<open>\<open>WrapDatabaseRef<TrieDB>\<close>: the four operations of \<open>DatabaseRef\<close>.\<close>

record database_ref =
  dr_basic :: "address \<Rightarrow> (string, account_info option) res"
  dr_code_by_hash :: "b256 \<Rightarrow> (string, bytes) res"
  dr_storage :: "address \<Rightarrow> u256 \<Rightarrow> (string, u256) res"
  dr_block_hash :: "u64 \<Rightarrow> (string, b256) res"

definition wrap_trie_db :: "state_ext \<Rightarrow> trie_db \<Rightarrow> database_ref" where
  "wrap_trie_db S db = \<lparr>dr_basic = td_basic S db, dr_code_by_hash = td_code_by_hash db,
     dr_storage = td_storage S db, dr_block_hash = td_block_hash db\<rparr>"

section \<open>Third-party functions\<close>

text \<open>\<open>ExecutionOutcome::new\<close> and its hashed post state.\<close>

record ('bundle, 'receipt, 'request) execution_outcome =
  oc_bundle :: 'bundle
  oc_receipts :: "'receipt list list"
  oc_first_block :: u64
  oc_requests :: "'request list"

text \<open>
  The recovery of the senders, the two block executors (\<open>Executor::execute\<close> of
  \<open>BasicBlockExecutor\<close> and of the opcode tracking executor), the hashed post state of an
  outcome, the construction of an EVM configuration, and the deserializer of the input.
\<close>

record ('v, 'cfg, 'body, 'bundle, 'receipt, 'request) guest_ext =
  recover_senders :: "'body block \<Rightarrow> address list option"
  basic_execute :: "'cfg \<Rightarrow> database_ref \<Rightarrow> u64 option \<Rightarrow> 'body recovered_block \<Rightarrow>
    (string, ('bundle, 'receipt, 'request) execution_output) res"
  tracking_execute :: "'cfg \<Rightarrow> database_ref \<Rightarrow> 'body recovered_block \<Rightarrow>
    (string, ('bundle, 'receipt, 'request) execution_output) res"
  hash_state_slow :: "('bundle, 'receipt, 'request) execution_outcome \<Rightarrow> hashed_post_state"
  new_with_evm_factory :: "'v chain_spec \<Rightarrow> address option \<Rightarrow> 'cfg"
  op_evm_config :: "'v chain_spec \<Rightarrow> 'cfg"
  deserialize_input :: "bytes \<Rightarrow> 'body client_input option"

section \<open>The executor\<close>

record ('v, 'cfg) client_executor =
  ce_evm_config :: 'cfg
  ce_chain_spec :: "'v chain_spec"

definition eth ::
  "('v, 'cfg, 'body, 'bundle, 'receipt, 'request) guest_ext \<Rightarrow> 'v chain_spec \<Rightarrow> address option \<Rightarrow>
   ('v, 'cfg) client_executor" where
  "eth G chain_spec beneficiary =
     \<lparr>ce_evm_config = new_with_evm_factory G chain_spec beneficiary, ce_chain_spec = chain_spec\<rparr>"

definition optimism ::
  "('v, 'cfg, 'body, 'bundle, 'receipt, 'request) guest_ext \<Rightarrow> 'v chain_spec \<Rightarrow> ('v, 'cfg) client_executor" where
  "optimism G chain_spec = \<lparr>ce_evm_config = op_evm_config G chain_spec, ce_chain_spec = chain_spec\<rparr>"

text \<open>\<open>enum BlockExecutor\<close> with \<open>new\<close> and the dispatch of \<open>execute\<close>.\<close>

datatype 'cfg block_executor =
    Basic 'cfg database_ref "u64 option"
  | OpcodeTracking 'cfg database_ref

definition new_block_executor :: "'cfg \<Rightarrow> database_ref \<Rightarrow> bool \<Rightarrow> u64 \<Rightarrow> 'cfg block_executor" where
  "new_block_executor strategy_factory db tracking chain_id =
     (if tracking then OpcodeTracking strategy_factory db else Basic strategy_factory db (Some chain_id))"

fun execute_block ::
  "('v, 'cfg, 'body, 'bundle, 'receipt, 'request) guest_ext \<Rightarrow> 'cfg block_executor \<Rightarrow> 'body recovered_block \<Rightarrow>
   (string, ('bundle, 'receipt, 'request) execution_output) res" where
  "execute_block G (Basic cfg db chain_id) block = basic_execute G cfg db chain_id block"
| "execute_block G (OpcodeTracking cfg db) block = tracking_execute G cfg db block"

text \<open>\<open>try_into_recovered\<close>.\<close>

definition try_into_recovered ::
  "('v, 'cfg, 'body, 'bundle, 'receipt, 'request) guest_ext \<Rightarrow> 'body block \<Rightarrow> 'body recovered_block option" where
  "try_into_recovered G block =
     map_option (\<lambda>senders. \<lparr>rb_block = block, rb_senders = senders\<rparr>) (recover_senders G block)"

text \<open>The validation of the headers: every failure is a panic.\<close>

definition validate_pair ::
  "('v, 'body, 'receipt, 'request) consensus_ext \<Rightarrow> 'v chain_spec \<Rightarrow> sealed_header \<times> sealed_header \<Rightarrow>
   (client_error, unit) res" where
  "validate_pair K spec = (\<lambda>(header, parent).
     res_bind (unwrap_res (validate_header K parent spec)) (\<lambda>_.
       unwrap_res (validate_header_against_parent K header parent spec)))"

definition validate_chain ::
  "('v, 'body, 'receipt, 'request) consensus_ext \<Rightarrow> 'v chain_spec \<Rightarrow> sealed_header list \<Rightarrow> (client_error, unit) res" where
  "validate_chain K spec headers = res_fold (\<lambda>pair _. validate_pair K spec pair) (tuple_windows headers) ()"

text \<open>
  The header the executor returns. \<open>mix_hash()\<close> and \<open>nonce()\<close> of a \<open>Header\<close> are always
  present, so their \<open>unwrap()\<close> does not panic.
\<close>

definition derive_header :: "b256 \<Rightarrow> header \<Rightarrow> header" where
  "derive_header root current = \<lparr>
     hd_parent_hash = hd_parent_hash current,
     hd_ommers_hash = hd_ommers_hash current,
     hd_beneficiary = hd_beneficiary current,
     hd_state_root = root,
     hd_transactions_root = hd_transactions_root current,
     hd_receipts_root = hd_receipts_root current,
     hd_logs_bloom = hd_logs_bloom current,
     hd_difficulty = hd_difficulty current,
     hd_number = hd_number current,
     hd_gas_limit = hd_gas_limit current,
     hd_gas_used = hd_gas_used current,
     hd_timestamp = hd_timestamp current,
     hd_extra_data = hd_extra_data current,
     hd_mix_hash = hd_mix_hash current,
     hd_nonce = hd_nonce current,
     hd_base_fee_per_gas = hd_base_fee_per_gas current,
     hd_withdrawals_root = hd_withdrawals_root current,
     hd_blob_gas_used = hd_blob_gas_used current,
     hd_excess_blob_gas = hd_excess_blob_gas current,
     hd_parent_beacon_block_root = hd_parent_beacon_block_root current,
     hd_requests_hash = hd_requests_hash current\<rparr>"

definition outcome_of :: "header \<Rightarrow> ('bundle, 'receipt, 'request) execution_output \<Rightarrow>
    ('bundle, 'receipt, 'request) execution_outcome" where
  "outcome_of current output = \<lparr>oc_bundle = eo_state output, oc_receipts = [er_receipts (eo_result output)],
     oc_first_block = hd_number current, oc_requests = [er_requests (eo_result output)]\<rparr>"

text \<open>
  After the block: the state (with the caches \<open>witness_db\<close> filled) is updated, and its root
  compared with the header's. \<open>update\<close> returns nothing: it ends or panics.
\<close>

definition settle_state ::
  "state_ext \<Rightarrow> hashed_post_state \<Rightarrow> header \<Rightarrow> ethereum_state \<Rightarrow> (client_error, header \<times> b256) res" where
  "settle_state S post current st =
     (let parent_state_root = state_root (base S) st
      in res_bind (unwrap_res (update S post st)) (\<lambda>updated.
           let root = state_root (base S) updated
           in if root \<noteq> hd_state_root current then Err MismatchedStateRootError
              else Ok (derive_header root current, parent_state_root)))"

definition client_execute ::
  "state_ext \<Rightarrow> header_ext \<Rightarrow> ('v, 'body, 'receipt, 'request) consensus_ext \<Rightarrow>
   ('v, 'cfg, 'body, 'bundle, 'receipt, 'request) guest_ext \<Rightarrow> ('v, 'cfg) client_executor \<Rightarrow>
   'body client_input \<Rightarrow> (client_error, header \<times> b256) res" where
  "client_execute S H K G self input =
     (let current = bl_header (current_block input); spec = ce_chain_spec self in
      res_bind (unwrap_res (chain_id_of_genesis (input_genesis input))) (\<lambda>chain_id.
      let headers = sealed_headers H input in
      res_bind (unwrap_res (input_witness_db S H input headers)) (\<lambda>db.
      let executor = new_block_executor (ce_evm_config self) (wrap_trie_db S db) (opcode_tracking input) chain_id in
      res_bind (ok_or SignatureRecoveryFailed
          (try_into_recovered G (from_input_block (current_block input)))) (\<lambda>block.
      res_bind (unwrap_res (validate_block K H block spec)) (\<lambda>_.
      res_bind (validate_chain K spec headers) (\<lambda>_.
      res_bind (map_err BlockExecutionError (execute_block G executor block)) (\<lambda>output.
      res_bind (map_err PostExecutionError
          (validate_block_post_execution K block spec output (is_goat_testnet chain_id))) (\<lambda>_.
      settle_state S (hash_state_slow G (outcome_of current output)) current (td_inner db)))))))))"

text \<open>
  \<open>verify_block\<close>: the executor is built from the genesis of the input; every failure is a
  panic. The result is the block hash, the new state root and the parent state root; the
  guest program commits the block hash.
\<close>

definition verify_block ::
  "state_ext \<Rightarrow> header_ext \<Rightarrow> ('v, 'body, 'receipt, 'request) consensus_ext \<Rightarrow> ('v, 'json) chain_ext \<Rightarrow>
   ('v, 'cfg, 'body, 'bundle, 'receipt, 'request) guest_ext \<Rightarrow> bytes \<Rightarrow> (client_error, b256 \<times> b256 \<times> b256) res" where
  "verify_block S H K C G bytes =
     res_bind (unwrap_opt (deserialize_input G bytes)) (\<lambda>input.
     res_bind (unwrap_res (chain_spec_of_genesis C (input_genesis input))) (\<lambda>spec.
     let executor = eth G spec (custom_beneficiary input) in
     res_bind (unwrap_res (client_execute S H K G executor input)) (\<lambda>(header, prev_state_root).
       Ok (hash_slow H header, hd_state_root header, prev_state_root))))"

definition guest_main where
  "guest_main S H K C G bytes = map_res (\<lambda>(block_hash, _, _). block_hash) (verify_block S H K C G bytes)"

section \<open>What a result guarantees\<close>

lemma derive_header_same: "root = hd_state_root h \<Longrightarrow> derive_header root h = h"
  by (simp add: derive_header_def)

lemma input_witness_db_ok:
  assumes "input_witness_db S H input headers = Ok db"
  obtains parent rest where "ancestor_headers input = parent # rest"
    "db_sound S H (parent_state input) (hd_state_root parent) (input_bytecodes input) headers db"
proof -
  obtain parent rest where p: "ancestor_headers input = parent # rest"
    "witness_db S H (parent_state input) (hd_state_root parent) (input_bytecodes input) headers = Ok db"
    using assms
    by (auto simp: input_witness_db_def state_anchor_def parent_header_def res_ok_simps split: list.splits)
  then show thesis using that witness_db_sound by blast
qed

text \<open>The relation between a block and the parent state it was executed on.\<close>

definition executed ::
  "state_ext \<Rightarrow> header_ext \<Rightarrow> ('v, 'body, 'receipt, 'request) consensus_ext \<Rightarrow>
   ('v, 'cfg, 'body, 'bundle, 'receipt, 'request) guest_ext \<Rightarrow> ('v, 'cfg) client_executor \<Rightarrow>
   'body client_input \<Rightarrow> u64 \<Rightarrow> trie_db \<Rightarrow> bool" where
  "executed S H K G self input chain_id db \<longleftrightarrow>
     (\<exists>senders output st'. recover_senders G (current_block input) = Some senders \<and>
        execute_block G (new_block_executor (ce_evm_config self) (wrap_trie_db S db) (opcode_tracking input) chain_id)
          \<lparr>rb_block = current_block input, rb_senders = senders\<rparr> = Ok output \<and>
        update S (hash_state_slow G (outcome_of (bl_header (current_block input)) output)) (td_inner db) = Ok st' \<and>
        state_root (base S) st' = hd_state_root (bl_header (current_block input)))"

lemma settle_state_ok:
  assumes "settle_state S post current st = Ok (h, r)"
  shows "h = current \<and> r = state_root (base S) st \<and>
    (\<exists>st'. update S post st = Ok st' \<and> state_root (base S) st' = hd_state_root current)"
  using assms derive_header_same
  by (auto simp: settle_state_def res_ok_simps Let_def split: if_splits)

lemma client_execute_ok:
  assumes "client_execute S H K G self input = Ok (h, r)"
  obtains chain_id db where "chain_id_of_genesis (input_genesis input) = Ok chain_id"
    "input_witness_db S H input (sealed_headers H input) = (Ok db :: (client_error, trie_db) res)"
    "h = bl_header (current_block input)" "r = state_root (base S) (td_inner db)"
    "validate_chain K (ce_chain_spec self) (sealed_headers H input) = Ok ()"
    "executed S H K G self input chain_id db"
proof -
  obtain chain_id db block out where e:
    "chain_id_of_genesis (input_genesis input) = Ok chain_id"
    "input_witness_db S H input (sealed_headers H input) = Ok db"
    "try_into_recovered G (current_block input) = Some block"
    "validate_chain K (ce_chain_spec self) (sealed_headers H input) = Ok ()"
    "execute_block G (new_block_executor (ce_evm_config self) (wrap_trie_db S db) (opcode_tracking input) chain_id) block
      = Ok out"
    "settle_state S (hash_state_slow G (outcome_of (bl_header (current_block input)) out))
      (bl_header (current_block input)) (td_inner db) = Ok (h, r)"
    using assms unfolding client_execute_def Let_def
    by (auto simp: res_ok_simps from_input_block_def simp del: unit_eq)
  have block: "recover_senders G (current_block input) = Some (rb_senders block)"
    "block = \<lparr>rb_block = current_block input, rb_senders = rb_senders block\<rparr>"
    using e(3) by (auto simp: try_into_recovered_def)
  have "executed S H K G self input chain_id db"
    unfolding executed_def using e(5) block settle_state_ok [OF e(6)] by metis
  then show thesis using that e settle_state_ok [OF e(6)] by blast
qed

text \<open>What a result of \<open>verify_block\<close> says of the input.\<close>

lemma verify_block_ok:
  assumes "seal_laws H" and "verify_block S H K C G bytes = Ok (block_hash, new_root, prev_root)"
  shows "\<exists>input parent ancestors spec chain_id db.
    deserialize_input G bytes = Some input \<and> ancestor_headers input = parent # ancestors \<and>
    block_hash = hash_slow H (bl_header (current_block input)) \<and>
    new_root = hd_state_root (bl_header (current_block input)) \<and>
    prev_root = hd_state_root parent \<and>
    hash_slow H parent = hd_parent_hash (bl_header (current_block input)) \<and>
    hd_number parent = hd_number (bl_header (current_block input)) - 1 \<and>
    chain_spec_of_genesis C (input_genesis input) = Ok spec \<and>
    chain_id_of_genesis (input_genesis input) = Ok chain_id \<and>
    db_sound S H (parent_state input) prev_root (input_bytecodes input) (sealed_headers H input) db \<and>
    executed S H K G (eth G spec (custom_beneficiary input)) input chain_id db"
proof -
  obtain input spec header where i: "deserialize_input G bytes = Some input"
    "chain_spec_of_genesis C (input_genesis input) = Ok spec"
    "client_execute S H K G (eth G spec (custom_beneficiary input)) input = Ok (header, prev_root)"
    "block_hash = hash_slow H header" "new_root = hd_state_root header"
    using assms(2) by (auto simp: verify_block_def res_ok_simps Let_def)
  obtain chain_id db where e: "chain_id_of_genesis (input_genesis input) = Ok chain_id"
    "input_witness_db S H input (sealed_headers H input) = (Ok db :: (client_error, trie_db) res)"
    "header = bl_header (current_block input)" "prev_root = state_root (base S) (td_inner db)"
    "executed S H K G (eth G spec (custom_beneficiary input)) input chain_id db"
    using client_execute_ok [OF i(3)] by metis
  obtain parent rest where p: "ancestor_headers input = parent # rest"
    "db_sound S H (parent_state input) (hd_state_root parent) (input_bytecodes input) (sealed_headers H input) db"
    by (rule input_witness_db_ok [OF e(2)])
  have root: "prev_root = hd_state_root parent"
    using p(2) e(4) by (simp add: db_sound_def state_checked_def state_root_fill)
  have "linked (sealed_headers H input)" using p(2) by (simp add: db_sound_def)
  then have "hash_slow H parent = hd_parent_hash (bl_header (current_block input))"
    "hd_number parent = hd_number (bl_header (current_block input)) - 1"
    using assms(1) by (simp_all add: sealed_headers_def p(1) seal_laws_def)
  then show ?thesis
    using i(1,2,4,5) e(1,3,5) p root
    by (intro exI [of _ input] exI [of _ parent] exI [of _ rest] exI [of _ spec] exI [of _ chain_id]
        exI [of _ db] conjI) simp_all
qed

text \<open>The hash of the first of a chain of headers determines the headers below it.\<close>

lemma linked_determined:
  assumes "linked hs" and "linked hs'" and "\<And>h. h \<in> set hs \<union> set hs' \<Longrightarrow> h = seal (sh_header h)"
    and "inj_on (\<lambda>h. sh_hash (seal h)) (sh_header ` (set hs \<union> set hs'))" and "sh_hash (hs ! 0) = sh_hash (hs' ! 0)"
  shows "i < length hs \<Longrightarrow> i < length hs' \<Longrightarrow> hs ! i = hs' ! i"
proof (induction i)
  have same: "hs ! j = hs' ! j" if "sh_hash (hs ! j) = sh_hash (hs' ! j)" "j < length hs" "j < length hs'" for j
  proof -
    have m: "hs ! j \<in> set hs \<union> set hs'" "hs' ! j \<in> set hs \<union> set hs'" using that by auto
    then have "sh_header (hs ! j) = sh_header (hs' ! j)"
      using inj_onD [OF assms(4), of "sh_header (hs ! j)" "sh_header (hs' ! j)"] that(1)
        assms(3) [OF m(1)] assms(3) [OF m(2)] by fastforce
    then show ?thesis using assms(3) [OF m(1)] assms(3) [OF m(2)] by simp
  qed
  {
    case 0
    then show ?case using same assms(5) by blast
  next
    case (Suc i)
    then show ?case using linked_hash [OF assms(1)] linked_hash [OF assms(2)] same by simp
  }
qed

section \<open>When it succeeds\<close>

text \<open>The converse of \<open>client_execute_ok\<close>: what is enough for the executor to return.\<close>

lemma client_execute_accepts:
  assumes "chain_id_of_genesis (input_genesis input) = Ok chain_id"
    and "input_witness_db S H input (sealed_headers H input) = Ok db"
    and "recover_senders G (current_block input) = Some senders"
    and "validate_block K H \<lparr>rb_block = current_block input, rb_senders = senders\<rparr> (ce_chain_spec self) = Ok ()"
    and "validate_chain K (ce_chain_spec self) (sealed_headers H input) = Ok ()"
    and "execute_block G (new_block_executor (ce_evm_config self) (wrap_trie_db S db) (opcode_tracking input) chain_id)
      \<lparr>rb_block = current_block input, rb_senders = senders\<rparr> = Ok out"
    and "validate_block_post_execution K \<lparr>rb_block = current_block input, rb_senders = senders\<rparr> (ce_chain_spec self) out
      (is_goat_testnet chain_id) = Ok ()"
    and "update S (hash_state_slow G (outcome_of (bl_header (current_block input)) out)) (td_inner db) = Ok st"
    and "state_root (base S) st = hd_state_root (bl_header (current_block input))"
  shows "client_execute S H K G self input = Ok (bl_header (current_block input), state_root (base S) (td_inner db))"
proof -
  have "settle_state S (hash_state_slow G (outcome_of (bl_header (current_block input)) out))
      (bl_header (current_block input)) (td_inner db) = Ok (bl_header (current_block input), state_root (base S) (td_inner db))"
    using assms(8,9) derive_header_same [of _ "bl_header (current_block input)"] by (simp add: settle_state_def)
  then show ?thesis
    unfolding client_execute_def Let_def using assms by (simp add: from_input_block_def try_into_recovered_def)
qed

section \<open>How it fails\<close>

lemma validate_chain_no_Err: "validate_chain K spec headers \<noteq> Err e"
  unfolding validate_chain_def
  by (rule res_fold_no_Err) (auto simp: validate_pair_def res_err_simps)

lemma settle_state_Err: "settle_state S post current st = Err e \<Longrightarrow> e = MismatchedStateRootError"
  by (auto simp: settle_state_def res_err_simps Let_def split: if_splits)

lemma client_execute_Err:
  assumes "client_execute S H K G self input = Err e"
  shows "\<exists>c m. e \<in> {SignatureRecoveryFailed, MismatchedStateRootError, PostExecutionError c, BlockExecutionError m}"
  using assms unfolding client_execute_def Let_def
  by (auto simp: res_err_simps validate_chain_no_Err dest!: settle_state_Err)

text \<open>A custom genesis has no chain id.\<close>

lemma client_execute_custom:
  "input_genesis input = Custom json \<Longrightarrow> client_execute S H K G self input = Panic"
  by (simp add: client_execute_def Let_def)

end
