(* ===== verification/Guest_Properties.thy ===== *)
theory Guest_Properties
  imports State_Properties Client_Executor
begin

text \<open>
  The properties of the guest program (\<open>crates/executor/guest\<close>): what its input check
  establishes, what its database answers, and what a result of \<open>verify_block\<close> means.
\<close>

section \<open>Example input\<close>

text \<open>
  Headers are hashed to their number plus one, so the example chain numbers its headers 2 and
  1. The block executor of the example reports the state change of one account.
\<close>

definition example_header_ext :: header_ext where
  "example_header_ext = \<lparr>hash_slow = (\<lambda>h. ucast (hd_number h) + 1),
     seal_slow = (\<lambda>h. \<lparr>sh_header = h, sh_hash = ucast (hd_number h) + 1\<rparr>),
     bytecode_hash = (\<lambda>c. of_nat (length c))\<rparr>"

lemma example_header_sel [simp]:
  "hash_slow example_header_ext h = ucast (hd_number h) + 1"
  "seal_slow example_header_ext h = \<lparr>sh_header = h, sh_hash = ucast (hd_number h) + 1\<rparr>"
  "bytecode_hash example_header_ext c = of_nat (length c)"
  by (simp_all add: example_header_ext_def)

lemma example_seal_laws: "seal_laws example_header_ext"
  by (simp add: seal_laws_def)

definition ex_header :: "u64 \<Rightarrow> b256 \<Rightarrow> b256 \<Rightarrow> header" where
  "ex_header number parent root = \<lparr>
     hd_parent_hash = parent, hd_ommers_hash = 0, hd_beneficiary = 0, hd_state_root = root,
     hd_transactions_root = 0, hd_receipts_root = 0, hd_logs_bloom = 0, hd_difficulty = 0,
     hd_number = number, hd_gas_limit = 0, hd_gas_used = 0, hd_timestamp = 0, hd_extra_data = [],
     hd_mix_hash = 0, hd_nonce = 0, hd_base_fee_per_gas = None, hd_withdrawals_root = None,
     hd_blob_gas_used = None, hd_excess_blob_gas = None, hd_parent_beacon_block_root = None,
     hd_requests_hash = None\<rparr>"

lemma ex_header_sel [simp]: "hd_number (ex_header n p r) = n" "hd_parent_hash (ex_header n p r) = p"
  "hd_state_root (ex_header n p r) = r"
  by (simp_all add: ex_header_def)

definition ex_seal :: "header \<Rightarrow> sealed_header" where
  "ex_seal = seal_slow example_header_ext"

section \<open>The input check\<close>

text \<open>
  C10. \<open>witness_db\<close> accepts an input exactly when the state has the anchor as its root, every
  storage trie hashes to the storage root that the state trie records for its account (the
  empty root for none), and the headers form a chain: each names the hash of the next as its
  parent and its number is one above.
\<close>

theorem witness_db_accepts_iff:
  "(\<exists>db. witness_db S H st anchor codes headers = Ok db) = (state_checked S anchor st \<and> linked headers)"
  by (rule witness_db_accepts)

text \<open>
  C2. The answers of two witness databases that were accepted for the same state root agree on
  every account they both answer, and on every storage slot they both answer (an account whose
  storage one of them lacks is still compared), whatever was sent as witness, unless
  \<open>keccak256\<close> collides on trie nodes: the prover has no freedom in what the block execution
  reads. The nodes are of the kind their paths are flagged with, within RLP's size bounds, and
  deserialised without caches. The first of these is not checked by the guest, and it is needed.
\<close>

theorem database_determined_by_root:
  assumes "ext_laws (base S)"
    and "witness_db S H st anchor codes headers = Ok db" and "tries_ok S st"
    and "witness_db S H st' anchor codes' headers' = Ok db'" and "tries_ok S st'"
    and "no_state_collision S st st'"
  shows "(td_basic S db a = (Ok x :: (string, _) res) \<longrightarrow> td_basic S db' a = (Ok x' :: (string, _) res) \<longrightarrow> x = x') \<and>
    (td_storage S db b i = (Ok v :: (string, _) res) \<longrightarrow> td_storage S db' b i = (Ok v' :: (string, _) res) \<longrightarrow> v = v')"
  using dbs_agree [OF assms] by blast

text \<open>The state of the witness: one account with storage, and the same state with a second account left out.\<close>

definition ex_state :: "(b256, mpt) hashmap \<Rightarrow> ethereum_state" where
  "ex_state tries = \<lparr>state_trie = ex_state_leaf, storage_tries = tries\<rparr>"

lemma ex_hashed_address: "hashed_address example_ext 1 = 5121"
  by (simp add: hashed_address_def keccak_def toy_digest_def address_slice_def upt_rec)

lemma ex_leaf_slot: "get leaf_a (b256_slice k) = Ok None"
proof -
  have "[2] \<noteq> to_nibs (b256_slice k)"
    by (auto dest: arg_cong [of _ _ length])
  then show ?thesis by (simp add: get_def leaf_a_def node_of_def prefix_nibs_def)
qed

lemma hash_default: "hash X mpt_default = EMPTY_ROOT"
  by (simp add: hash_def mpt_default_def)

lemma ex_state_checked:
  assumes "tries = [(5121, leaf_a)] \<or> tries = [(5121, leaf_a), (1, mpt_default)]"
  shows "state_checked example_state_ext (256 * 166 + 3) (ex_state tries)"
proof -
  have "get ex_state_leaf (b256_slice 1) = Ok None"
    by (simp add: get_def ex_state_leaf_def node_of_def hp.dec_enc)
  then show ?thesis
    using assms
    by (auto simp: state_checked_def ex_state_def state_root_def ex_state_hash storage_root_of_def get_rlp_def
      ex_state_get leaf_a_hash hash_default ex_holder_def)
qed

lemma ex_tries_ok:
  assumes "tries = [(5121, leaf_a)] \<or> tries = [(5121, leaf_a), (1, mpt_default)]"
  shows "tries_ok example_state_ext (ex_state tries)"
proof -
  have "canon leaf_a" by code_simp
  then have "trie_ok example_state_ext leaf_a" "trie_ok example_state_ext ex_state_leaf"
    using ex_sized ex_coherent ex_state_sized ex_state_leaf_sel wf_trie_well_kinded by (simp_all add: trie_ok_def wf_trie_def)
  moreover have "trie_ok example_state_ext mpt_default"
    by (simp add: trie_ok_def mpt_default_def node_of_def)
  ultimately show ?thesis
    using assms by (auto simp: tries_ok_def ex_state_def split: if_splits)
qed

lemma ex_leaf_encodings: "encodings example_ext ex_state_leaf = [encode example_ext ex_state_leaf]"
  "encodings example_ext leaf_a = [encode example_ext leaf_a]"
  using ex_state_leaf_sel(2) ex_erase(1) by (simp_all add: ex_state_leaf_def leaf_a_def node_of_def)

lemma ex_no_state_collision: "no_state_collision example_state_ext (ex_state [(5121, leaf_a)])
    (ex_state [(5121, leaf_a), (1, mpt_default)])"
proof -
  have "toy_digest [0x80] = EMPTY_ROOT" by (simp add: toy_digest_def)
  moreover have "toy_digest (encode example_ext ex_state_leaf) = 256 * 166 + 3" using ex_state_hash(1) by simp
  ultimately have "no_collision example_state_ext ex_state_leaf ex_state_leaf"
    "no_collision example_state_ext leaf_a leaf_a"
    using ex_keccak(2) by (auto simp: no_collision_def collision_free_def ex_leaf_encodings EMPTY_ROOT_def)
  then show ?thesis
    by (auto simp: no_state_collision_def ex_state_def split: if_splits)
qed

lemma example_ext_laws: "ext_laws (base example_state_ext)"
  using example_laws by (simp add: ext_laws_def)

lemma ex_witness_db:
  assumes "tries = [(5121, leaf_a)] \<or> tries = [(5121, leaf_a), (1, mpt_default)]" and "linked headers"
  obtains db where "witness_db example_state_ext H (ex_state tries) (256 * 166 + 3) codes headers = Ok db"
    "td_inner db = fill_state example_ext (ex_state tries)"
proof -
  obtain db where d: "witness_db example_state_ext H (ex_state tries) (256 * 166 + 3) codes headers = Ok db"
    using witness_db_accepts ex_state_checked [OF assms(1)] assms(2) by blast
  then show thesis using that witness_db_sound [OF d] by (simp add: db_sound_def)
qed

lemma ex_answers:
  assumes "tries = [(5121, leaf_a)] \<or> tries = [(5121, leaf_a), (1, mpt_default)]"
    and "td_inner db = fill_state example_ext (ex_state tries)"
  shows "td_basic example_state_ext db 1 = Ok (Some (info_of_account ex_holder))"
    and "td_storage example_state_ext db 1 i = Ok 0"
proof -
  have c: "coherent example_ext ex_state_leaf" "coherent example_ext leaf_a"
    by (rule ex_state_leaf_sel, rule ex_coherent)
  show "td_basic example_state_ext db 1 = Ok (Some (info_of_account ex_holder))"
    using assms(2) get_hash_fill [OF c(1)]
    by (simp add: td_basic_def ex_hashed_address get_rlp_def fill_state_def ex_state_def ex_state_get)
  have "hm_get (storage_tries (td_inner db)) 5121 = Some (hash_fill example_ext leaf_a)"
    using assms by (auto simp: fill_state_def ex_state_def)
  then show "td_storage example_state_ext db 1 i = Ok 0"
    using get_hash_fill [OF c(2)]
    by (simp add: td_storage_def ex_hashed_address get_rlp_def ex_leaf_slot value_or_zero_def)
qed

theorem database_determined_by_root_witness:
  "\<exists>db db' x. witness_db example_state_ext example_header_ext (ex_state [(5121, leaf_a)]) (256 * 166 + 3) [] [] = Ok db \<and>
    witness_db example_state_ext example_header_ext (ex_state [(5121, leaf_a), (1, mpt_default)]) (256 * 166 + 3) [[1]] [] = Ok db' \<and>
    td_basic example_state_ext db 1 = (Ok x :: (string, _) res) \<and> td_basic example_state_ext db' 1 = (Ok x :: (string, _) res) \<and>
    (\<exists>v. td_storage example_state_ext db 1 0 = (Ok v :: (string, _) res) \<and> td_storage example_state_ext db' 1 0 = (Ok v :: (string, _) res))"
proof -
  obtain db where db: "witness_db example_state_ext example_header_ext (ex_state [(5121, leaf_a)]) (256 * 166 + 3) [] [] = Ok db"
    "td_inner db = fill_state example_ext (ex_state [(5121, leaf_a)])" by (rule ex_witness_db [of "[(5121, leaf_a)]" "[]"]) auto
  obtain db' where db': "witness_db example_state_ext example_header_ext (ex_state [(5121, leaf_a), (1, mpt_default)]) (256 * 166 + 3) [[1]] [] = Ok db'"
    "td_inner db' = fill_state example_ext (ex_state [(5121, leaf_a), (1, mpt_default)])"
    by (rule ex_witness_db [of "[(5121, leaf_a), (1, mpt_default)]" "[]"]) auto
  obtain x x' where x: "td_basic example_state_ext db 1 = (Ok x :: (string, _) res)"
    "td_basic example_state_ext db' 1 = (Ok x' :: (string, _) res)"
    using ex_answers(1) [OF _ db(2)] ex_answers(1) [OF _ db'(2)] by blast
  obtain v v' where v: "td_storage example_state_ext db 1 0 = (Ok v :: (string, _) res)"
    "td_storage example_state_ext db' 1 0 = (Ok v' :: (string, _) res)"
    using ex_answers(2) [OF _ db(2)] ex_answers(2) [OF _ db'(2)] by blast
  have ok: "tries_ok example_state_ext (ex_state [(5121, leaf_a)])"
    "tries_ok example_state_ext (ex_state [(5121, leaf_a), (1, mpt_default)])"
    by (rule ex_tries_ok, simp)+
  have "x = x'" "v = v'"
    using database_determined_by_root [OF example_ext_laws db(1) ok(1) db'(1) ok(2) ex_no_state_collision,
        of 1 x x' 1 0 v v'] x v by simp_all
  then show ?thesis using db(1) db'(1) x v by blast
qed

text \<open>
  C39. \<open>BLOCKHASH\<close>: for a chain of at most \<open>2^64\<close> headers the database answers the number \<open>i\<close>
  below the current one with the hash of the \<open>i\<close>-th header, and it panics for a number that no
  header after the first has. (Longer chains would wrap around on \<open>u64\<close>.)
\<close>

theorem block_hashes_of_chain:
  assumes "witness_db S H st anchor codes headers = Ok db" and "length headers \<le> 2 ^ 64"
  shows "(0 < i \<longrightarrow> i < length headers \<longrightarrow>
      td_block_hash db (hd_number (sh_header (hd headers)) - of_nat i) = Ok (sh_hash (headers ! i))) \<and>
    (n \<notin> (\<lambda>h. hd_number (sh_header h)) ` set (tl headers) \<longrightarrow> td_block_hash db n = Panic)"
proof (intro conjI impI)
  have d: "linked headers" "hm_get (td_block_hashes db) = map_of (rev (numbered (tl headers)))"
    using witness_db_sound [OF assms(1)] by (simp_all add: db_sound_def)
  show "td_block_hash db (hd_number (sh_header (hd headers)) - of_nat i) = Ok (sh_hash (headers ! i))"
    if "0 < i" and "i < length headers"
    using numbered_lookup [OF d(1) assms(2) that] d(2) by (simp add: td_block_hash_def)
  show "td_block_hash db n = Panic" if "n \<notin> (\<lambda>h. hd_number (sh_header h)) ` set (tl headers)"
  proof -
    have "map_of (rev (numbered (tl headers))) n = None"
      using that by (auto simp: map_of_eq_None_iff numbered_def)
    then show ?thesis using d(2) by (simp add: td_block_hash_def)
  qed
qed

text \<open>A chain of two headers.\<close>

definition ex_chain :: "sealed_header list" where
  "ex_chain = [ex_seal (ex_header 2 2 0), ex_seal (ex_header 1 0 0)]"

lemma ex_chain_linked: "linked ex_chain"
  by (simp add: ex_chain_def ex_seal_def)

theorem block_hashes_of_chain_witness:
  "\<exists>db. witness_db example_state_ext example_header_ext (ex_state [(5121, leaf_a)]) (256 * 166 + 3) [] ex_chain = Ok db \<and>
    td_block_hash db 1 = (Ok 2 :: (string, _) res)"
proof -
  obtain db where db: "witness_db example_state_ext example_header_ext (ex_state [(5121, leaf_a)]) (256 * 166 + 3) [] ex_chain = Ok db"
    by (rule ex_witness_db [OF _ ex_chain_linked, of "[(5121, leaf_a)]"]) auto
  have "td_block_hash db (hd_number (sh_header (hd ex_chain)) - of_nat 1) = (Ok (sh_hash (ex_chain ! 1)) :: (string, _) res)"
    by (rule block_hashes_of_chain [OF db, THEN conjunct1, rule_format]) (simp_all add: ex_chain_def)
  then show ?thesis using db by (simp add: ex_chain_def ex_seal_def)
qed

text \<open>
  Bytecodes: the code answered for a hash is one of the supplied codes and hashes to it,
  and every supplied code is found under its hash (a code with the same hash when several
  have it).
\<close>

lemma bytecodes_hashed:
  assumes "witness_db S H st anchor codes headers = Ok db"
  shows "(td_code_by_hash db h = (Ok c :: (string, _) res) \<longrightarrow> c \<in> set codes \<and> bytecode_hash H c = h) \<and>
    (c \<in> set codes \<longrightarrow> (\<exists>c'. td_code_by_hash db (bytecode_hash H c) = (Ok c' :: (string, _) res)))"
  using witness_db_sound [OF assms] bytecodes_sound [of H codes h c] bytecodes_complete [of c codes H]
  by (auto simp: db_sound_def td_code_by_hash_def unwrap_opt_eq_Ok bytecodes_lookup)

section \<open>What the guest's result means\<close>

text \<open>
  C1. Soundness of \<open>verify_block\<close>: when it returns, the committed block hash is the hash of the
  block of the input; the block's parent is the first ancestor header (by hash, and numbered
  one below); the state that was executed on has the parent's state root, which is returned;
  the transactions' senders were recovered and the block executor, run on the database of that
  state, produced a state change whose application gives the state root in the block's header,
  which is returned too.
\<close>

theorem verify_block_sound:
  assumes "seal_laws H" and "verify_block S H K C G bytes = Ok (block_hash, new_root, prev_root)"
  shows "\<exists>input parent ancestors spec chain_id db.
    deserialize_input G bytes = Some input \<and> ancestor_headers input = parent # ancestors \<and>
    block_hash = hash_slow H (bl_header (current_block input)) \<and>
    new_root = hd_state_root (bl_header (current_block input)) \<and>
    prev_root = hd_state_root parent \<and>
    hash_slow H parent = hd_parent_hash (bl_header (current_block input)) \<and>
    hd_number parent = hd_number (bl_header (current_block input)) - 1 \<and>
    chain_spec_of_genesis C (input_genesis input) = Ok spec \<and>
    chain_id_of_genesis (input_genesis input) = Ok chain_id \<and>
    db_sound S H (parent_state input) prev_root (input_bytecodes input) (sealed_headers H input) db \<and>
    executed S H K G (eth G spec (custom_beneficiary input)) input chain_id db"
  by (rule verify_block_ok [OF assms])

text \<open>An input that is accepted: the block executor writes one account into an empty state.\<close>

definition example_consensus :: "(unit, unit, unit, unit) consensus_ext" where
  "example_consensus = \<lparr>beacon_validate_header = (\<lambda>_ _. Ok ()), beacon_validate_against_parent = (\<lambda>_ _ _. Ok ()),
     body_against_header = (\<lambda>_ _. Ok ()), eth_post_execution = (\<lambda>_ _ _ _ _. Ok ()), spec_chain_id = (\<lambda>_. 1),
     named_chain_of = (\<lambda>_. None), op_validate_header = (\<lambda>_ _. Ok ()),
     op_validate_against_parent = (\<lambda>_ _ _. Ok ()), op_body_against_header = (\<lambda>_ _ _. Ok ()),
     op_post_execution = (\<lambda>_ _ _. Ok ())\<rparr>"

definition ex_root_after :: b256 where
  "ex_root_after = (case update example_state_ext (ex_post [(5, Some ex_account)]) (fill_state example_ext empty_state) of
     Ok st \<Rightarrow> state_root example_ext st | _ \<Rightarrow> 0)"

definition ex_input :: "unit client_input" where
  "ex_input = \<lparr>current_block = \<lparr>bl_header = ex_header 2 2 ex_root_after, bl_body = ()\<rparr>,
     ancestor_headers = [ex_header 1 0 EMPTY_ROOT], parent_state = empty_state, input_bytecodes = [],
     input_genesis = Mainnet, custom_beneficiary = None, opcode_tracking = False\<rparr>"

definition example_guest :: "(unit, unit, unit, unit, unit, unit) guest_ext" where
  "example_guest = \<lparr>recover_senders = (\<lambda>_. Some []),
     basic_execute = (\<lambda>_ _ _ _. Ok \<lparr>eo_state = (), eo_result = \<lparr>er_receipts = [], er_requests = ()\<rparr>\<rparr>),
     tracking_execute = (\<lambda>_ _ _. Err ''unused''),
     hash_state_slow = (\<lambda>_. ex_post [(5, Some ex_account)]),
     new_with_evm_factory = (\<lambda>_ _. ()), op_evm_config = (\<lambda>_. ()), deserialize_input = (\<lambda>_. Some ex_input)\<rparr>"

definition example_chain :: "(unit, unit) chain_ext" where
  "example_chain = \<lparr>chain_mainnet = (), chain_sepolia = (), chain_optimism_mainnet = (), default_genesis = (),
     default_genesis_header = (), default_paris = (), default_deposit_contract = (), default_blob_params = (),
     hardforks_mainnet = (), hardforks_sepolia = (), hardforks_op_mainnet = (), fee_ethereum = (), fee_optimism = (),
     mainnet_prune_delete_limit = 20000, blob_mainnet_scheduled = (), blob_sepolia_scheduled = (),
     serde_genesis = (\<lambda>_. None),
     spec_from_genesis = (\<lambda>_. \<lparr>cs_chain = (), cs_genesis = (), cs_genesis_header = (),
       cs_paris_block_and_final_difficulty = (), cs_hardforks = (), cs_deposit_contract = (), cs_base_fee_params = (),
       cs_prune_delete_limit = 0, cs_blob_params = ()\<rparr>),
     linea_genesis_json = [], goat_genesis_json = [], goat_testnet_genesis_json = []\<rparr>"

lemma ex_fill_empty: "fill_state X empty_state = empty_state"
  by (simp add: fill_state_def empty_state_def hash_fill_def mpt_default_def is_empty_def)

lemma ex_input_db:
  "witness_db example_state_ext example_header_ext empty_state EMPTY_ROOT [] (sealed_headers example_header_ext ex_input) =
    Ok \<lparr>td_inner = empty_state, td_block_hashes = [(1, 2)], td_bytecode_by_hash = []\<rparr>"
  using hash_default [of example_ext] ex_fill_empty
  by (simp add: witness_db_def state_root_def empty_state_def sealed_headers_def ex_input_def check_header_def
      bytecodes_by_hash_def)

text \<open>The guest accepts it whatever the custom beneficiary of the input is.\<close>

definition ex_guest_for :: "(bytes \<Rightarrow> address option) \<Rightarrow> (unit, unit, unit, unit, unit, unit) guest_ext" where
  "ex_guest_for beneficiary =
     example_guest\<lparr>deserialize_input := \<lambda>bytes. Some (ex_input\<lparr>custom_beneficiary := beneficiary bytes\<rparr>)\<rparr>"

lemma ex_guest_for_none: "ex_guest_for (\<lambda>_. None) = example_guest"
  by (simp add: ex_guest_for_def example_guest_def ex_input_def)

lemma ex_verify_block_for:
  "\<exists>root. verify_block example_state_ext example_header_ext example_consensus example_chain (ex_guest_for beneficiary) bytes =
    Ok (3, root, EMPTY_ROOT)"
proof -
  let ?input = "ex_input\<lparr>custom_beneficiary := beneficiary bytes\<rparr>"
  obtain st where st: "update example_state_ext (ex_post [(5, Some ex_account)]) empty_state = Ok st"
    using update_correct [OF empty_state_inv ex_post_wf empty_resolved] by (metis distinct_singleton list.simps(8,9))
  have root: "ex_root_after = state_root example_ext st" by (simp add: ex_root_after_def ex_fill_empty st)
  have e: "state_root example_ext empty_state = EMPTY_ROOT"
    by (simp add: state_root_def empty_state_def hash_default)
  have sealed: "sealed_headers example_header_ext ?input = sealed_headers example_header_ext ex_input"
    by (simp add: sealed_headers_def)
  have db: "input_witness_db example_state_ext example_header_ext ?input (sealed_headers example_header_ext ?input) =
      Ok \<lparr>td_inner = empty_state, td_block_hashes = [(1, 2)], td_bytecode_by_hash = []\<rparr>"
    unfolding sealed using ex_input_db by (simp add: input_witness_db_def state_anchor_def parent_header_def ex_input_def)
  have "client_execute example_state_ext example_header_ext example_consensus (ex_guest_for beneficiary)
      \<lparr>ce_evm_config = (), ce_chain_spec = spec\<rparr> ?input = Ok (ex_header 2 2 ex_root_after, EMPTY_ROOT)" for spec
    using derive_header_same [of ex_root_after "ex_header 2 2 ex_root_after"]
    by (simp add: client_execute_def db)
      (simp add: ex_input_def ex_guest_for_def example_guest_def try_into_recovered_def validate_block_def validate_header_def
        example_consensus_def handle_custom_chains_def validate_chain_def sealed_headers_def validate_pair_def
        validate_header_against_parent_def validate_block_post_execution_def new_block_executor_def settle_state_def st
        root [symmetric] e)
  then show ?thesis
    by (simp add: verify_block_def eth_def) (simp add: ex_guest_for_def example_guest_def ex_input_def)
qed

lemma ex_verify_block:
  "\<exists>root. verify_block example_state_ext example_header_ext example_consensus example_chain example_guest bytes =
    Ok (3, root, EMPTY_ROOT)"
  using ex_verify_block_for [of "\<lambda>_. None"] unfolding ex_guest_for_none .

theorem verify_block_sound_witness:
  "\<exists>input parent ancestors. deserialize_input example_guest [] = Some input \<and>
    ancestor_headers input = parent # ancestors \<and> hd_state_root parent = EMPTY_ROOT"
proof -
  obtain root where "verify_block example_state_ext example_header_ext example_consensus example_chain example_guest []
    = Ok (3, root, EMPTY_ROOT)" using ex_verify_block by blast
  from verify_block_sound [OF example_seal_laws this] show ?thesis by metis
qed

text \<open>
  How \<open>ClientExecutor::execute\<close> fails: an error is one of four kinds (senders not recovered,
  block execution failed, post-execution check failed, wrong state root after the block). Every
  other failure, an unacceptable witness and invalid headers among them, is a panic.
\<close>

lemma client_errors:
  assumes "client_execute S H K G self input = Err e"
  shows "\<exists>c m. e \<in> {SignatureRecoveryFailed, MismatchedStateRootError, PostExecutionError c, BlockExecutionError m}"
  by (rule client_execute_Err [OF assms])

text \<open>A custom genesis is never executed: converting it to a chain id fails, which is a panic.\<close>

lemma verify_block_custom:
  assumes "deserialize_input G bytes = Some input" and "input_genesis input = Custom json"
  shows "verify_block S H K C G bytes = Panic"
  using assms
  by (cases "genesis_from_json C json")
    (simp_all add: verify_block_def spec_of_json_def client_execute_custom [OF assms(2)])

text \<open>
  \<open>handle_custom_chains\<close> relaxes header validation on the Linea chains only, and only for the
  extra data and merge difficulty checks: a header is accepted when the consensus validator
  accepts it, or on these chains when one of the two was its complaint.
\<close>

lemma linea_relaxation:
  "(validate_header K header spec = Ok ()) =
    (beacon_validate_header K spec header = Ok () \<or>
     (\<exists>e. beacon_validate_header K spec header = Err e \<and> linea_exempt e \<and>
        linea_chain (named_chain_of K (spec_chain_id K spec))))"
  unfolding validate_header_def handle_custom_chains_Ok by blast

end
