(* ===== verification/Rpc_Db.thy ===== *)
theory Rpc_Db
  imports Validators Exec_Witness
begin

text \<open>
  \<open>crates/storage/rpc-db/src/basic.rs\<close>, \<open>error.rs\<close> and \<open>crates/storage/witness-db\<close>: the database
  that answers the host's block execution from an RPC provider and records what was read, so
  that the proofs of exactly these accounts and slots can be requested afterwards.
\<close>

section \<open>The provider\<close>

text \<open>
  The requests the code sends; a transport error is its message. \<open>bundle_slots\<close> are the keys
  of the storage map that \<open>BundleState\<close> has for an account. \<open>display_error\<close> is the \<open>Display\<close>
  instance of \<open>RpcDbError\<close> and \<open>in_runtime\<close> says whether \<open>Handle::try_current()\<close> finds a
  \<open>tokio\<close> runtime.
\<close>

record ('rpctx, 'bundle) rpc_provider =
  rp_get_proof :: "address \<Rightarrow> b256 list \<Rightarrow> u64 \<Rightarrow> (string, rpc_account_proof) res"
  rp_get_code :: "address \<Rightarrow> u64 \<Rightarrow> (string, bytes) res"
  rp_get_storage :: "address \<Rightarrow> u256 \<Rightarrow> u64 \<Rightarrow> (string, u256) res"
  rp_get_block :: "u64 \<Rightarrow> (string, 'rpctx rpc_block option) res"
  rp_bundle_slots :: "'bundle \<Rightarrow> address \<Rightarrow> u256 list option"

datatype rpc_db_error =
    Transport string
  | FromProof from_proof_error
  | GetProofError address string
  | GetCodeError address string
  | GetStorageError address u256 string
  | GetBlockError u64 string
  | BlockNotFound u64
  | PreimageNotFound
  | Poisoned

text \<open>\<open>ProviderError\<close>, by the variants the databases build.\<close>

datatype provider_error =
    DatabaseOther string
  | TrieWitnessError string
  | ProviderRlp rlp_error

record rpc_env =
  in_runtime :: bool
  display_error :: "rpc_db_error \<Rightarrow> string"

section \<open>State\<close>

text \<open>\<open>RwLock\<close>: reading a poisoned lock is unwrapped, writing one is an error.\<close>

record 'a rwlock =
  lk_value :: 'a
  lk_poisoned :: bool

definition rwlock_new :: "'a \<Rightarrow> 'a rwlock" where
  "rwlock_new x = \<lparr>lk_value = x, lk_poisoned = False\<rparr>"

definition lock_read :: "'a rwlock \<Rightarrow> ('e, 'a) res" where
  "lock_read l = (if lk_poisoned l then Panic else Ok (lk_value l))"

definition lock_write :: "'a rwlock \<Rightarrow> (rpc_db_error, 'a) res" where
  "lock_write l = (if lk_poisoned l then Err Poisoned else Ok (lk_value l))"

definition lock_set :: "'a \<Rightarrow> 'a rwlock \<Rightarrow> 'a rwlock" where
  "lock_set x l = l\<lparr>lk_value := x\<rparr>"

record ('rpctx, 'bundle) basic_rpc_db =
  bd_provider :: "('rpctx, 'bundle) rpc_provider"
  bd_block_number :: u64
  bd_state_root :: b256
  bd_accounts :: "(address, account_info) hashmap rwlock"
  bd_storage :: "(address, (u256, u256) hashmap) hashmap rwlock"
  bd_oldest_ancestor :: "u64 rwlock"

definition bd_new :: "('rpctx, 'bundle) rpc_provider \<Rightarrow> u64 \<Rightarrow> b256 \<Rightarrow> ('rpctx, 'bundle) basic_rpc_db" where
  "bd_new provider block_number root =
     \<lparr>bd_provider = provider, bd_block_number = block_number, bd_state_root = root,
      bd_accounts = rwlock_new [], bd_storage = rwlock_new [], bd_oldest_ancestor = rwlock_new block_number\<rparr>"

section \<open>Fetching\<close>

text \<open>An error or panic leaves the state as it is (\<open>?\<close>).\<close>

definition try_with :: "('e, 'a) res \<Rightarrow> 's \<Rightarrow> ('a \<Rightarrow> ('e, 'b) res \<times> 's) \<Rightarrow> ('e, 'b) res \<times> 's" where
  "try_with r s f = (case r of Ok x \<Rightarrow> f x | Err e \<Rightarrow> (Err e, s) | Panic \<Rightarrow> (Panic, s))"

definition KECCAK_EMPTY :: b256 where
  "KECCAK_EMPTY = 0xc5d2460186f7233c927e7db2dcc703c0e500b653ca82273b7bfad8045d85a470"

text \<open>The two requests for an account and the account info built from the answers.\<close>

definition request_account :: "('rpctx, 'bundle) basic_rpc_db \<Rightarrow> address \<Rightarrow> (rpc_db_error, account_info) res" where
  "request_account self address =
     res_bind (map_err (GetProofError address)
         (rp_get_proof (bd_provider self) address [] (bd_block_number self))) (\<lambda>proof.
     res_bind (map_err (GetCodeError address)
         (rp_get_code (bd_provider self) address (bd_block_number self))) (\<lambda>code.
       let code_hash = (if rap_code_hash proof = 0 then KECCAK_EMPTY else rap_code_hash proof)
       in Ok \<lparr>ai_balance = rap_balance proof, ai_nonce = rap_nonce proof,
              ai_code_hash = code_hash, ai_code = Some code\<rparr>))"

definition fetch_account_info ::
  "('rpctx, 'bundle) basic_rpc_db \<Rightarrow> address \<Rightarrow> (rpc_db_error, account_info) res \<times> ('rpctx, 'bundle) basic_rpc_db" where
  "fetch_account_info self address =
     try_with (request_account self address) self (\<lambda>info.
       try_with (lock_write (bd_accounts self)) self (\<lambda>accounts.
         (Ok info, self\<lparr>bd_accounts := lock_set (hm_insert address info accounts) (bd_accounts self)\<rparr>)))"

definition request_storage :: "('rpctx, 'bundle) basic_rpc_db \<Rightarrow> address \<Rightarrow> u256 \<Rightarrow> (rpc_db_error, u256) res" where
  "request_storage self address index =
     map_err (GetStorageError address index) (rp_get_storage (bd_provider self) address index (bd_block_number self))"

definition fetch_storage_at ::
  "('rpctx, 'bundle) basic_rpc_db \<Rightarrow> address \<Rightarrow> u256 \<Rightarrow> (rpc_db_error, u256) res \<times> ('rpctx, 'bundle) basic_rpc_db" where
  "fetch_storage_at self address index =
     try_with (request_storage self address index) self (\<lambda>value.
       try_with (lock_write (bd_storage self)) self (\<lambda>storage_values.
         let entry = (case hm_get storage_values address of Some m \<Rightarrow> m | None \<Rightarrow> [])
         in (Ok value, self\<lparr>bd_storage :=
               lock_set (hm_insert address (hm_insert index value entry) storage_values) (bd_storage self)\<rparr>)))"

definition request_block_hash :: "('rpctx, 'bundle) basic_rpc_db \<Rightarrow> u64 \<Rightarrow> (rpc_db_error, b256) res" where
  "request_block_hash self number =
     res_bind (map_err (GetBlockError number) (rp_get_block (bd_provider self) number)) (\<lambda>block.
       map_res rpc_hash (ok_or (BlockNotFound number) block))"

definition fetch_block_hash ::
  "('rpctx, 'bundle) basic_rpc_db \<Rightarrow> u64 \<Rightarrow> (rpc_db_error, b256) res \<times> ('rpctx, 'bundle) basic_rpc_db" where
  "fetch_block_hash self number =
     try_with (request_block_hash self number) self (\<lambda>h.
       try_with (lock_write (bd_oldest_ancestor self)) self (\<lambda>oldest.
         (Ok h, self\<lparr>bd_oldest_ancestor := lock_set (min number oldest) (bd_oldest_ancestor self)\<rparr>)))"

section \<open>\<open>DatabaseRef\<close>\<close>

text \<open>Every read finds the runtime first and turns an error into a database error.\<close>

definition blocking ::
  "rpc_env \<Rightarrow> ('s \<Rightarrow> (rpc_db_error, 'a) res \<times> 's) \<Rightarrow> 's \<Rightarrow> (provider_error, 'a) res \<times> 's" where
  "blocking E fetch self =
     (if in_runtime E
      then (let (result, self') = fetch self in (map_err (\<lambda>e. DatabaseOther (display_error E e)) result, self'))
      else (Err (DatabaseOther ''no tokio runtime found''), self))"

definition bd_basic_ref where
  "bd_basic_ref E self address =
     (let (result, self') = blocking E (\<lambda>s. fetch_account_info s address) self
      in (map_res Some result, self'))"

definition bd_code_by_hash_ref :: "('rpctx, 'bundle) basic_rpc_db \<Rightarrow> b256 \<Rightarrow> (provider_error, bytes) res" where
  "bd_code_by_hash_ref self h = Panic"

definition bd_storage_ref where
  "bd_storage_ref E self address index = blocking E (\<lambda>s. fetch_storage_at s address index) self"

definition bd_block_hash_ref where
  "bd_block_hash_ref E self number = blocking E (\<lambda>s. fetch_block_hash s number) self"

section \<open>The requests for the proofs\<close>

text \<open>A \<open>BTreeSet\<close> collected from a list, and the values of a \<open>BTreeMap\<close>, in key order.\<close>

definition btree_set :: "'a::linorder list \<Rightarrow> 'a list" where
  "btree_set xs = sort (remdups xs)"

definition btree_values :: "('k::linorder \<times> 'v) list \<Rightarrow> 'v list" where
  "btree_values kvs = map (\<lambda>k. the (map_of (rev kvs) k)) (btree_set (map fst kvs))"

definition hm_collect :: "('k \<times> 'v) list \<Rightarrow> ('k, 'v) hashmap" where
  "hm_collect kvs = fold (\<lambda>(k, v). hm_insert k v) kvs []"

definition get_state_requests :: "('rpctx, 'bundle) basic_rpc_db \<Rightarrow> ('e, (address, u256 list) hashmap) res" where
  "get_state_requests self =
     res_bind (lock_read (bd_accounts self)) (\<lambda>accounts.
     res_bind (lock_read (bd_storage self)) (\<lambda>storage.
       Ok (hm_collect (map (\<lambda>address.
             (address, case hm_get storage address of
                Some slots \<Rightarrow> btree_set (map fst slots) | None \<Rightarrow> []))
           (map fst accounts @ map fst storage)))))"

text \<open>
  The loop of \<open>state\<close>: the proof of an account for all slots that were read or are modified, at
  the parent block, and for the modified slots at the block (the addition wraps on \<open>u64\<close>).
\<close>

definition request_proofs ::
  "('rpctx, 'bundle) basic_rpc_db \<Rightarrow> 'bundle \<Rightarrow> address \<times> u256 list \<Rightarrow>
   (rpc_db_error, full_account_proof \<times> full_account_proof) res" where
  "request_proofs self bundle_state = (\<lambda>(address, used_keys).
     let modified_keys = (case rp_bundle_slots (bd_provider self) bundle_state address of
           Some slots \<Rightarrow> btree_set slots | None \<Rightarrow> []);
         keys = btree_set (used_keys @ modified_keys)
     in res_bind (map_err Transport
          (rp_get_proof (bd_provider self) address keys (bd_block_number self))) (\<lambda>before.
        res_bind (map_err Transport
          (rp_get_proof (bd_provider self) address modified_keys (bd_block_number self + 1))) (\<lambda>after.
          Ok (eip1186_proof_to_account_proof before, eip1186_proof_to_account_proof after))))"

text \<open>The proofs of all accounts by the address the answer names.\<close>

definition by_address :: "full_account_proof list \<Rightarrow> (address, account_proof) hashmap" where
  "by_address proofs = hm_collect (map (\<lambda>item. (fap_address item, trie_view item)) proofs)"

definition bd_state ::
  "mpt_ext \<Rightarrow> ('rpctx, 'bundle) basic_rpc_db \<Rightarrow> 'bundle \<Rightarrow> (rpc_db_error, ethereum_state) res" where
  "bd_state X self bundle_state =
     res_bind (get_state_requests self) (\<lambda>state_requests.
     res_bind (res_map (request_proofs self bundle_state) state_requests) (\<lambda>proofs.
       map_err FromProof (from_transition_proofs X (bd_state_root self)
         (by_address (map fst proofs)) (by_address (map snd proofs)))))"

definition bd_bytecodes :: "header_ext \<Rightarrow> ('rpctx, 'bundle) basic_rpc_db \<Rightarrow> ('e, bytes list) res" where
  "bd_bytecodes H self =
     map_res (\<lambda>accounts. btree_values (map (\<lambda>code. (bytecode_hash H code, code))
         (List.map_filter (\<lambda>(_, account). ai_code account) accounts)))
       (lock_read (bd_accounts self))"

section \<open>Ancestor headers\<close>

definition u64_range :: "u64 \<Rightarrow> u64 \<Rightarrow> u64 list" where
  "u64_range lo hi = (if hi < lo then [] else map (\<lambda>i. lo + of_nat i) [0..<Suc (unat (hi - lo))])"

text \<open>The header is built field by field; \<open>mix_hash\<close> and \<open>nonce\<close> of a \<open>Header\<close> are present.\<close>

definition ancestor_header :: "'rpctx rpc_block \<Rightarrow> header" where
  "ancestor_header block = \<lparr>
     hd_parent_hash = hd_parent_hash (rpc_header block),
     hd_ommers_hash = hd_ommers_hash (rpc_header block),
     hd_beneficiary = hd_beneficiary (rpc_header block),
     hd_state_root = hd_state_root (rpc_header block),
     hd_transactions_root = hd_transactions_root (rpc_header block),
     hd_receipts_root = hd_receipts_root (rpc_header block),
     hd_logs_bloom = hd_logs_bloom (rpc_header block),
     hd_difficulty = hd_difficulty (rpc_header block),
     hd_number = hd_number (rpc_header block),
     hd_gas_limit = hd_gas_limit (rpc_header block),
     hd_gas_used = hd_gas_used (rpc_header block),
     hd_timestamp = hd_timestamp (rpc_header block),
     hd_extra_data = hd_extra_data (rpc_header block),
     hd_mix_hash = hd_mix_hash (rpc_header block),
     hd_nonce = hd_nonce (rpc_header block),
     hd_base_fee_per_gas = hd_base_fee_per_gas (rpc_header block),
     hd_withdrawals_root = hd_withdrawals_root (rpc_header block),
     hd_blob_gas_used = hd_blob_gas_used (rpc_header block),
     hd_excess_blob_gas = hd_excess_blob_gas (rpc_header block),
     hd_parent_beacon_block_root = hd_parent_beacon_block_root (rpc_header block),
     hd_requests_hash = hd_requests_hash (rpc_header block)\<rparr>"

definition request_header :: "('rpctx, 'bundle) basic_rpc_db \<Rightarrow> u64 \<Rightarrow> (rpc_db_error, header) res" where
  "request_header self height =
     res_bind (map_err Transport (rp_get_block (bd_provider self) height)) (\<lambda>block.
       map_res ancestor_header (ok_or (BlockNotFound height) block))"

definition bd_ancestor_headers :: "('rpctx, 'bundle) basic_rpc_db \<Rightarrow> (rpc_db_error, header list) res" where
  "bd_ancestor_headers self =
     res_bind (lock_read (bd_oldest_ancestor self)) (\<lambda>oldest_ancestor.
       res_map (request_header self) (rev (u64_range oldest_ancestor (bd_block_number self))))"

section \<open>\<open>WitnessDb\<close>\<close>

text \<open>\<open>crates/storage/witness-db\<close>: a missing entry is a panic in every operation.\<close>

record witness_map_db =
  wd_accounts :: "(address, account_info) hashmap"
  wd_storage :: "(address, (u256, u256) hashmap) hashmap"
  wd_block_hashes :: "(u64, b256) hashmap"

definition wd_basic_ref :: "witness_map_db \<Rightarrow> address \<Rightarrow> ('e, account_info option) res" where
  "wd_basic_ref self address = map_res Some (unwrap_opt (hm_get (wd_accounts self) address))"

definition wd_code_by_hash_ref :: "witness_map_db \<Rightarrow> b256 \<Rightarrow> ('e, bytes) res" where
  "wd_code_by_hash_ref self h = Panic"

definition wd_storage_ref :: "witness_map_db \<Rightarrow> address \<Rightarrow> u256 \<Rightarrow> ('e, u256) res" where
  "wd_storage_ref self address index =
     res_bind (unwrap_opt (hm_get (wd_storage self) address)) (\<lambda>slots. unwrap_opt (hm_get slots index))"

definition wd_block_hash_ref :: "witness_map_db \<Rightarrow> u64 \<Rightarrow> ('e, b256) res" where
  "wd_block_hash_ref self number = unwrap_opt (hm_get (wd_block_hashes self) number)"

end
