(* ===== verification/Rpc_Reads.thy ===== *)
theory Rpc_Reads
  imports Rpc_Db
begin

text \<open>
  What a \<open>BasicRpcDb\<close> has recorded after a sequence of reads: exactly the accounts, slots and
  block numbers that were answered, with the provider's answers.
\<close>

section \<open>Collections\<close>

lemma hm_get_collect: "hm_get (hm_collect kvs) k = map_of (rev kvs) k"
proof -
  have "hm_get (fold (\<lambda>(k, v). hm_insert k v) kvs m) k = (case map_of (rev kvs) k of Some v \<Rightarrow> Some v | None \<Rightarrow> hm_get m k)" for m
    by (induction kvs arbitrary: m rule: rev_induct) auto
  from this [of "[]"] show ?thesis by (simp add: hm_collect_def split: option.split)
qed

lemma hm_wf_collect: "hm_wf (hm_collect kvs)"
proof -
  have "hm_wf m \<Longrightarrow> hm_wf (fold (\<lambda>(k, v). hm_insert k v) kvs m)" for m
    by (induction kvs arbitrary: m) (auto intro: hm_wf_insert)
  then show ?thesis by (simp add: hm_collect_def)
qed

lemma keys_collect: "fst ` set (hm_collect kvs) = fst ` set kvs"
proof -
  have "fst ` set (fold (\<lambda>(k, v). hm_insert k v) kvs m) = fst ` set kvs \<union> fst ` set m" for m
  proof (induction kvs arbitrary: m)
    case (Cons kv kvs)
    then show ?case by (cases kv) (simp add: dom_update)
  qed simp
  from this [of "[]"] show ?thesis by (simp add: hm_collect_def)
qed

lemma set_btree_set [simp]: "set (btree_set xs) = set xs"
  by (simp add: btree_set_def)

lemma sorted_btree_set [simp]: "sorted (btree_set xs)" "distinct (btree_set xs)"
  by (simp_all add: btree_set_def)

lemma btree_set_unique: "sorted ys \<Longrightarrow> distinct ys \<Longrightarrow> set ys = set xs \<Longrightarrow> btree_set xs = ys"
  by (simp add: btree_set_def sorted_distinct_set_unique)

lemma set_u64_range: "set (u64_range lo hi) = {lo..hi}"
proof (cases "hi < lo")
  case False
  have "x \<in> (\<lambda>i. lo + of_nat i) ` {0..<Suc (unat (hi - lo))} \<longleftrightarrow> lo \<le> x \<and> x \<le> hi" for x
  proof
    assume "x \<in> (\<lambda>i. lo + of_nat i) ` {0..<Suc (unat (hi - lo))}"
    then obtain i where "i < Suc (unat (hi - lo))" and x: "x = lo + of_nat i" by force
    then have i: "i \<le> unat (hi - lo)" by simp
    have le: "unat (hi - lo) = unat hi - unat lo" "unat lo \<le> unat hi"
      using False by (simp_all add: unat_sub word_le_nat_alt [symmetric])
    have "unat lo + i < 2 ^ 64" using i le unsigned_less [of hi, where ?'a = nat] by simp
    then have "unat x = unat lo + i"
      by (simp add: x unat_word_ariths unat_of_nat)
    then show "lo \<le> x \<and> x \<le> hi" using i le by (simp add: word_le_nat_alt)
  next
    assume x: "lo \<le> x \<and> x \<le> hi"
    have "unat (x - lo) \<le> unat (hi - lo)"
      using x False by (auto simp: unat_sub word_le_nat_alt intro: diff_le_mono)
    moreover have "x = lo + of_nat (unat (x - lo))" by simp
    ultimately show "x \<in> (\<lambda>i. lo + of_nat i) ` {0..<Suc (unat (hi - lo))}"
      by (intro image_eqI [of _ _ "unat (x - lo)"]) auto
  qed
  then have "(\<lambda>i. lo + of_nat i) ` {0..<Suc (unat (hi - lo))} = {lo..hi}" by (intro set_eqI) simp
  then show ?thesis using False by (simp add: u64_range_def del: upt_Suc)
qed (auto simp: u64_range_def)

lemma length_u64_range: "lo \<le> hi \<Longrightarrow> length (u64_range lo hi) = Suc (unat (hi - lo))"
  by (simp add: u64_range_def not_less [symmetric])

lemma u64_range_nth: "lo \<le> hi \<Longrightarrow> i \<le> unat (hi - lo) \<Longrightarrow> rev (u64_range lo hi) ! i = hi - of_nat i"
proof -
  assume "lo \<le> hi" "i \<le> unat (hi - lo)"
  moreover have "[0..<Suc n] ! (n - i) = n - i" for n i by (subst nth_upt) auto
  ultimately show ?thesis
    by (simp add: u64_range_def rev_nth of_nat_diff not_less [symmetric] del: upt_Suc)
qed

section \<open>Sequences of reads\<close>

datatype db_read = ReadBasic address | ReadStorage address u256 | ReadHash u64

definition run_read :: "rpc_env \<Rightarrow> db_read \<Rightarrow> ('rpctx, 'bundle) basic_rpc_db \<Rightarrow> ('rpctx, 'bundle) basic_rpc_db" where
  "run_read E r db = (case r of
     ReadBasic a \<Rightarrow> snd (bd_basic_ref E db a)
   | ReadStorage a i \<Rightarrow> snd (bd_storage_ref E db a i)
   | ReadHash n \<Rightarrow> snd (bd_block_hash_ref E db n))"

definition run_reads :: "rpc_env \<Rightarrow> db_read list \<Rightarrow> ('rpctx, 'bundle) basic_rpc_db \<Rightarrow> ('rpctx, 'bundle) basic_rpc_db" where
  "run_reads E rs db = fold (run_read E) rs db"

definition answer :: "('e, 'a) res \<Rightarrow> 'a option" where
  "answer r = (case r of Ok x \<Rightarrow> Some x | _ \<Rightarrow> None)"

lemma answer_simps [simp]: "answer (Ok x) = Some x" "answer (Err e) = None" "answer Panic = None"
  by (simp_all add: answer_def)

lemma answer_eq_Some: "answer r = Some x \<longleftrightarrow> r = Ok x"
  by (cases r) simp_all

text \<open>The slots of an account that were read with an answer.\<close>

definition slots_read :: "('rpctx, 'bundle) basic_rpc_db \<Rightarrow> db_read list \<Rightarrow> address \<Rightarrow> u256 set" where
  "slots_read db rs a = {i. ReadStorage a i \<in> set rs \<and> (\<exists>v. request_storage db a i = Ok v)}"

definition accounts_read :: "('rpctx, 'bundle) basic_rpc_db \<Rightarrow> db_read list \<Rightarrow> address set" where
  "accounts_read db rs = {a. ReadBasic a \<in> set rs \<and> (\<exists>info. request_account db a = Ok info)}"

definition hashes_read :: "('rpctx, 'bundle) basic_rpc_db \<Rightarrow> db_read list \<Rightarrow> u64 set" where
  "hashes_read db rs = {n. ReadHash n \<in> set rs \<and> (\<exists>h. request_block_hash db n = Ok h)}"

text \<open>The record a database must hold after the reads \<open>rs\<close> of the database \<open>db0\<close>.\<close>

definition same_source :: "('rpctx, 'bundle) basic_rpc_db \<Rightarrow> ('rpctx, 'bundle) basic_rpc_db \<Rightarrow> bool" where
  "same_source db0 db \<longleftrightarrow> bd_provider db = bd_provider db0 \<and> bd_block_number db = bd_block_number db0 \<and>
     bd_state_root db = bd_state_root db0"

definition unpoisoned :: "('rpctx, 'bundle) basic_rpc_db \<Rightarrow> bool" where
  "unpoisoned db \<longleftrightarrow> \<not> lk_poisoned (bd_accounts db) \<and> \<not> lk_poisoned (bd_storage db) \<and>
     \<not> lk_poisoned (bd_oldest_ancestor db)"

definition recorded :: "('rpctx, 'bundle) basic_rpc_db \<Rightarrow> db_read list \<Rightarrow> ('rpctx, 'bundle) basic_rpc_db \<Rightarrow> bool" where
  "recorded db0 rs db \<longleftrightarrow> same_source db0 db \<and> unpoisoned db \<and>
     hm_get (lk_value (bd_accounts db)) =
       (\<lambda>a. if a \<in> accounts_read db0 rs then answer (request_account db0 a) else None) \<and>
     dom (hm_get (lk_value (bd_storage db))) = {a. slots_read db0 rs a \<noteq> {}} \<and>
     (\<forall>a m. hm_get (lk_value (bd_storage db)) a = Some m \<longrightarrow>
        hm_get m = (\<lambda>i. if i \<in> slots_read db0 rs a then answer (request_storage db0 a i) else None)) \<and>
     lk_value (bd_oldest_ancestor db) = Min (Set.insert (bd_block_number db0) (hashes_read db0 rs))"

lemma request_same_source:
  assumes "same_source db0 db"
  shows "request_account db a = request_account db0 a" "request_storage db a i = request_storage db0 a i"
    "request_block_hash db n = request_block_hash db0 n" "request_header db n = request_header db0 n"
  using assms by (simp_all add: same_source_def request_account_def request_storage_def request_block_hash_def
      request_header_def)

lemma recorded_new: "recorded (bd_new p n r) [] (bd_new p n r)"
  by (simp add: recorded_def same_source_def unpoisoned_def bd_new_def rwlock_new_def accounts_read_def
      slots_read_def hashes_read_def)

text \<open>The state after each kind of read.\<close>

lemma read_basic_state:
  assumes "in_runtime E" and "unpoisoned db"
  shows "run_read E (ReadBasic a) db = (case answer (request_account db a) of
      Some info \<Rightarrow> db\<lparr>bd_accounts := lock_set (hm_insert a info (lk_value (bd_accounts db))) (bd_accounts db)\<rparr>
    | None \<Rightarrow> db)"
  using assms by (cases "request_account db a") (simp_all add: run_read_def bd_basic_ref_def blocking_def
      fetch_account_info_def try_with_def lock_write_def unpoisoned_def)

lemma read_storage_state:
  assumes "in_runtime E" and "unpoisoned db"
  shows "run_read E (ReadStorage a i) db = (case answer (request_storage db a i) of
      Some v \<Rightarrow> db\<lparr>bd_storage := lock_set (hm_insert a (hm_insert i v
          (case hm_get (lk_value (bd_storage db)) a of Some m \<Rightarrow> m | None \<Rightarrow> [])) (lk_value (bd_storage db)))
        (bd_storage db)\<rparr>
    | None \<Rightarrow> db)"
  using assms by (cases "request_storage db a i") (simp_all add: run_read_def bd_storage_ref_def blocking_def
      fetch_storage_at_def try_with_def lock_write_def unpoisoned_def)

lemma read_hash_state:
  assumes "in_runtime E" and "unpoisoned db"
  shows "run_read E (ReadHash n) db = (case answer (request_block_hash db n) of
      Some h \<Rightarrow> db\<lparr>bd_oldest_ancestor := lock_set (min n (lk_value (bd_oldest_ancestor db))) (bd_oldest_ancestor db)\<rparr>
    | None \<Rightarrow> db)"
  using assms by (cases "request_block_hash db n") (simp_all add: run_read_def bd_block_hash_ref_def blocking_def
      fetch_block_hash_def try_with_def lock_write_def unpoisoned_def)

lemma accounts_read_snoc: "accounts_read db (rs @ [r]) = accounts_read db rs \<union>
    (case r of ReadBasic a \<Rightarrow> (if answer (request_account db a) = None then {} else {a}) | _ \<Rightarrow> {})"
  by (cases r) (auto simp: accounts_read_def answer_eq_Some)

lemma slots_read_snoc: "slots_read db (rs @ [r]) a = slots_read db rs a \<union>
    (case r of ReadStorage b i \<Rightarrow> (if b = a \<and> answer (request_storage db b i) \<noteq> None then {i} else {}) | _ \<Rightarrow> {})"
  by (cases r) (auto simp: slots_read_def answer_eq_Some)

lemma hashes_read_snoc: "hashes_read db (rs @ [r]) = hashes_read db rs \<union>
    (case r of ReadHash n \<Rightarrow> (if answer (request_block_hash db n) = None then {} else {n}) | _ \<Rightarrow> {})"
  by (cases r) (auto simp: hashes_read_def answer_eq_Some)

lemmas reads_snoc = accounts_read_snoc slots_read_snoc hashes_read_snoc

lemma finite_hashes_read [simp]: "finite (hashes_read db rs)"
proof -
  have "hashes_read db rs \<subseteq> (\<lambda>r. case r of ReadHash n \<Rightarrow> n | _ \<Rightarrow> 0) ` set rs"
    by (force simp: hashes_read_def)
  then show ?thesis by (rule finite_subset) simp
qed

lemma recorded_basic:
  assumes "recorded db0 rs db" and "in_runtime E"
  shows "recorded db0 (rs @ [ReadBasic a]) (run_read E (ReadBasic a) db)"
proof -
  have s: "same_source db0 db" "unpoisoned db" using assms(1) by (simp_all add: recorded_def)
  have run: "run_read E (ReadBasic a) db = (case answer (request_account db0 a) of
      Some info \<Rightarrow> db\<lparr>bd_accounts := lock_set (hm_insert a info (lk_value (bd_accounts db))) (bd_accounts db)\<rparr>
    | None \<Rightarrow> db)"
    using read_basic_state [OF assms(2) s(2)] by (simp add: request_same_source [OF s(1)])
  show ?thesis
  proof (cases "answer (request_account db0 a)")
    case None
    then show ?thesis using assms(1) by (simp add: run recorded_def reads_snoc)
  next
    case (Some info)
    then show ?thesis using assms(1)
      by (auto simp: run recorded_def reads_snoc lock_set_def same_source_def unpoisoned_def fun_eq_iff)
  qed
qed

lemma recorded_storage:
  assumes "recorded db0 rs db" and "in_runtime E"
  shows "recorded db0 (rs @ [ReadStorage a i]) (run_read E (ReadStorage a i) db)"
proof -
  let ?st = "lk_value (bd_storage db)"
  have s: "same_source db0 db" "unpoisoned db" using assms(1) by (simp_all add: recorded_def)
  define m where "m = (case hm_get ?st a of Some m \<Rightarrow> m | None \<Rightarrow> [])"
  have run: "run_read E (ReadStorage a i) db = (case answer (request_storage db0 a i) of
      Some v \<Rightarrow> db\<lparr>bd_storage := lock_set (hm_insert a (hm_insert i v m) ?st) (bd_storage db)\<rparr> | None \<Rightarrow> db)"
    unfolding m_def using read_storage_state [OF assms(2) s(2)] by (simp add: request_same_source [OF s(1)])
  show ?thesis
  proof (cases "answer (request_storage db0 a i)")
    case None
    then show ?thesis using assms(1) by (simp add: run recorded_def reads_snoc)
  next
    case (Some v)
    have dom: "dom (hm_get ?st) = {a. slots_read db0 rs a \<noteq> {}}"
      and slots: "\<And>b m. hm_get ?st b = Some m \<Longrightarrow>
        hm_get m = (\<lambda>i. if i \<in> slots_read db0 rs b then answer (request_storage db0 b i) else None)"
      using assms(1) by (auto simp: recorded_def)
    have m: "hm_get m = (\<lambda>i. if i \<in> slots_read db0 rs a then answer (request_storage db0 a i) else None)"
    proof (cases "hm_get ?st a")
      case None
      then have "slots_read db0 rs a = {}" using dom by blast
      then show ?thesis using None by (simp add: m_def fun_eq_iff)
    qed (use slots in \<open>simp add: m_def\<close>)
    have "dom (hm_get (hm_insert a (hm_insert i v m) ?st)) = {b. slots_read db0 (rs @ [ReadStorage a i]) b \<noteq> {}}"
      using dom Some by (auto simp: reads_snoc)
    moreover have "hm_get m' = (\<lambda>j. if j \<in> slots_read db0 (rs @ [ReadStorage a i]) b then answer (request_storage db0 b j) else None)"
      if "hm_get (hm_insert a (hm_insert i v m) ?st) b = Some m'" for b m'
      using that slots [of b] m Some by (cases "b = a") (auto simp: reads_snoc fun_eq_iff)
    ultimately show ?thesis using assms(1) Some
      by (simp add: run recorded_def lock_set_def same_source_def unpoisoned_def accounts_read_snoc hashes_read_snoc)
  qed
qed

lemma recorded_hash:
  assumes "recorded db0 rs db" and "in_runtime E"
  shows "recorded db0 (rs @ [ReadHash n]) (run_read E (ReadHash n) db)"
proof -
  have s: "same_source db0 db" "unpoisoned db" using assms(1) by (simp_all add: recorded_def)
  have run: "run_read E (ReadHash n) db = (case answer (request_block_hash db0 n) of
      Some h \<Rightarrow> db\<lparr>bd_oldest_ancestor := lock_set (min n (lk_value (bd_oldest_ancestor db))) (bd_oldest_ancestor db)\<rparr>
    | None \<Rightarrow> db)"
    using read_hash_state [OF assms(2) s(2)] by (simp add: request_same_source [OF s(1)])
  have "min n (Min (Set.insert b (hashes_read db0 rs))) = Min (Set.insert b (Set.insert n (hashes_read db0 rs)))" for b
    by (simp add: insert_commute [of b n])
  then show ?thesis using assms(1)
    by (cases "answer (request_block_hash db0 n)")
      (simp_all add: run recorded_def reads_snoc lock_set_def same_source_def unpoisoned_def)
qed

lemma recorded_run:
  assumes "in_runtime E"
  shows "recorded (bd_new p n r) rs (run_reads E rs (bd_new p n r))"
proof (induction rs rule: rev_induct)
  case (snoc r rs)
  then show ?case
    using recorded_basic [OF snoc assms] recorded_storage [OF snoc assms] recorded_hash [OF snoc assms]
    by (cases r) (simp_all add: run_reads_def)
qed (simp add: run_reads_def recorded_new)

section \<open>The requests\<close>

lemma state_requests:
  assumes "recorded db0 rs db"
  shows "\<exists>m. get_state_requests db = (Ok m :: (rpc_db_error, _) res) \<and> hm_wf m \<and> (\<forall>a. hm_get m a =
    (if a \<in> accounts_read db0 rs \<or> slots_read db0 rs a \<noteq> {} then
       Some (sorted_list_of_set (slots_read db0 rs a)) else None))"
proof -
  let ?acc = "lk_value (bd_accounts db)" and ?st = "lk_value (bd_storage db)"
  define slots where "slots a = (case hm_get ?st a of Some slots \<Rightarrow> btree_set (map fst slots) | None \<Rightarrow> [])" for a
  define kvs where "kvs = map (\<lambda>a. (a, slots a)) (map fst ?acc @ map fst ?st)"
  have rec: "dom (hm_get ?st) = {a. slots_read db0 rs a \<noteq> {}}"
    "\<And>a m. hm_get ?st a = Some m \<Longrightarrow>
        hm_get m = (\<lambda>i. if i \<in> slots_read db0 rs a then answer (request_storage db0 a i) else None)"
    "dom (hm_get ?acc) = accounts_read db0 rs"
    using assms by (auto simp: recorded_def dom_def accounts_read_def)
  have sorted: "slots a = sorted_list_of_set (slots_read db0 rs a)" for a
  proof (cases "hm_get ?st a")
    case None
    then have "slots_read db0 rs a = {}" using rec(1) by blast
    then show ?thesis using None by (simp add: slots_def)
  next
    case (Some m)
    have "fst ` set m = dom (hm_get m)" by (simp add: dom_map_of_conv_image_fst)
    also have "\<dots> = slots_read db0 rs a"
      unfolding rec(2) [OF Some] by (auto simp: dom_def slots_read_def)
    finally have "sorted_list_of_set (slots_read db0 rs a) = btree_set (map fst m)"
      by (intro sorted_distinct_set_unique) (use finite_surj in \<open>auto simp: btree_set_def intro: finite_imageI\<close>)
    then show ?thesis using Some by (simp add: slots_def)
  qed
  have keys: "fst ` set ?acc \<union> fst ` set ?st = accounts_read db0 rs \<union> {a. slots_read db0 rs a \<noteq> {}}"
    using rec(1,3) by (simp add: dom_map_of_conv_image_fst)
  have "map_of (rev kvs) a = (if a \<in> fst ` set ?acc \<union> fst ` set ?st then Some (slots a) else None)" for a
    unfolding kvs_def rev_map by (simp only: map_of_map_restrict) (auto simp: restrict_map_def)
  moreover have "get_state_requests db = Ok (hm_collect kvs)"
    using assms by (simp add: get_state_requests_def lock_read_def recorded_def unpoisoned_def kvs_def slots_def)
  ultimately show ?thesis
    using keys sorted hm_wf_collect by (intro exI [of _ "hm_collect kvs"]) (auto simp: hm_get_collect)
qed

section \<open>The state\<close>

text \<open>The provider answers a proof request with a proof for the account asked for.\<close>

definition proofs_for_account :: "('rpctx, 'bundle) rpc_provider \<Rightarrow> bool" where
  "proofs_for_account p \<longleftrightarrow> (\<forall>a keys n proof. rp_get_proof p a keys n = Ok proof \<longrightarrow> rap_address proof = a)"

lemma set_by_address: "fst ` set (by_address proofs) = fap_address ` set proofs"
  by (simp add: by_address_def keys_collect image_image)

text \<open>
  A state that is built after some read has the root the database was created with, and a
  storage trie for every account that was read.
\<close>

lemma bd_state_anchored:
  assumes rec: "recorded db0 rs db" and st: "bd_state X db bundle = Ok st"
    and a: "a \<in> accounts_read db0 rs \<or> slots_read db0 rs a \<noteq> {}"
  shows "state_root X st = bd_state_root db0"
    and "proofs_for_account (bd_provider db0) \<Longrightarrow> hm_get (storage_tries st) (hashed_address X a) \<noteq> None"
proof -
  obtain m where m: "get_state_requests db = (Ok m :: (rpc_db_error, _) res)" "hm_get m a \<noteq> None"
    using state_requests [OF rec] a by (metis option.distinct(1))
  obtain proofs where p: "res_map (request_proofs db bundle) m = Ok proofs"
    "from_transition_proofs X (bd_state_root db) (by_address (map fst proofs)) (by_address (map snd proofs)) = Ok st"
    using st m(1) by (auto simp: bd_state_def res_ok_simps)
  have "a \<in> fst ` set m" using m(2) by (simp add: dom_map_of_conv_image_fst [symmetric] domIff)
  then obtain i where i: "i < length m" "fst (m ! i) = a" by (auto simp: in_set_conv_nth)
  have len: "length proofs = length m" and req: "request_proofs db bundle (m ! i) = Ok (proofs ! i)"
    using p(1) i(1) by (auto simp: res_map_Ok_iff)
  have ne: "by_address (map fst proofs) \<noteq> []"
    using set_by_address [of "map fst proofs"] i(1) len by auto
  have anch: "anchored X (bd_state_root db) (by_address (map fst proofs)) st"
    using transition_proofs_to_tries_anchored [OF _ ne] p(2) unfolding from_transition_proofs_def .
  then show "state_root X st = bd_state_root db0"
    using rec by (simp add: anchored_def recorded_def same_source_def)
  show "hm_get (storage_tries st) (hashed_address X a) \<noteq> None" if "proofs_for_account (bd_provider db0)"
  proof -
    have "\<exists>keys n before. rp_get_proof (bd_provider db) a keys n = Ok before \<and>
        fst (proofs ! i) = eip1186_proof_to_account_proof before"
      using req i(2) by (cases "m ! i"; cases "proofs ! i") (auto simp: request_proofs_def res_ok_simps Let_def)
    then have "fap_address (fst (proofs ! i)) = a"
      using that rec by (auto simp: eip1186_fields proofs_for_account_def recorded_def same_source_def)
    then have "a \<in> fst ` set (by_address (map fst proofs))"
      unfolding set_by_address using i(1) len by (metis image_eqI length_map nth_map nth_mem)
    then show ?thesis using anch by (force simp: anchored_def storages_match_def)
  qed
qed

section \<open>Headers and codes\<close>

lemma ancestor_header_same: "ancestor_header block = rpc_header block"
  by (simp add: ancestor_header_def)

text \<open>
  The headers are those of the provider's blocks from the parent of the executed block down to
  the oldest block whose hash was asked for.
\<close>

lemma ancestor_headers_ok:
  assumes rec: "recorded db0 rs db" and hs: "bd_ancestor_headers db = Ok hs"
  defines "oldest \<equiv> Min (Set.insert (bd_block_number db0) (hashes_read db0 rs))"
  shows "length hs = Suc (unat (bd_block_number db0 - oldest))"
    and "\<And>i. i < length hs \<Longrightarrow> \<exists>b. rp_get_block (bd_provider db0) (bd_block_number db0 - of_nat i) = Ok (Some b) \<and>
      hs ! i = rpc_header b"
    and "\<And>n. n \<in> hashes_read db0 rs \<Longrightarrow> n \<le> bd_block_number db0 \<Longrightarrow>
      \<exists>i < length hs. n = bd_block_number db0 - of_nat i"
proof -
  let ?n = "bd_block_number db0"
  have le: "oldest \<le> ?n" unfolding oldest_def by simp
  have "request_header db = request_header db0"
    using rec request_same_source(4) by (auto simp: recorded_def)
  then have map: "res_map (request_header db0) (rev (u64_range oldest ?n)) = Ok hs"
    using hs rec by (simp add: bd_ancestor_headers_def lock_read_def recorded_def unpoisoned_def oldest_def same_source_def)
  show len: "length hs = Suc (unat (?n - oldest))"
    using map le by (simp add: res_map_Ok_iff length_u64_range)
  show "\<exists>b. rp_get_block (bd_provider db0) (?n - of_nat i) = Ok (Some b) \<and> hs ! i = rpc_header b"
    if "i < length hs" for i
  proof -
    have "request_header db0 (rev (u64_range oldest ?n) ! i) = Ok (hs ! i)"
      using map that by (simp add: res_map_Ok_iff)
    moreover have "rev (u64_range oldest ?n) ! i = ?n - of_nat i"
      using u64_range_nth [OF le] that len by simp
    ultimately show ?thesis by (auto simp: request_header_def res_ok_simps ancestor_header_same)
  qed
  show "\<exists>i < length hs. n = ?n - of_nat i" if "n \<in> hashes_read db0 rs" "n \<le> ?n" for n
  proof -
    have "n \<in> set (rev (u64_range oldest ?n))"
      using that by (simp add: set_u64_range oldest_def)
    then obtain i where "i < length hs" "rev (u64_range oldest ?n) ! i = n"
      using map by (metis in_set_conv_nth res_map_Ok_iff)
    then show ?thesis using u64_range_nth [OF le, of i] len by auto
  qed
qed

text \<open>The code of every account that was read is among the bytecodes, or one with its hash.\<close>

lemma btree_values_lookup:
  assumes "(k, v) \<in> set kvs"
  shows "\<exists>v'. (k, v') \<in> set kvs \<and> v' \<in> set (btree_values kvs)"
proof -
  have "k \<in> fst ` set (rev kvs)" using assms by force
  then obtain v' where v': "map_of (rev kvs) k = Some v'" by (cases "map_of (rev kvs) k") (auto simp: map_of_eq_None_iff)
  then have "(k, v') \<in> set kvs" using map_of_SomeD [OF v'] by simp
  moreover have "v' = the (map_of (rev kvs) k)" "k \<in> set (btree_set (map fst kvs))"
    using v' assms by force+
  ultimately show ?thesis unfolding btree_values_def by auto
qed

lemma bytecodes_of_reads:
  assumes rec: "recorded db0 rs db" and "a \<in> accounts_read db0 rs"
  shows "\<exists>info code codes c. request_account db0 a = Ok info \<and> ai_code info = Some code \<and>
    bd_bytecodes H db = Ok codes \<and> c \<in> set codes \<and> bytecode_hash H c = bytecode_hash H code"
proof -
  obtain info code where info: "request_account db0 a = Ok info" "ai_code info = Some code"
    using assms(2) by (auto simp: accounts_read_def request_account_def res_ok_simps Let_def)
  have "hm_get (lk_value (bd_accounts db)) a = Some info"
    using rec assms(2) info(1) by (simp add: recorded_def)
  then have "(a, info) \<in> set (lk_value (bd_accounts db))" by (rule map_of_SomeD)
  then have "code \<in> set (List.map_filter (\<lambda>(_, account). ai_code account) (lk_value (bd_accounts db)))"
    using info(2) by (force simp: List.map_filter_def)
  then have "(bytecode_hash H code, code) \<in> set (map (\<lambda>code. (bytecode_hash H code, code))
      (List.map_filter (\<lambda>(_, account). ai_code account) (lk_value (bd_accounts db))))"
    by simp
  from btree_values_lookup [OF this] show ?thesis
    using rec info by (auto simp: bd_bytecodes_def lock_read_def recorded_def unpoisoned_def)
qed

end
