(* ===== verification/Witness_Rpc_Db.thy ===== *)
theory Witness_Rpc_Db
  imports Rpc_Reads
begin

text \<open>
  \<open>crates/storage/rpc-db/src/execution_witness.rs\<close>: the database that answers the host's block
  execution from one \<open>debug_executionWitness\<close> answer.
\<close>

section \<open>Definitions\<close>

record execution_witness =
  ew_state_nodes :: "bytes list"
  ew_code_list :: "bytes list"
  ew_header_list :: "bytes list"

text \<open>\<open>debug_executionWitness\<close>, \<open>Header::decode\<close> and the \<open>Display\<close> instances of the errors.\<close>

record witness_provider =
  wp_execution_witness :: "u64 \<Rightarrow> (string, execution_witness) res"
  wp_header_decode :: "bytes \<Rightarrow> (rlp_error, header) res"
  wp_display_mpt :: "mpt_error \<Rightarrow> string"
  wp_display_b256 :: "b256 \<Rightarrow> string"
  wp_display_u64 :: "u64 \<Rightarrow> string"

record witness_rpc_db =
  ew_provider :: witness_provider
  ew_state :: ethereum_state
  ew_codes :: "(b256, bytes) hashmap"
  ew_ancestor_headers :: "(u64, header) hashmap"

definition ew_new ::
  "state_ext \<Rightarrow> 'n nib_ext \<Rightarrow> witness_provider \<Rightarrow> u64 \<Rightarrow> b256 \<Rightarrow> (rpc_db_error, witness_rpc_db) res" where
  "ew_new S N provider block_number root =
     res_bind (map_err Transport (wp_execution_witness provider (block_number + 1))) (\<lambda>execution_witness.
     res_bind (from_execution_witness S N (ew_state_nodes execution_witness) root) (\<lambda>state.
     let codes = hm_collect (map (\<lambda>encoded. (keccak256 (base S) encoded, encoded)) (ew_code_list execution_witness))
     in res_bind (res_map (\<lambda>encoded. unwrap_res (wp_header_decode provider encoded)) (ew_header_list execution_witness))
       (\<lambda>headers. Ok \<lparr>ew_provider = provider, ew_state = state, ew_codes = codes,
          ew_ancestor_headers = hm_collect (map (\<lambda>h. (hd_number h, h)) headers)\<rparr>)))"

definition ew_basic_ref :: "state_ext \<Rightarrow> witness_rpc_db \<Rightarrow> address \<Rightarrow> (provider_error, account_info option) res" where
  "ew_basic_ref S self address =
     res_bind (map_err (\<lambda>e. TrieWitnessError (wp_display_mpt (ew_provider self) e))
         (get (state_trie (ew_state self)) (b256_slice (hashed_address (base S) address)))) (\<lambda>found.
       case found of
         Some bytes \<Rightarrow>
           res_bind (map_err ProviderRlp (account_decode S bytes)) (\<lambda>account. Ok (Some (info_of_account account)))
       | None \<Rightarrow> Ok None)"

definition ew_code_by_hash_ref :: "witness_rpc_db \<Rightarrow> b256 \<Rightarrow> (provider_error, bytes) res" where
  "ew_code_by_hash_ref self code_hash =
     ok_or (TrieWitnessError (''Code not found for '' @ wp_display_b256 (ew_provider self) code_hash))
       (hm_get (ew_codes self) code_hash)"

definition ew_storage_ref :: "state_ext \<Rightarrow> witness_rpc_db \<Rightarrow> address \<Rightarrow> u256 \<Rightarrow> (provider_error, u256) res" where
  "ew_storage_ref S self address index =
     res_bind (case hm_get (storage_tries (ew_state self)) (hashed_address (base S) address) of
         None \<Rightarrow> Ok None
       | Some storage_trie \<Rightarrow> unwrap_res (get storage_trie (b256_slice (hashed_slot (base S) index)))) (\<lambda>found.
       case found of
         Some value \<Rightarrow> map_err ProviderRlp (u256_decode S value)
       | None \<Rightarrow> Ok 0)"

definition ew_block_hash_ref :: "header_ext \<Rightarrow> witness_rpc_db \<Rightarrow> u64 \<Rightarrow> (provider_error, b256) res" where
  "ew_block_hash_ref H self number =
     res_bind (ok_or (TrieWitnessError (''Header '' @ wp_display_u64 (ew_provider self) number @
         '' not found in the ancestors'')) (hm_get (ew_ancestor_headers self) number)) (\<lambda>header.
       Ok (hash_slow H header))"

text \<open>\<open>RpcDb\<close>: the state is the cached one; \<open>sort_by\<close> is stable, here descending.\<close>

definition ew_state_result :: "witness_rpc_db \<Rightarrow> 'bundle \<Rightarrow> (rpc_db_error, ethereum_state) res" where
  "ew_state_result self bundle_state = Ok (ew_state self)"

definition ew_bytecodes :: "witness_rpc_db \<Rightarrow> bytes list" where
  "ew_bytecodes self = map snd (ew_codes self)"

definition ew_ancestor_header_list :: "witness_rpc_db \<Rightarrow> (rpc_db_error, header list) res" where
  "ew_ancestor_header_list self = Ok (rev (sort_key hd_number (rev (map snd (ew_ancestor_headers self)))))"

section \<open>The database interface\<close>

text \<open>The successful reads, in terms of the reads of the interface.\<close>

lemma ew_basic_Ok:
  "ew_basic_ref S d a = Ok x \<longleftrightarrow>
    (\<exists>y. account_read S (ew_state d) a = Ok y \<and> x = map_option info_of_account y)"
proof (cases "get (state_trie (ew_state d)) (b256_slice (hashed_address (base S) a))")
  case (Ok found)
  show ?thesis
  proof (cases found)
    case (Some bytes)
    then show ?thesis using Ok
      by (cases "account_decode S bytes") (auto simp: ew_basic_ref_def account_read_def get_rlp_def)
  qed (use Ok in \<open>auto simp: ew_basic_ref_def account_read_def get_rlp_def\<close>)
qed (simp_all add: ew_basic_ref_def account_read_def get_rlp_def)

lemma ew_storage_Ok:
  "ew_storage_ref S d a i = Ok v \<longleftrightarrow>
    (case hm_get (storage_tries (ew_state d)) (hashed_address (base S) a) of
       Some t \<Rightarrow> \<exists>w. slot_read S t i = Ok w \<and> v = value_or_zero w | None \<Rightarrow> v = 0)"
proof (cases "hm_get (storage_tries (ew_state d)) (hashed_address (base S) a)")
  case (Some t)
  show ?thesis
  proof (cases "get t (b256_slice (hashed_slot (base S) i))")
    case (Ok found)
    show ?thesis
    proof (cases found)
      case (Some bytes)
      then show ?thesis using Ok \<open>hm_get _ _ = Some t\<close>
        by (cases "u256_decode S bytes") (auto simp: ew_storage_ref_def slot_read_def get_rlp_def value_or_zero_def)
    qed (use Ok Some in \<open>auto simp: ew_storage_ref_def slot_read_def get_rlp_def value_or_zero_def\<close>)
  qed (simp_all add: ew_storage_ref_def slot_read_def get_rlp_def Some)
qed (auto simp: ew_storage_ref_def)

interpretation ew: state_database S True ew_state "ew_basic_ref S" "ew_storage_ref S" for S
  by unfold_locales (auto simp: ew_basic_Ok ew_storage_Ok split: option.splits)

section \<open>What the database is built from\<close>

lemma ew_new_ok:
  assumes "ew_new S N provider block_number root = Ok db"
  obtains witness headers where "wp_execution_witness provider (block_number + 1) = Ok witness"
    "validated S root (ew_state db)"
    "ew_codes db = hm_collect (map (\<lambda>encoded. (keccak256 (base S) encoded, encoded)) (ew_code_list witness))"
    "ew_ancestor_headers db = hm_collect (map (\<lambda>h. (hd_number h, h)) headers)"
    "\<forall>h \<in> set headers. \<exists>encoded \<in> set (ew_header_list witness). wp_header_decode provider encoded = Ok h"
proof -
  obtain w st hs where w: "wp_execution_witness provider (block_number + 1) = Ok w"
    "from_execution_witness S N (ew_state_nodes w) root = (Ok st :: (rpc_db_error, _) res)"
    "res_map (\<lambda>encoded. unwrap_res (wp_header_decode provider encoded)) (ew_header_list w) = (Ok hs :: (rpc_db_error, _) res)"
    "db = \<lparr>ew_provider = provider, ew_state = st,
       ew_codes = hm_collect (map (\<lambda>encoded. (keccak256 (base S) encoded, encoded)) (ew_code_list w)),
       ew_ancestor_headers = hm_collect (map (\<lambda>h. (hd_number h, h)) hs)\<rparr>"
    using assms by (auto simp: ew_new_def res_ok_simps Let_def)
  have "validated S root st"
    using build_validated w(2) by (auto simp: from_execution_witness_def res_ok_simps)
  moreover have "\<exists>encoded \<in> set (ew_header_list w). wp_header_decode provider encoded = Ok h" if "h \<in> set hs" for h
  proof -
    obtain i where i: "i < length hs" "h = hs ! i" using \<open>h \<in> set hs\<close> by (auto simp: in_set_conv_nth)
    then have "wp_header_decode provider (ew_header_list w ! i) = Ok h" "i < length (ew_header_list w)"
      using w(3) by (auto simp: res_map_Ok_iff unwrap_res_eq_Ok)
    then show ?thesis using nth_mem by blast
  qed
  ultimately show thesis using that w by simp
qed

text \<open>The guest's check accepts every state that was validated here.\<close>

lemma validated_checked: "validated S root st \<Longrightarrow> state_checked S root st"
  using map_of_is_SomeI [of "storage_tries st"]
  by (fastforce simp: validated_def state_checked_def storage_root_of_def)

section \<open>The host reads what the guest reads\<close>

text \<open>
  The guest's database of the same state answers the same: accounts exactly, and slots
  wherever it does not panic.
\<close>

lemma td_same_state:
  assumes "coherent (base S) (state_trie st)" and "td_inner td = fill_state (base S) st" and "ew_state db = st"
  shows "td_basic S td a = (Ok x :: (string, _) res) \<longleftrightarrow> ew_basic_ref S db a = Ok x"
proof -
  have "account_read S (td_inner td) a = account_read S st a"
    using get_hash_fill [OF assms(1)] assms(2) by (simp add: account_read_def get_rlp_def fill_state_def)
  then show ?thesis
    using assms(3) by (auto simp: ew_basic_Ok td_basic_def account_read_def map_res_eq_Ok unwrap_res_eq_Ok)
qed

lemma td_same_storage:
  assumes "\<And>k t. hm_get (storage_tries st) k = Some t \<Longrightarrow> coherent (base S) t"
    and "td_inner td = fill_state (base S) st" and "ew_state db = st"
  shows "td_storage S td a i = (Ok v :: (string, _) res) \<longleftrightarrow>
    ew_storage_ref S db a i = Ok v \<and> hm_get (storage_tries st) (hashed_address (base S) a) \<noteq> None"
proof -
  have lookup: "hm_get (storage_tries (td_inner td)) k = map_option (hash_fill (base S)) (hm_get (storage_tries st) k)" for k
    using assms(2) by (simp add: fill_state_def map_of_map)
  show ?thesis
  proof (cases "hm_get (storage_tries st) (hashed_address (base S) a)")
    case (Some t)
    have "slot_read S (hash_fill (base S) t) i = slot_read S t i"
      using get_hash_fill [OF assms(1) [OF Some]] by (simp add: slot_read_def get_rlp_def)
    then show ?thesis using assms(3) Some
      by (auto simp: td_storage_def ew_storage_Ok lookup slot_read_def map_res_eq_Ok unwrap_res_eq_Ok)
  qed (simp add: td_storage_def lookup)
qed

section \<open>The ancestor headers\<close>

lemma ancestor_list:
  assumes "ew_ancestor_headers db = hm_collect (map (\<lambda>h. (hd_number h, h)) headers)"
    and "ew_ancestor_header_list db = Ok hs"
  shows "sorted_wrt (>) (map hd_number hs)" and "set hs \<subseteq> set headers"
    and "hd_number ` set hs = hd_number ` set headers"
proof -
  let ?m = "hm_collect (map (\<lambda>h. (hd_number h, h)) headers)"
  have get: "hm_get ?m k = Some h \<Longrightarrow> h \<in> set headers \<and> hd_number h = k" for k h
    using map_of_SomeD [of "rev (map (\<lambda>h. (hd_number h, h)) headers)" k h] by (auto simp: hm_get_collect)
  have mem: "(k, h) \<in> set ?m \<Longrightarrow> h \<in> set headers \<and> hd_number h = k" for k h
    by (rule get) (rule map_of_is_SomeI [OF hm_wf_collect])
  have hs: "hs = rev (sort_key hd_number (rev (map snd ?m)))"
    using assms by (simp add: ew_ancestor_header_list_def)
  have "h \<in> set headers" if "h \<in> set hs" for h
  proof -
    have "h \<in> snd ` set ?m" using that by (simp add: hs)
    then obtain k where "(k, h) \<in> set ?m" by force
    then show ?thesis using mem by blast
  qed
  then show "set hs \<subseteq> set headers" by blast
  have fst: "map hd_number (map snd ?m) = map fst ?m"
    unfolding map_map comp_def
  proof (intro map_cong refl)
    fix x assume "x \<in> set ?m"
    then show "hd_number (snd x) = fst x" using mem [of "fst x" "snd x"] by simp
  qed
  have r: "rev (map hd_number hs) = map hd_number (sort_key hd_number (rev (map snd ?m)))"
    by (simp add: hs rev_map)
  have "set (rev (map hd_number hs)) = set (map hd_number (map snd ?m))"
    "length (rev (map hd_number hs)) = length (map hd_number (map snd ?m))"
    unfolding r by (simp_all add: image_image)
  then have "card (set (rev (map hd_number hs))) = length (rev (map hd_number hs))"
    unfolding fst using distinct_card [OF hm_wf_collect] by (simp only: length_map)
  then have d: "distinct (rev (map hd_number hs))" by (rule card_distinct)
  have "sorted (rev (map hd_number hs))" unfolding r by simp
  then have "sorted_wrt (<) (rev (map hd_number hs))" using d by (simp add: strict_sorted_iff)
  then show "sorted_wrt (>) (map hd_number hs)" by (simp add: sorted_wrt_rev)
  have "fst ` set ?m = hd_number ` set headers"
    by (simp add: keys_collect image_image)
  then show "hd_number ` set hs = hd_number ` set headers"
    using hs arg_cong [OF fst, of set] by (simp add: image_image)
qed

end
