(* ===== verification/Host_Executor.thy ===== *)
theory Host_Executor
  imports Witness_Rpc_Db Client_Executor
begin

text \<open>
  \<open>crates/executor/host/src/host_executor.rs\<close>: the host executes the block against an RPC
  database, checks the result and builds the input of the guest program.
\<close>

section \<open>Definitions\<close>

datatype host_error =
    ParseError string
  | HostTransport string
  | FailedToRecoverSenders
  | PostExecutionCheck consensus_error
  | ExecutionFailed string
  | HostFromProof from_proof_error
  | ExpectedBlock u64
  | HeaderMismatch b256 b256
  | StateRootMismatch b256 b256
  | HostGenesisFile string
  | HostRpcDbError rpc_db_error
  | CustomError string

text \<open>
  The trait \<open>RpcDb\<close> with the constructor of the database. Executing a block on a database
  leaves the database with what it recorded.
\<close>

record ('db, 'bundle) rpc_db_ops =
  rd_new :: "u64 \<Rightarrow> b256 \<Rightarrow> (rpc_db_error, 'db) res"
  rd_state :: "'db \<Rightarrow> 'bundle \<Rightarrow> (rpc_db_error, ethereum_state) res"
  rd_bytecodes :: "'db \<Rightarrow> (rpc_db_error, bytes list) res"
  rd_ancestor_headers :: "'db \<Rightarrow> (rpc_db_error, header list) res"

definition basic_rpc_db_ops ::
  "state_ext \<Rightarrow> header_ext \<Rightarrow> ('rpctx, 'bundle) rpc_provider \<Rightarrow> (('rpctx, 'bundle) basic_rpc_db, 'bundle) rpc_db_ops" where
  "basic_rpc_db_ops S H provider = \<lparr>rd_new = (\<lambda>n r. Ok (bd_new provider n r)),
     rd_state = bd_state (base S), rd_bytecodes = bd_bytecodes H, rd_ancestor_headers = bd_ancestor_headers\<rparr>"

definition witness_rpc_db_ops ::
  "state_ext \<Rightarrow> 'n nib_ext \<Rightarrow> witness_provider \<Rightarrow> (witness_rpc_db, 'bundle) rpc_db_ops" where
  "witness_rpc_db_ops S N provider = \<lparr>rd_new = ew_new S N provider, rd_state = ew_state_result,
     rd_bytecodes = (\<lambda>db. Ok (ew_bytecodes db)), rd_ancestor_headers = ew_ancestor_header_list\<rparr>"

text \<open>
  The block executor over \<open>CacheDB\<close>, \<open>HashedPostState::from_bundle_state\<close>, the bloom filter of
  a receipt, and the block requests of the provider.
\<close>

record ('cfg, 'body, 'bundle, 'receipt, 'request, 'rpctx, 'db) host_ext =
  run_block :: "'cfg \<Rightarrow> u64 option \<Rightarrow> 'body recovered_block \<Rightarrow> 'db \<Rightarrow>
    (string, ('bundle, 'receipt, 'request) execution_output) res \<times> 'db"
  from_bundle_state :: "'bundle \<Rightarrow> hashed_post_state"
  receipt_bloom :: "'receipt \<Rightarrow> 2048 word"
  get_full_block :: "u64 \<Rightarrow> (string, 'rpctx rpc_block option) res"

record ('v, 'cfg) host_executor =
  he_evm_config :: 'cfg
  he_chain_spec :: "'v chain_spec"

definition host_new :: "'cfg \<Rightarrow> 'v chain_spec \<Rightarrow> ('v, 'cfg) host_executor" where
  "host_new evm_config chain_spec = \<lparr>he_evm_config = evm_config, he_chain_spec = chain_spec\<rparr>"

definition host_eth ::
  "('v, 'cfg, 'body, 'bundle, 'receipt, 'request) guest_ext \<Rightarrow> 'v chain_spec \<Rightarrow> address option \<Rightarrow> ('v, 'cfg) host_executor" where
  "host_eth G chain_spec beneficiary =
     \<lparr>he_evm_config = new_with_evm_factory G chain_spec beneficiary, he_chain_spec = chain_spec\<rparr>"

definition host_optimism ::
  "('v, 'cfg, 'body, 'bundle, 'receipt, 'request) guest_ext \<Rightarrow> 'v chain_spec \<Rightarrow> ('v, 'cfg) host_executor" where
  "host_optimism G chain_spec = \<lparr>he_evm_config = op_evm_config G chain_spec, he_chain_spec = chain_spec\<rparr>"

text \<open>The two requests for blocks; a missing previous block is reported by the number of the block.\<close>

definition expect_block ::
  "(u64 \<Rightarrow> (string, 'rpctx rpc_block option) res) \<Rightarrow> u64 \<Rightarrow> u64 \<Rightarrow> (host_error, 'rpctx rpc_block) res" where
  "expect_block request number reported =
     res_bind (map_err HostTransport (request number)) (ok_or (ExpectedBlock reported))"

definition accrue_blooms :: "('receipt \<Rightarrow> 2048 word) \<Rightarrow> 'receipt list \<Rightarrow> 2048 word" where
  "accrue_blooms bloom receipts = fold (\<lambda>r logs_bloom. or logs_bloom (bloom r)) receipts 0"

text \<open>The state root after the block, on a copy of the state.\<close>

definition mutated_root :: "state_ext \<Rightarrow> hashed_post_state \<Rightarrow> ethereum_state \<Rightarrow> (host_error, b256) res" where
  "mutated_root S post state = map_res (state_root (base S)) (unwrap_res (update S post state))"

text \<open>The derived header has the computed state root and the accrued bloom filter.\<close>

definition host_header :: "b256 \<Rightarrow> 2048 word \<Rightarrow> header \<Rightarrow> header" where
  "host_header root logs_bloom current = (derive_header root current)\<lparr>hd_logs_bloom := logs_bloom\<rparr>"

text \<open>Execution and validation of the recovered block, up to the post-execution checks.\<close>

definition host_run_block ::
  "header_ext \<Rightarrow> ('v, 'body, 'receipt, 'request) consensus_ext \<Rightarrow>
   ('cfg, 'body, 'bundle, 'receipt, 'request, 'rpctx, 'db) host_ext \<Rightarrow> ('v, 'cfg) host_executor \<Rightarrow> u64 \<Rightarrow>
   header \<Rightarrow> 'body recovered_block \<Rightarrow> 'db \<Rightarrow>
   (host_error, ('bundle, 'receipt, 'request) execution_output \<times> 'db) res" where
  "host_run_block H K HX self chain_id consensus_header block db =
     (let spec = he_chain_spec self in
      res_bind (map_err PostExecutionCheck (validate_block K H block spec)) (\<lambda>_.
      res_bind (map_err PostExecutionCheck (validate_header K (seal_slow H consensus_header) spec)) (\<lambda>_.
      let (result, db') = run_block HX (he_evm_config self) (Some chain_id) block db in
      res_bind (map_err ExecutionFailed result) (\<lambda>output.
      res_bind (map_err PostExecutionCheck
          (validate_block_post_execution K block spec output (is_goat_testnet chain_id))) (\<lambda>_.
        Ok (output, db'))))))"

text \<open>The checks of the result and the input built from it.\<close>

definition host_finish ::
  "state_ext \<Rightarrow> header_ext \<Rightarrow> ('cfg, 'body, 'bundle, 'receipt, 'request, 'rpctx, 'db) host_ext \<Rightarrow>
   ('db, 'bundle) rpc_db_ops \<Rightarrow> genesis \<Rightarrow> address option \<Rightarrow> bool \<Rightarrow> 'body block \<Rightarrow>
   ('bundle, 'receipt, 'request) execution_output \<times> 'db \<Rightarrow> (host_error, 'body client_input) res" where
  "host_finish S H HX D genesis beneficiary tracking block = (\<lambda>(output, db).
     let logs_bloom = accrue_blooms (receipt_bloom HX) (er_receipts (eo_result output));
         current = bl_header block
     in res_bind (map_err HostRpcDbError (rd_state D db (eo_state output))) (\<lambda>state.
        res_bind (mutated_root S (from_bundle_state HX (eo_state output)) state) (\<lambda>root.
        if root \<noteq> hd_state_root current then Err (StateRootMismatch root (hd_state_root current))
        else
          let header = host_header root logs_bloom current in
          res_bind (map_err HostRpcDbError (rd_ancestor_headers D db)) (\<lambda>ancestors.
          let constructed_header_hash = hash_slow H header; target_hash = hash_slow H current in
          if constructed_header_hash \<noteq> target_hash
          then Err (HeaderMismatch constructed_header_hash target_hash)
          else res_bind (map_err HostRpcDbError (rd_bytecodes D db)) (\<lambda>bytecodes.
            Ok \<lparr>current_block = into_input_block block, ancestor_headers = ancestors, parent_state = state,
              input_bytecodes = bytecodes, input_genesis = genesis, custom_beneficiary = beneficiary,
              opcode_tracking = tracking\<rparr>)))))"

definition host_execute ::
  "state_ext \<Rightarrow> header_ext \<Rightarrow> ('v, 'body, 'receipt, 'request) consensus_ext \<Rightarrow> ('rpctx, 'tx, 'body) convert_ext \<Rightarrow>
   ('v, 'cfg, 'body, 'bundle, 'receipt, 'request) guest_ext \<Rightarrow>
   ('cfg, 'body, 'bundle, 'receipt, 'request, 'rpctx, 'db) host_ext \<Rightarrow> ('db, 'bundle) rpc_db_ops \<Rightarrow>
   ('v, 'cfg) host_executor \<Rightarrow> u64 \<Rightarrow> genesis \<Rightarrow> address option \<Rightarrow> bool \<Rightarrow> (host_error, 'body client_input) res" where
  "host_execute S H K V G HX D self block_number genesis beneficiary tracking =
     res_bind (unwrap_res (chain_id_of_genesis genesis)) (\<lambda>chain_id.
     res_bind (expect_block (get_full_block HX) block_number block_number) (\<lambda>rpc_block.
     let current_block = into_primitive_block V rpc_block in
     res_bind (map_res (into_primitive_block V)
         (expect_block (get_full_block HX) (block_number - 1) block_number)) (\<lambda>previous_block.
     res_bind (map_err HostRpcDbError (rd_new D (block_number - 1) (hd_state_root (bl_header previous_block)))) (\<lambda>db.
     res_bind (ok_or FailedToRecoverSenders (try_into_recovered G current_block)) (\<lambda>block.
     res_bind (host_run_block H K HX self chain_id (into_consensus_header (rpc_header rpc_block)) block db)
       (host_finish S H HX D genesis beneficiary tracking current_block))))))"

section \<open>What a returned input has passed\<close>

text \<open>The run of the host that leads to an input.\<close>

definition host_ran ::
  "state_ext \<Rightarrow> header_ext \<Rightarrow> ('v, 'body, 'receipt, 'request) consensus_ext \<Rightarrow> ('rpctx, 'tx, 'body) convert_ext \<Rightarrow>
   ('v, 'cfg, 'body, 'bundle, 'receipt, 'request) guest_ext \<Rightarrow>
   ('cfg, 'body, 'bundle, 'receipt, 'request, 'rpctx, 'db) host_ext \<Rightarrow> ('db, 'bundle) rpc_db_ops \<Rightarrow>
   ('v, 'cfg) host_executor \<Rightarrow> u64 \<Rightarrow> u64 \<Rightarrow> 'rpctx rpc_block \<Rightarrow> 'rpctx rpc_block \<Rightarrow> 'db \<Rightarrow> address list \<Rightarrow>
   ('bundle, 'receipt, 'request) execution_output \<Rightarrow> 'db \<Rightarrow> bool" where
  "host_ran S H K V G HX D self n chain_id block previous db senders out db' \<longleftrightarrow>
     (let current = into_primitive_block V block; recovered = \<lparr>rb_block = current, rb_senders = senders\<rparr> in
      get_full_block HX n = Ok (Some block) \<and> get_full_block HX (n - 1) = Ok (Some previous) \<and>
      rd_new D (n - 1) (hd_state_root (rpc_header previous)) = Ok db \<and>
      recover_senders G current = Some senders \<and>
      validate_block K H recovered (he_chain_spec self) = Ok () \<and>
      run_block HX (he_evm_config self) (Some chain_id) recovered db = (Ok out, db') \<and>
      validate_block_post_execution K recovered (he_chain_spec self) out (is_goat_testnet chain_id) = Ok ())"

lemma host_execute_ok:
  assumes "host_execute S H K V G HX D self n genesis beneficiary tracking = Ok input"
  obtains chain_id block previous db senders out db' st' where
    "chain_id_of_genesis genesis = Ok chain_id"
    "host_ran S H K V G HX D self n chain_id block previous db senders out db'"
    "current_block input = into_primitive_block V block"
    "rd_state D db' (eo_state out) = Ok (parent_state input)"
    "rd_ancestor_headers D db' = Ok (ancestor_headers input)"
    "rd_bytecodes D db' = Ok (input_bytecodes input)"
    "input_genesis input = genesis" "custom_beneficiary input = beneficiary" "opcode_tracking input = tracking"
    "update S (from_bundle_state HX (eo_state out)) (parent_state input) = Ok st'"
    "state_root (base S) st' = hd_state_root (rpc_header block)"
    "hash_slow H (host_header (hd_state_root (rpc_header block))
       (accrue_blooms (receipt_bloom HX) (er_receipts (eo_result out))) (rpc_header block)) =
     hash_slow H (rpc_header block)"
proof -
  obtain chain_id block previous db recovered out db' where e:
    "chain_id_of_genesis genesis = Ok chain_id"
    "get_full_block HX n = Ok (Some block)" "get_full_block HX (n - 1) = Ok (Some previous)"
    "rd_new D (n - 1) (hd_state_root (rpc_header previous)) = Ok db"
    "try_into_recovered G (into_primitive_block V block) = Some recovered"
    "host_run_block H K HX self chain_id (into_consensus_header (rpc_header block)) recovered db = Ok (out, db')"
    "host_finish S H HX D genesis beneficiary tracking (into_primitive_block V block) (out, db') = Ok input"
    using assms unfolding host_execute_def Let_def
    by (auto simp: res_ok_simps expect_block_def into_primitive_block_def)
  have recovered: "recover_senders G (into_primitive_block V block) = Some (rb_senders recovered)"
    "recovered = \<lparr>rb_block = into_primitive_block V block, rb_senders = rb_senders recovered\<rparr>"
    using e(5) by (auto simp: try_into_recovered_def)
  have run: "validate_block K H recovered (he_chain_spec self) = Ok ()"
    "run_block HX (he_evm_config self) (Some chain_id) recovered db = (Ok out, db')"
    "validate_block_post_execution K recovered (he_chain_spec self) out (is_goat_testnet chain_id) = Ok ()"
    using e(6) by (auto simp: host_run_block_def Let_def res_ok_simps simp del: unit_eq split: prod.splits)
  have ran: "host_ran S H K V G HX D self n chain_id block previous db (rb_senders recovered) out db'"
    unfolding host_ran_def Let_def using e(2-4) recovered run by metis
  have current: "bl_header (into_primitive_block V block) = rpc_header block"
    by (simp add: into_primitive_block_def)
  obtain st st' hs codes where fin:
    "rd_state D db' (eo_state out) = Ok st"
    "update S (from_bundle_state HX (eo_state out)) st = Ok st'"
    "state_root (base S) st' = hd_state_root (rpc_header block)"
    "rd_ancestor_headers D db' = Ok hs" "rd_bytecodes D db' = Ok codes"
    "hash_slow H (host_header (hd_state_root (rpc_header block))
       (accrue_blooms (receipt_bloom HX) (er_receipts (eo_result out))) (rpc_header block)) =
     hash_slow H (rpc_header block)"
    "input = \<lparr>current_block = into_primitive_block V block, ancestor_headers = hs, parent_state = st,
       input_bytecodes = codes, input_genesis = genesis, custom_beneficiary = beneficiary, opcode_tracking = tracking\<rparr>"
    using e(7) by (auto simp: host_finish_def Let_def res_ok_simps mutated_root_def current into_input_block_def split: if_splits)
  show thesis
    by (rule that [OF e(1) ran, where st' = st']) (simp_all add: fin)
qed

section \<open>The interface of the RPC databases\<close>

text \<open>
  \<open>used n r d\<close>: the database \<open>d\<close> was created for block \<open>n\<close> and state root \<open>r\<close> and then read; \<open>touched d\<close>
  says that something was read.
\<close>

locale rpc_db =
  fixes X :: mpt_ext
    and new :: "u64 \<Rightarrow> b256 \<Rightarrow> (rpc_db_error, 'db) res"
    and state :: "'db \<Rightarrow> 'bundle \<Rightarrow> (rpc_db_error, ethereum_state) res"
    and used :: "u64 \<Rightarrow> b256 \<Rightarrow> 'db \<Rightarrow> bool"
    and touched :: "'db \<Rightarrow> bool"
  assumes new_used: "new n r = Ok d \<Longrightarrow> used n r d"
    and state_rooted: "used n r d \<Longrightarrow> touched d \<Longrightarrow> state d b = Ok st \<Longrightarrow> state_root X st = r"
begin

text \<open>The state in the input of the guest has the state root of the previous block.\<close>

lemma input_state_root:
  assumes "X = base S" and "rd_new D = new" and "rd_state D = state"
    and run: "\<And>cfg c block d. used m r d \<Longrightarrow> used m r (snd (run_block HX cfg c block d)) \<and>
      touched (snd (run_block HX cfg c block d))"
    and "m = n - 1" and "get_full_block HX m = Ok (Some previous)" and "r = hd_state_root (rpc_header previous)"
    and "host_execute S H K V G HX D self n genesis beneficiary tracking = Ok input"
  shows "state_root (base S) (parent_state input) = r"
proof -
  obtain chain_id block previous' db senders out db' where h:
    "host_ran S H K V G HX D self n chain_id block previous' db senders out db'"
    "rd_state D db' (eo_state out) = Ok (parent_state input)"
    using host_execute_ok [OF assms(8)] by metis
  have "previous' = previous" using h(1) assms(5,6) by (simp add: host_ran_def Let_def)
  then have db: "used m r db" "snd (run_block HX (he_evm_config self) (Some chain_id)
      \<lparr>rb_block = into_primitive_block V block, rb_senders = senders\<rparr> db) = db'"
    using h(1) new_used assms(2,5,7) by (simp_all add: host_ran_def Let_def)
  then have "used m r db'" "touched db'" using run [OF db(1)] by metis+
  then show ?thesis using state_rooted h(2) assms(1,3) by metis
qed

end

text \<open>The two implementations.\<close>

definition reads_something :: "('rpctx, 'bundle) basic_rpc_db \<Rightarrow> bool" where
  "reads_something db \<longleftrightarrow> lk_value (bd_accounts db) \<noteq> [] \<or> lk_value (bd_storage db) \<noteq> []"

definition basic_used :: "('rpctx, 'bundle) rpc_provider \<Rightarrow> u64 \<Rightarrow> b256 \<Rightarrow> ('rpctx, 'bundle) basic_rpc_db \<Rightarrow> bool" where
  "basic_used p n r db \<longleftrightarrow> (\<exists>rs. recorded (bd_new p n r) rs db)"

interpretation basic_db: rpc_db X "\<lambda>n r. Ok (bd_new p n r)" "bd_state X" "basic_used p" reads_something for X p
proof unfold_locales
  show "Ok (bd_new p n r) = Ok d \<Longrightarrow> basic_used p n r d" for n r and d :: "('a, 'b) basic_rpc_db"
    using recorded_new [of p n r] by (auto simp: basic_used_def)
next
  fix n r b st and d :: "('a, 'b) basic_rpc_db"
  assume "basic_used p n r d" and t: "reads_something d" and st: "bd_state X d b = Ok st"
  then obtain rs where rec: "recorded (bd_new p n r) rs d" by (auto simp: basic_used_def)
  have "\<exists>a. a \<in> accounts_read (bd_new p n r) rs \<or> slots_read (bd_new p n r) rs a \<noteq> {}"
  proof (rule ccontr)
    assume "\<not> ?thesis"
    then have "hm_get (lk_value (bd_accounts d)) = Map.empty" "hm_get (lk_value (bd_storage d)) = Map.empty"
      using rec by (auto simp: recorded_def)
    then show False using t by (simp add: reads_something_def)
  qed
  then show "state_root X st = r"
    using bd_state_anchored(1) [OF rec st] by (auto simp: bd_new_def)
qed

interpretation witness_rpc: rpc_db "base S" "ew_new S N p" ew_state_result
  "\<lambda>n r d. validated S r (ew_state d)" "\<lambda>_. True" for S N p
proof unfold_locales
  show "ew_new S N p n r = Ok d \<Longrightarrow> validated S r (ew_state d)" for n r d
    by (erule ew_new_ok)
  show "validated S r (ew_state d) \<Longrightarrow> True \<Longrightarrow> ew_state_result d b = Ok st \<Longrightarrow> state_root (base S) st = r" for r d b st
    by (auto simp: ew_state_result_def validated_def)
qed

section \<open>The state the host hands over and the guest's\<close>

lemma fill_state_same:
  assumes "state_inv S st"
  shows "contents (fill_state (base S) st) = contents st" and "state_inv S (fill_state (base S) st)"
proof -
  have get: "hm_get (storage_tries (fill_state (base S) st)) k =
      map_option (hash_fill (base S)) (hm_get (storage_tries st) k)" for k
    by (simp add: fill_state_def map_of_map)
  have inv: "trie_inv 64 (state_trie st)" "coherent (base S) (state_trie st)"
    "\<And>k t. hm_get (storage_tries st) k = Some t \<Longrightarrow> trie_inv 64 t \<and> coherent (base S) t"
    using assms by (auto simp: state_inv_def)
  have tr: "state_trie (fill_state (base S) st) = hash_fill (base S) (state_trie st)"
    by (simp add: fill_state_def)
  show "contents (fill_state (base S) st) = contents st"
    using hash_fill_effect inv(2,3) by (auto simp: contents_eq get tr option.map_comp intro!: option.map_cong0)
  show "state_inv S (fill_state (base S) st)"
    using hash_fill_effect hash_fill_inv inv by (auto simp: state_inv_def get tr)
qed

lemma update_filled:
  assumes "state_inv S st" and "post_wf S ps" and "update S ps st = Ok st'"
  obtains u where "update S ps (fill_state (base S) st) = Ok u" "state_root (base S) u = state_root (base S) st'"
proof -
  let ?f = "fill_state (base S) st"
  note f = fill_state_same [OF assms(1)]
  have "map_res contents (update S ps st) = map_res contents (update S ps ?f)"
    using update_order_irrelevant [OF assms(1) f(2) f(1) [symmetric] assms(2,2)] by (simp add: same_post_def)
  then obtain u where u: "update S ps ?f = Ok u" "contents st' = contents u"
    using assms(3) by (cases "update S ps ?f") auto
  have inv: "state_inv S t'" if "state_inv S t" and "update S ps t = Ok t'" for t t'
  proof -
    have "update_resolved S ps t" using update_unresolved [OF that(1) assms(2)] that(2) by fastforce
    then show ?thesis using update_correct [OF that(1) assms(2)] that(2) by (metis res.inject(1) updated_def)
  qed
  show thesis
    using that [OF u(1)] contents_state_root [OF inv [OF f(2) u(1)] inv [OF assms(1,3)]] u(2) by simp
qed

definition guest_of :: "('v, 'cfg) host_executor \<Rightarrow> ('v, 'cfg) client_executor" where
  "guest_of self = \<lparr>ce_evm_config = he_evm_config self, ce_chain_spec = he_chain_spec self\<rparr>"

end
