(* ===== verification/Forged_Witness.thy ===== *)
theory Forged_Witness
  imports Host_Executor
begin

text \<open>
  What the checks of the guest do not rule out. The tries of a guest input are deserialised as
  they are: nothing looks at the kind of the nodes or at which storage tries are present. Two
  changes of a witness that \<open>WitnessInput::witness_db\<close> accepts and that change what the block
  execution reads or writes, without any collision of the hash:
  \<^item> an extension node whose child is referred to by its digest is encoded exactly like a leaf
    that has this digest as its value, so a whole storage can be hidden behind a leaf;
  \<^item> a storage trie that is left out is taken as empty by \<open>EthereumState::update\<close>.
\<close>

section \<open>A leaf in the place of an extension\<close>

lemma hash_uncached: "hash X (node_of d) = (case d of Null \<Rightarrow> EMPTY_ROOT | _ \<Rightarrow>
    (case calc_reference X (map_node_data (reference X) d) of
       RefDigest digest \<Rightarrow> digest | RefBytes bs \<Rightarrow> keccak X bs))"
  by (simp add: hash_def node_of_def split: node_data.split)

lemma leaf_encoded_as_extension:
  assumes "length_laws X" and "rlp_laws X"
  shows "encode_refs X (Leaf p (b256_slice h)) = encode_refs X (Extension p (RefDigest h))"
proof -
  have "slice_encode X (b256_slice h) = (empty_string_code X + 32) # b256_slice h"
    using rlp_lawsD(3) [OF assms(2)] by simp
  moreover from this have "slice_length X (b256_slice h) = 33"
    using assms(1) by (metis length_laws_def length_Cons length_b256_slice numeral_eq_Suc pred_numeral_simps(3) BitM.simps(1))
  ultimately show ?thesis by simp
qed

lemma leaf_hash:
  assumes "length_laws X" and "rlp_laws X" and "reference X child = RefDigest h"
  shows "hash X (node_of (Leaf p (b256_slice h))) = hash X (node_of (Extension p child))"
  using leaf_encoded_as_extension [OF assms(1,2), of p h] assms(3)
  by (simp add: hash_uncached calc_reference_def Let_def)

lemma leaf_answers:
  "prefix_nibs p = Some ns \<Longrightarrow> to_nibs key \<noteq> ns \<Longrightarrow> get (node_of (Leaf p v)) key = Ok None"
  by (auto simp: get_def node_of_def)

lemma storage_roots_replaced:
  assumes "state_checked S anchor st" and "hm_get (storage_tries st) k = Some t" and "hash (base S) u = hash (base S) t"
  shows "state_checked S anchor (st\<lparr>storage_tries := hm_insert k u (storage_tries st)\<rparr>)"
proof -
  have old: "storage_root_of S st k' = Ok (hash (base S) t')" if "(k', t') \<in> set (storage_tries st)" for k' t'
    using assms(1) that by (auto simp: state_checked_def)
  have sub: "set (hm_insert k u m) \<subseteq> Set.insert (k, u) (set m)" for m :: "(b256, mpt) hashmap"
    by (induction m) auto
  have "storage_root_of S st k' = Ok (hash (base S) t')"
    if "(k', t') \<in> set (hm_insert k u (storage_tries st))" for k' t'
    using that sub old map_of_SomeD [OF assms(2)] assms(3) by fastforce
  then show ?thesis
    using assms(1) by (auto simp: state_checked_def state_root_def storage_root_of_def)
qed

lemma forged_storage:
  assumes "length_laws (base S)" and "rlp_laws (base S)"
    and "witness_db S H st anchor codes headers = Ok db"
    and "hm_get (storage_tries st) k = Some (node_of (Extension p child))"
    and "reference (base S) child = RefDigest h" and "prefix_nibs p = Some ns" and "length ns < 64"
  shows "\<exists>db'. witness_db S H (st\<lparr>storage_tries := hm_insert k (node_of (Leaf p (b256_slice h))) (storage_tries st)\<rparr>)
      anchor codes headers = Ok db' \<and>
    (\<forall>a. td_basic S db' a = (td_basic S db a :: (string, _) res)) \<and>
    (\<forall>a i. hashed_address (base S) a = k \<longrightarrow> td_storage S db' a i = (Ok 0 :: (string, _) res))"
proof -
  let ?leaf = "node_of (Leaf p (b256_slice h))"
  let ?st = "st\<lparr>storage_tries := hm_insert k ?leaf (storage_tries st)\<rparr>"
  have c: "state_checked S anchor st" "linked headers"
    using witness_db_accepts [of S H st anchor codes headers] assms(3) by blast+
  have "state_checked S anchor ?st"
    using storage_roots_replaced [OF c(1) assms(4) leaf_hash [OF assms(1,2,5)]] .
  then obtain db' where db': "witness_db S H ?st anchor codes headers = Ok db'"
    using witness_db_accepts c(2) by blast
  have "td_storage S db' a i = (Ok 0 :: (string, _) res)" if "hashed_address (base S) a = k" for a i
  proof -
    have "hm_get (storage_tries (td_inner db')) k = Some (hash_fill (base S) ?leaf)"
      using witness_db_sound [OF db'] by (simp add: db_sound_def fill_state_def map_of_map)
    moreover have "to_nibs (b256_slice (hashed_slot (base S) i)) \<noteq> ns"
      using assms(7) by (auto dest: arg_cong [of _ _ length])
    then have "get ?leaf (b256_slice (hashed_slot (base S) i)) = Ok None"
      using leaf_answers assms(6) by blast
    moreover have "coherent (base S) ?leaf" by (simp add: node_of_def)
    ultimately show ?thesis
      using that by (simp add: td_storage_def get_rlp_def get_hash_fill value_or_zero_def)
  qed
  moreover have "td_basic S db' a = (td_basic S db a :: (string, _) res)" for a
    using witness_db_sound [OF db'] witness_db_sound [OF assms(3)]
    by (simp add: td_basic_def db_sound_def fill_state_def)
  ultimately show ?thesis using db' by blast
qed

section \<open>A storage trie left out\<close>

definition without_storage :: "b256 \<Rightarrow> ethereum_state \<Rightarrow> ethereum_state" where
  "without_storage k st = st\<lparr>storage_tries := AList.delete k (storage_tries st)\<rparr>"

lemma without_storage_get:
  "hm_get (storage_tries (without_storage k st)) k' = (if k' = k then None else hm_get (storage_tries st) k')"
  by (simp add: without_storage_def delete_conv)

lemma without_storage_accepted:
  assumes "witness_db S H st anchor codes headers = Ok db"
  shows "\<exists>db'. witness_db S H (without_storage k st) anchor codes headers = Ok db'"
proof -
  have "state_checked S anchor st" "linked headers"
    using witness_db_accepts [of S H st anchor codes headers] assms by blast+
  then show ?thesis
    unfolding witness_db_accepts
    by (auto simp: state_checked_def without_storage_def state_root_def storage_root_of_def AList.delete_eq)
qed

lemma without_storage_db:
  assumes "witness_db S H st anchor codes headers = Ok db"
  shows "witness_db S H (without_storage k st) anchor codes headers =
    Ok (db\<lparr>td_inner := fill_state (base S) (without_storage k st)\<rparr>)"
proof -
  obtain db' where "witness_db S H (without_storage k st) anchor codes headers = Ok db'"
    using without_storage_accepted [OF assms] by blast
  then show ?thesis using assms by (auto simp: witness_db_def res_bind_eq_Ok split: if_splits)
qed

text \<open>The storage root an update writes for an account of whose storage nothing changes.\<close>

lemma untouched_storage_root:
  assumes "state_inv S st" and "post_wf S ps" and "update_resolved S ps st"
    and "hm_get (hp_accounts ps) k = Some (Some a)" and "storage_of S ps k = \<lparr>hs_wiped = False, hs_storage = []\<rparr>"
  shows "\<exists>st'. update S ps st = Ok st' \<and> get (state_trie st') (b256_slice k) =
    Ok (Some (account_encode S (state_account S a (hash (base S) (storage_trie_of (storage_tries st) k)))))"
proof -
  let ?m = "storage_tries st"
  obtain st' where st': "update S ps st = Ok st'"
    "\<And>k. get (state_trie st') (b256_slice k) = account_after S ps st st' k"
    using update_correct [OF assms(1-3)] unfolding updated_def by metis
  have wf: "hm_wf (hp_accounts ps)" using assms(2) by (simp add: post_wf_def)
  have "storages_ok S ps ?m (hp_accounts ps)"
    using assms(3) by (subst storages_ok_iff [OF assms(1,2)]) (auto simp: update_resolved_def)
  from update_fold [OF wf refl this] have "storage_tries st' = storages_fold S ps ?m (hp_accounts ps) ?m"
    using st'(1) by (auto simp: update_def res_ok_simps)
  moreover have "storage_after S ps ?m k = Ok (storage_trie_of ?m k)"
    by (simp add: storage_after_def update_storage_def assms(5))
  ultimately have "hm_get (storage_tries st') k = Some (hash_fill (base S) (storage_trie_of ?m k))"
    using assms(4) by (simp add: hm_get_storages_fold [OF wf])
  then have "storage_trie_of (storage_tries st') k = hash_fill (base S) (storage_trie_of ?m k)"
    by (simp add: storage_trie_of_def)
  then show ?thesis using st' by (simp add: account_after_def assms(4) hash_hash_fill)
qed

lemma without_storage_inv: "state_inv S st \<Longrightarrow> state_inv S (without_storage k st)"
  unfolding state_inv_def without_storage_get by (simp add: without_storage_def)

lemma without_storage_resolved:
  assumes "update_resolved S ps st" and "storage_of S ps k = \<lparr>hs_wiped = False, hs_storage = []\<rparr>"
  shows "update_resolved S ps (without_storage k st)"
proof -
  have "slots_resolved (storage_of S ps k') (storage_trie_of (storage_tries (without_storage k st)) k')"
    if "slots_resolved (storage_of S ps k') (storage_trie_of (storage_tries st) k')" for k'
    using that assms(2) by (cases "k' = k") (simp_all add: slots_resolved_def storage_trie_of_def without_storage_get)
  then show ?thesis using assms(1) by (auto simp: update_resolved_def without_storage_def)
qed

text \<open>
  The guest's update, on the database \<open>witness_db\<close> returns, writes the root of the storage trie of
  the witness for such an account: the empty root when the trie was left out.
\<close>

lemma guest_update_untouched:
  assumes "witness_db S H st anchor codes headers = Ok db"
    and "state_inv S st" and "post_wf S ps" and "update_resolved S ps st"
    and "hm_get (hp_accounts ps) k = Some (Some a)" and "storage_of S ps k = \<lparr>hs_wiped = False, hs_storage = []\<rparr>"
  obtains st' where "update S ps (td_inner db) = Ok st'"
    "get (state_trie st') (b256_slice k) =
      Ok (Some (account_encode S (state_account S a (hash (base S) (storage_trie_of (storage_tries st) k)))))"
proof -
  let ?f = "fill_state (base S) st"
  note f = fill_state_same [OF assms(2)]
  have inner: "td_inner db = ?f" using witness_db_sound [OF assms(1)] by (simp add: db_sound_def)
  have "update_resolved S ps ?f"
    by (rule update_resolved_cong [OF assms(4) f(1) [symmetric]]) (simp add: same_post_def)
  from untouched_storage_root [OF f(2) assms(3) this assms(5,6)]
  obtain st' where st': "update S ps ?f = Ok st'" "get (state_trie st') (b256_slice k) =
    Ok (Some (account_encode S (state_account S a (hash (base S) (storage_trie_of (storage_tries ?f) k)))))"
    by blast
  have "hash (base S) (storage_trie_of (storage_tries ?f) k) = hash (base S) (storage_trie_of (storage_tries st) k)"
    using assms(2)
    by (auto simp: storage_trie_of_def fill_state_def map_of_map state_inv_def hash_hash_fill split: option.split)
  then show thesis using that st' inner by simp
qed

end
