(* ===== verification/Soundness_Properties.thy ===== *)
theory Soundness_Properties
  imports Guest_Properties Forged_Witness
begin

text \<open>
  The limits of what the guest checks: witnesses it accepts although a part of the state is hidden
  or left out, and what the committed block hash says about the input it was computed from.
\<close>

section \<open>A hidden storage\<close>

text \<open>
  C4. A witness can hide a storage: in a witness that \<open>witness_db\<close> accepts, replace a storage trie
  that is an extension over a child referred to by its digest by a leaf with the same path and with
  the digest as its value. The witness is still accepted, without any collision of the hash; the
  accounts read as before, and every slot of the storage reads zero. (The nodes are deserialised,
  not decoded, and no check compares the kind of a node with the flag in its path.)
\<close>

theorem forged_storage_accepted:
  assumes "length_laws (base S)" and "rlp_laws (base S)"
    and "witness_db S H st anchor codes headers = Ok db"
    and "hm_get (storage_tries st) k = Some (node_of (Extension p child))"
    and "reference (base S) child = RefDigest h" and "prefix_nibs p = Some ns" and "length ns < 64"
  shows "\<exists>db'. witness_db S H (st\<lparr>storage_tries := hm_insert k (node_of (Leaf p (b256_slice h))) (storage_tries st)\<rparr>)
      anchor codes headers = Ok db' \<and>
    (\<forall>a. td_basic S db' a = (td_basic S db a :: (string, _) res)) \<and>
    (\<forall>a i. hashed_address (base S) a = k \<longrightarrow> td_storage S db' a i = (Ok 0 :: (string, _) res))"
  by (rule forged_storage [OF assms])

text \<open>A storage whose slots, 16 of them, lie below one extension node, and a state with it.\<close>

definition ex_slot_nibs :: "u8 list" where
  "ex_slot_nibs = to_nibs (b256_slice (hashed_slot example_ext 7))"

definition ex_deep_child :: mpt where
  "ex_deep_child = node_of (Branch (replicate 16 (Some (node_of (Leaf (to_encoded_path [] True) (b256_slice 5))))))"

definition ex_deep :: mpt where
  "ex_deep = node_of (Extension (to_encoded_path (take 63 ex_slot_nibs) False) ex_deep_child)"

definition ex_deep_state :: ethereum_state where
  "ex_deep_state = \<lparr>state_trie = node_of (Leaf (to_encoded_path (to_nibs (b256_slice 5121)) True)
       (example_account_encode (ex_holder\<lparr>ta_storage_root := hash example_ext ex_deep\<rparr>))),
     storage_tries = [(5121, ex_deep)]\<rparr>"

lemma ex_slot_split:
  obtains n where "ex_slot_nibs = take 63 ex_slot_nibs @ [n]" "n < 16"
proof -
  have len: "length ex_slot_nibs = 64" by (simp add: ex_slot_nibs_def)
  then have "drop 63 ex_slot_nibs = [ex_slot_nibs ! 63]"
    using Cons_nth_drop_Suc [of 63 ex_slot_nibs] by simp
  then have "ex_slot_nibs = take 63 ex_slot_nibs @ [ex_slot_nibs ! 63]"
    using append_take_drop_id [of 63 ex_slot_nibs] by simp
  moreover have "ex_slot_nibs ! 63 < 16" using len by (intro nibbles_nth) (simp_all add: ex_slot_nibs_def)
  ultimately show thesis by (rule that)
qed

lemma ex_deep_path: "prefix_nibs (to_encoded_path (take 63 ex_slot_nibs) False) = Some (take 63 ex_slot_nibs)"
  by (rule hp.dec_enc) (simp add: ex_slot_nibs_def)

lemma ex_deep_ref: obtains h where "reference example_ext ex_deep_child = RefDigest h"
proof -
  let ?leaf = "MptNode (Leaf (to_encoded_path [] True) (b256_slice 5)) None"
  have "length (encode_refs example_ext (Leaf (to_encoded_path [] True) (b256_slice 5))) \<ge> 32"
    by (simp add: w_slice_def w_prefix_def)
  then obtain d where d: "reference example_ext ?leaf = RefDigest d"
    by (auto simp: calc_reference_def Let_def simp del: encode_refs.simps)
  let ?refs = "Branch (replicate 16 (Some (RefDigest d)))"
  have "length (encode_refs example_ext ?refs) \<ge> payload_length example_ext ?refs"
    unfolding length_encode_refs [OF example_length_laws] by simp
  moreover have "payload_length example_ext ?refs = 529" by (simp add: sum_list_replicate)
  ultimately have "\<not> length (encode_refs example_ext ?refs) < 32" by linarith
  then have "calc_reference example_ext ?refs = RefDigest (keccak example_ext (encode_refs example_ext ?refs))"
    by (simp add: calc_reference_def Let_def del: encode_refs.simps)
  moreover have "reference example_ext ex_deep_child = calc_reference example_ext ?refs"
    using d by (simp add: ex_deep_child_def node_of_def)
  ultimately show thesis using that by metis
qed

lemma ex_deep_get: "get ex_deep (b256_slice (hashed_slot example_ext 7)) = Ok (Some (b256_slice 5))"
proof -
  obtain n where n: "ex_slot_nibs = take 63 ex_slot_nibs @ [n]" "n < 16" by (rule ex_slot_split)
  have "strip_prefix (take 63 ex_slot_nibs) ex_slot_nibs = Some [n]"
    using n(1) by (metis strip_prefix_append)
  moreover have "unat n < 16" using n(2) by (simp add: word_less_nat_alt)
  ultimately show ?thesis
    using hp.dec_enc [of "[]" True]
    by (simp add: get_def ex_slot_nibs_def [symmetric] ex_deep_def node_of_def ex_deep_path ex_deep_child_def)
qed

lemma ex_deep_checked: "state_checked example_state_ext (state_root example_ext ex_deep_state) ex_deep_state"
  by (simp add: state_checked_def ex_deep_state_def storage_root_of_def get_rlp_def get_def node_of_def hp.dec_enc)

theorem forged_storage_accepted_witness:
  "\<exists>st' db db'. witness_db example_state_ext example_header_ext ex_deep_state (state_root example_ext ex_deep_state) [] [] = Ok db \<and>
    td_storage example_state_ext db 1 7 = (Ok 5 :: (string, _) res) \<and>
    witness_db example_state_ext example_header_ext st' (state_root example_ext ex_deep_state) [] [] = Ok db' \<and>
    td_storage example_state_ext db' 1 7 = (Ok 0 :: (string, _) res)"
proof -
  obtain h where h: "reference example_ext ex_deep_child = RefDigest h" by (rule ex_deep_ref)
  obtain db where db: "witness_db example_state_ext example_header_ext ex_deep_state (state_root example_ext ex_deep_state) [] [] = Ok db"
    using witness_db_accepts ex_deep_checked by force
  have "hm_get (storage_tries (td_inner db)) 5121 = Some (hash_fill example_ext ex_deep)"
    using witness_db_sound [OF db] by (simp add: db_sound_def fill_state_def ex_deep_state_def)
  moreover have "coherent example_ext ex_deep" by (simp add: ex_deep_def ex_deep_child_def node_of_def)
  ultimately have "td_storage example_state_ext db 1 7 = (Ok 5 :: (string, _) res)"
    by (simp add: td_storage_def ex_hashed_address get_rlp_def get_hash_fill ex_deep_get value_or_zero_def example_state_ext_def)
  moreover have "\<exists>db'. witness_db example_state_ext example_header_ext (ex_deep_state\<lparr>storage_tries :=
      hm_insert 5121 (node_of (Leaf (to_encoded_path (take 63 ex_slot_nibs) False) (b256_slice h)))
        (storage_tries ex_deep_state)\<rparr>) (state_root example_ext ex_deep_state) [] [] = Ok db' \<and>
    (\<forall>a. td_basic example_state_ext db' a = (td_basic example_state_ext db a :: (string, _) res)) \<and>
    (\<forall>a i. hashed_address (base example_state_ext) a = 5121 \<longrightarrow>
      td_storage example_state_ext db' a i = (Ok 0 :: (string, _) res))"
    by (rule forged_storage_accepted [OF _ _ db, of _ _ ex_deep_child _ "take 63 ex_slot_nibs"])
      (simp_all add: example_laws ex_deep_path h, simp add: ex_deep_state_def ex_deep_def)
  ultimately show ?thesis using db ex_hashed_address by (simp only: example_state_sel) blast
qed

section \<open>A storage left out\<close>

text \<open>
  C5. A witness can erase a storage. Take an input whose database \<open>witness_db\<close> accepts, and a storage trie
  \<open>t\<close> of its state, and leave this trie out of the input. The input is still accepted. Suppose the rest of the
  guest's checks pass for it, and that executing the block on it changes the account but no slot of it
  (the input holding the nodes that the update needs). The update then writes the empty root as the storage root of the account, where it writes the
  hash of \<open>t\<close> when the trie is present; and \<open>verify_block\<close> returns, with the hash of the block, the
  resulting state root and the parent state root, when the header of the block has that state root.
\<close>

theorem omitted_storage_resets:
  assumes "deserialize_input G bytes = Some (input\<lparr>parent_state := without_storage k (parent_state input)\<rparr>)"
    and "input_witness_db S H input (sealed_headers H input) = Ok db"
    and "hm_get (storage_tries (parent_state input)) k = Some t" and "state_inv S (parent_state input)"
    and "chain_spec_of_genesis C (input_genesis input) = Ok spec" and "chain_id_of_genesis (input_genesis input) = Ok chain_id"
    and "recover_senders G (current_block input) = Some senders"
    and "validate_block K H \<lparr>rb_block = current_block input, rb_senders = senders\<rparr> spec = Ok ()"
    and "validate_chain K spec (sealed_headers H input) = Ok ()"
    and "execute_block G (new_block_executor (new_with_evm_factory G spec (custom_beneficiary input))
        (wrap_trie_db S (db\<lparr>td_inner := fill_state (base S) (without_storage k (parent_state input))\<rparr>))
        (opcode_tracking input) chain_id)
      \<lparr>rb_block = current_block input, rb_senders = senders\<rparr> = Ok out"
    and "validate_block_post_execution K \<lparr>rb_block = current_block input, rb_senders = senders\<rparr> spec out
      (is_goat_testnet chain_id) = Ok ()"
    and "ps = hash_state_slow G (outcome_of (bl_header (current_block input)) out)"
    and "post_wf S ps" and "update_resolved S ps (parent_state input)"
    and "hm_get (hp_accounts ps) k = Some (Some a)" and "storage_of S ps k = \<lparr>hs_wiped = False, hs_storage = []\<rparr>"
  shows "\<exists>st1 st2. update S ps (td_inner db) = Ok st1 \<and>
    get (state_trie st1) (b256_slice k) = Ok (Some (account_encode S (state_account S a (hash (base S) t)))) \<and>
    update S ps (fill_state (base S) (without_storage k (parent_state input))) = Ok st2 \<and>
    get (state_trie st2) (b256_slice k) = Ok (Some (account_encode S (state_account S a EMPTY_ROOT))) \<and>
    (hd_state_root (bl_header (current_block input)) = state_root (base S) st2 \<longrightarrow>
      verify_block S H K C G bytes = Ok (hash_slow H (bl_header (current_block input)), state_root (base S) st2,
        hd_state_root (hd (ancestor_headers input))))"
proof -
  let ?st = "parent_state input" and ?input = "input\<lparr>parent_state := without_storage k (parent_state input)\<rparr>"
  let ?db = "db\<lparr>td_inner := fill_state (base S) (without_storage k ?st)\<rparr>"
  obtain parent rest where anc: "ancestor_headers input = parent # rest"
    "witness_db S H ?st (hd_state_root parent) (input_bytecodes input) (sealed_headers H input) = Ok db"
    using assms(2) by (auto simp: input_witness_db_def state_anchor_def parent_header_def res_ok_simps split: list.splits)
  have db': "witness_db S H (without_storage k ?st) (hd_state_root parent) (input_bytecodes input) (sealed_headers H input) = Ok ?db"
    by (rule without_storage_db [OF anc(2)])
  obtain st1 where st1: "update S ps (td_inner db) = Ok st1" "get (state_trie st1) (b256_slice k) =
    Ok (Some (account_encode S (state_account S a (hash (base S) (storage_trie_of (storage_tries ?st) k)))))"
    by (rule guest_update_untouched [OF anc(2) assms(4,13-16)])
  obtain st2 where st2: "update S ps (td_inner ?db) = Ok st2" "get (state_trie st2) (b256_slice k) =
    Ok (Some (account_encode S (state_account S a (hash (base S) (storage_trie_of (storage_tries (without_storage k ?st)) k)))))"
    by (rule guest_update_untouched [OF db' without_storage_inv assms(13) without_storage_resolved assms(15,16)])
      (use assms in simp_all)
  have sealed: "sealed_headers H ?input = sealed_headers H input" by (simp add: sealed_headers_def)
  have "client_execute S H K G (eth G spec (custom_beneficiary input)) ?input =
      Ok (bl_header (current_block input), state_root (base S) (td_inner ?db))"
    if "hd_state_root (bl_header (current_block input)) = state_root (base S) st2"
  proof -
    have "client_execute S H K G (eth G spec (custom_beneficiary input)) ?input =
        Ok (bl_header (current_block ?input), state_root (base S) (td_inner ?db))"
      by (rule client_execute_accepts [where out = out and st = st2])
        (use assms(6-12) st2(1) that db' anc(1) sealed in
          \<open>simp_all add: eth_def input_witness_db_def state_anchor_def parent_header_def\<close>)
    then show ?thesis by simp
  qed
  moreover have "state_root (base S) (td_inner ?db) = hd_state_root parent"
    using witness_db_sound [OF db'] by (simp add: db_sound_def state_checked_def state_root_fill)
  ultimately have "verify_block S H K C G bytes =
      Ok (hash_slow H (bl_header (current_block input)), state_root (base S) st2, hd_state_root parent)"
    if "hd_state_root (bl_header (current_block input)) = state_root (base S) st2"
    using that assms(1,5) by (simp add: verify_block_def)
  then show ?thesis
    using st1 st2 assms(3) anc(1) by (simp add: storage_trie_of_def without_storage_get hash_default)
qed

lemma occupied_replicate: "length (occupied n (replicate m (Some x))) = m"
  by (induction m arbitrary: n) simp_all

lemma ex_deep_inv: "state_inv S ex_deep_state"
proof -
  have "nibbles (take 63 ex_slot_nibs)" "length (take 63 ex_slot_nibs) = 63"
    by (simp_all add: ex_slot_nibs_def)
  moreover from this(2) have "take 63 ex_slot_nibs \<noteq> []" by fastforce
  ultimately show ?thesis
    using ex_deep_path hp.dec_enc [of "[]" True] hp.dec_enc [of "to_nibs (b256_slice 5121)" True]
    by (simp add: state_inv_def ex_deep_state_def ex_deep_def ex_deep_child_def trie_inv_def wf_trie_def node_of_def
        occupied_replicate list_all_iff)
qed

definition ex_touch :: hashed_post_state where
  "ex_touch = \<lparr>hp_accounts = [(5121, Some ex_account)], hp_storages = []\<rparr>"

text \<open>
  The block of the example changes the nonce and the balance of the account; its header has the
  state root that results when the storage is left out of the input.
\<close>

definition ex_reset_root :: b256 where
  "ex_reset_root = (case update example_state_ext ex_touch (fill_state example_ext (without_storage 5121 ex_deep_state)) of
     Ok st \<Rightarrow> state_root example_ext st | _ \<Rightarrow> 0)"

definition ex_reset_input :: "unit client_input" where
  "ex_reset_input = \<lparr>current_block = \<lparr>bl_header = ex_header 2 2 ex_reset_root, bl_body = ()\<rparr>,
     ancestor_headers = [ex_header 1 0 (state_root example_ext ex_deep_state)], parent_state = ex_deep_state,
     input_bytecodes = [], input_genesis = Mainnet, custom_beneficiary = None, opcode_tracking = False\<rparr>"

definition ex_reset_guest :: "(unit, unit, unit, unit, unit, unit) guest_ext" where
  "ex_reset_guest = example_guest\<lparr>hash_state_slow := \<lambda>_. ex_touch,
     deserialize_input := \<lambda>_. Some (ex_reset_input\<lparr>parent_state := without_storage 5121 ex_deep_state\<rparr>)\<rparr>"

lemma ex_touch_facts: "post_wf example_state_ext ex_touch" "hm_get (hp_accounts ex_touch) 5121 = Some (Some ex_account)"
  "storage_of example_state_ext ex_touch 5121 = \<lparr>hs_wiped = False, hs_storage = []\<rparr>"
  "update_resolved example_state_ext ex_touch ex_deep_state"
  by (simp_all add: post_wf_def ex_touch_def storage_of_def ex_deep_state_def update_resolved_def get_def node_of_def
    hp.dec_enc slots_resolved_def)

theorem omitted_storage_resets_witness:
  "\<exists>root st2. verify_block example_state_ext example_header_ext example_consensus example_chain ex_reset_guest [] =
      Ok (3, root, state_root example_ext ex_deep_state) \<and> root = state_root example_ext st2 \<and>
    get (state_trie st2) (b256_slice 5121) =
      Ok (Some (example_account_encode (state_account example_state_ext ex_account EMPTY_ROOT)))"
proof -
  have linked: "linked (sealed_headers example_header_ext ex_reset_input)"
    by (simp add: sealed_headers_def ex_reset_input_def)
  then obtain db where db: "input_witness_db example_state_ext example_header_ext ex_reset_input
      (sealed_headers example_header_ext ex_reset_input) = (Ok db :: (client_error, _) res)"
    using witness_db_accepts ex_deep_checked
    by (fastforce simp: input_witness_db_def state_anchor_def parent_header_def ex_reset_input_def)
  have sel: "parent_state ex_reset_input = ex_deep_state" by (simp add: ex_reset_input_def)
  let ?out = "\<lparr>eo_state = (), eo_result = \<lparr>er_receipts = [] :: unit list, er_requests = ()\<rparr>\<rparr>"
  let ?block = "\<lparr>rb_block = current_block ex_reset_input, rb_senders = []\<rparr>"
  obtain spec where spec: "chain_spec_of_genesis example_chain (input_genesis ex_reset_input) = Ok spec"
    by (simp add: ex_reset_input_def)
  have input: "deserialize_input ex_reset_guest [] =
      Some (ex_reset_input\<lparr>parent_state := without_storage 5121 (parent_state ex_reset_input)\<rparr>)"
    "hm_get (storage_tries (parent_state ex_reset_input)) 5121 = Some ex_deep"
    "state_inv example_state_ext (parent_state ex_reset_input)"
    "chain_id_of_genesis (input_genesis ex_reset_input) = Ok 1"
    "recover_senders ex_reset_guest (current_block ex_reset_input) = Some []"
    using ex_deep_inv by (simp_all add: sel ex_reset_guest_def example_guest_def)
      (simp_all add: ex_deep_state_def ex_reset_input_def)
  have checks: "validate_block example_consensus example_header_ext ?block spec = Ok ()"
    "validate_chain example_consensus spec (sealed_headers example_header_ext ex_reset_input) = Ok ()"
    by (simp_all add: validate_block_def validate_header_def example_consensus_def handle_custom_chains_def
        validate_chain_def sealed_headers_def ex_reset_input_def validate_pair_def validate_header_against_parent_def)
  have ran: "execute_block ex_reset_guest (new_block_executor (new_with_evm_factory ex_reset_guest spec (custom_beneficiary ex_reset_input))
        (wrap_trie_db example_state_ext (db\<lparr>td_inner := fill_state (base example_state_ext)
          (without_storage 5121 (parent_state ex_reset_input))\<rparr>)) (opcode_tracking ex_reset_input) 1) ?block = Ok ?out"
    "validate_block_post_execution example_consensus ?block spec ?out (is_goat_testnet 1) = Ok ()"
    "ex_touch = hash_state_slow ex_reset_guest (outcome_of (bl_header (current_block ex_reset_input)) ?out)"
    by (simp_all add: ex_reset_input_def ex_reset_guest_def example_guest_def new_block_executor_def
        validate_block_post_execution_def example_consensus_def)
  obtain st2 where r: "update example_state_ext ex_touch (fill_state example_ext (without_storage 5121 ex_deep_state)) = Ok st2"
    "get (state_trie st2) (b256_slice 5121) =
      Ok (Some (example_account_encode (state_account example_state_ext ex_account EMPTY_ROOT)))"
    "hd_state_root (bl_header (current_block ex_reset_input)) = state_root example_ext st2 \<Longrightarrow>
      verify_block example_state_ext example_header_ext example_consensus example_chain ex_reset_guest [] =
        Ok (hash_slow example_header_ext (bl_header (current_block ex_reset_input)), state_root example_ext st2,
          hd_state_root (hd (ancestor_headers ex_reset_input)))"
    using omitted_storage_resets [OF input(1) db input(2,3) spec input(4,5) checks ran ex_touch_facts(1)
        ex_touch_facts(4) [folded sel] ex_touch_facts(2,3)]
    unfolding example_state_sel sel by blast
  have "ex_reset_root = state_root example_ext st2" using r(1) by (simp add: ex_reset_root_def)
  then have "verify_block example_state_ext example_header_ext example_consensus example_chain ex_reset_guest [] =
      Ok (3, state_root example_ext st2, state_root example_ext ex_deep_state)"
    using r(3) by (simp add: ex_reset_input_def)
  then show ?thesis using r(2) by blast
qed

section \<open>What the committed hash binds\<close>

text \<open>
  C3. The committed block hash binds what the guest worked on: two runs of \<open>verify_block\<close> that
  commit the same hash had the same block header, the same state roots before and after the
  block, and the same ancestor headers as far as both inputs reach, unless two of the headers of
  their inputs have the same hash.
\<close>

theorem verified_hash_binds:
  assumes "seal_laws H"
    and "verify_block S H K C G bytes = Ok (block_hash, root, prev)" and "deserialize_input G bytes = Some input"
    and "verify_block S H K C G bytes' = Ok (block_hash, root', prev')" and "deserialize_input G bytes' = Some input'"
    and "inj_on (hash_slow H) (set (bl_header (current_block input) # ancestor_headers input) \<union>
      set (bl_header (current_block input') # ancestor_headers input'))"
  shows "bl_header (current_block input) = bl_header (current_block input') \<and> root = root' \<and> prev = prev' \<and>
    (i < length (ancestor_headers input) \<longrightarrow> i < length (ancestor_headers input') \<longrightarrow>
      ancestor_headers input ! i = ancestor_headers input' ! i)"
proof -
  let ?hs = "sealed_headers H input" and ?hs' = "sealed_headers H input'"
  note v = verify_block_ok [OF assms(1,2)] verify_block_ok [OF assms(1,4)]
  have linked: "linked ?hs" "linked ?hs'" using v assms(3,5) by (auto simp: db_sound_def)
  have seal: "sh_header (seal_slow H h) = h" "sh_hash (seal_slow H h) = hash_slow H h" for h
    using assms(1) by (simp_all add: seal_laws_def)
  have hash: "hash_slow H (bl_header (current_block input)) = hash_slow H (bl_header (current_block input'))"
    using v assms(3,5) by auto
  have same: "?hs ! j = ?hs' ! j" if "j < length ?hs" "j < length ?hs'" for j
  proof (rule linked_determined [OF linked _ _ _ that, of "seal_slow H"])
    show "h = seal_slow H (sh_header h)" if "h \<in> set ?hs \<union> set ?hs'" for h
      using that by (auto simp: sealed_headers_def seal)
    show "inj_on (\<lambda>h. sh_hash (seal_slow H h)) (sh_header ` (set ?hs \<union> set ?hs'))"
      using assms(6) by (simp add: seal sealed_headers_def image_Un image_image)
    show "sh_hash (?hs ! 0) = sh_hash (?hs' ! 0)" using hash by (simp add: sealed_headers_def seal)
  qed
  have header: "bl_header (current_block input) = bl_header (current_block input')"
    using same [of 0] by (simp add: sealed_headers_def) (metis seal(1))
  have ancestor: "ancestor_headers input ! j = ancestor_headers input' ! j"
    if "j < length (ancestor_headers input)" "j < length (ancestor_headers input')" for j
    using same [of "Suc j"] that by (simp add: sealed_headers_def) (metis seal(1))
  have "prev = prev'" using v assms(3,5) ancestor [of 0] by auto
  moreover have "root = root'" using v assms(3,5) header by auto
  ultimately show ?thesis using header ancestor by blast
qed

theorem verified_hash_binds_witness:
  "\<exists>root root'. verify_block example_state_ext example_header_ext example_consensus example_chain
      (ex_guest_for (\<lambda>bytes. case bytes of [] \<Rightarrow> None | _ \<Rightarrow> Some 9)) [] = Ok (3, root, EMPTY_ROOT) \<and>
    verify_block example_state_ext example_header_ext example_consensus example_chain
      (ex_guest_for (\<lambda>bytes. case bytes of [] \<Rightarrow> None | _ \<Rightarrow> Some 9)) [1] = Ok (3, root', EMPTY_ROOT) \<and> root = root'"
proof -
  let ?G = "ex_guest_for (\<lambda>bytes. case bytes of [] \<Rightarrow> None | _ \<Rightarrow> Some 9)"
  obtain root root' where v:
    "verify_block example_state_ext example_header_ext example_consensus example_chain ?G [] = Ok (3, root, EMPTY_ROOT)"
    "verify_block example_state_ext example_header_ext example_consensus example_chain ?G [1] = Ok (3, root', EMPTY_ROOT)"
    using ex_verify_block_for by metis
  have inputs: "deserialize_input ?G [] = Some (ex_input\<lparr>custom_beneficiary := None\<rparr>)"
    "deserialize_input ?G [1] = Some (ex_input\<lparr>custom_beneficiary := Some 9\<rparr>)"
    by (simp_all add: ex_guest_for_def)
  have "root = root'"
    by (rule verified_hash_binds [OF example_seal_laws v(1) inputs(1) v(2) inputs(2), THEN conjunct2, THEN conjunct1])
      (auto simp: ex_input_def inj_on_def)
  then show ?thesis using v by blast
qed

end
