(* ===== verification/Db_Program.thy ===== *)
theory Db_Program
  imports Client_Executor
begin

text \<open>
  A block executor (\<open>reth_evm\<close>'s \<open>BasicBlockExecutor\<close>, or the opcode tracking executor) is generic in
  its database and deterministic: it reads from the database through the four operations of
  \<open>DatabaseRef\<close> only, and what it does next depends on nothing but the answers. So, for one
  configuration, chain and block, it is a program of reads, run against a database by handing it
  the answers; a read that fails or panics ends the run.
\<close>

section \<open>Programs of reads\<close>

datatype 'o db_program =
    Finish "(string, 'o) res"
  | ReadAccount address "account_info option \<Rightarrow> 'o db_program"
  | ReadCode b256 "bytes \<Rightarrow> 'o db_program"
  | ReadSlot address u256 "u256 \<Rightarrow> 'o db_program"
  | ReadBlockHash u64 "b256 \<Rightarrow> 'o db_program"

primrec run_program :: "database_ref \<Rightarrow> 'o db_program \<Rightarrow> (string, 'o) res" where
  "run_program db (Finish result) = result"
| "run_program db (ReadAccount address next_step) =
     res_bind (dr_basic db address) (\<lambda>answer. run_program db (next_step answer))"
| "run_program db (ReadCode code_hash next_step) =
     res_bind (dr_code_by_hash db code_hash) (\<lambda>answer. run_program db (next_step answer))"
| "run_program db (ReadSlot address index next_step) =
     res_bind (dr_storage db address index) (\<lambda>answer. run_program db (next_step answer))"
| "run_program db (ReadBlockHash number next_step) =
     res_bind (dr_block_hash db number) (\<lambda>answer. run_program db (next_step answer))"

text \<open>The slots a run reads.\<close>

definition after_read :: "(string, 'a) res \<Rightarrow> ('a \<Rightarrow> 'b list) \<Rightarrow> 'b list" where
  "after_read answer rest = (case answer of Ok x \<Rightarrow> rest x | _ \<Rightarrow> [])"

primrec run_slots :: "database_ref \<Rightarrow> 'o db_program \<Rightarrow> (address \<times> u256) list" where
  "run_slots db (Finish result) = []"
| "run_slots db (ReadAccount address next_step) =
     after_read (dr_basic db address) (\<lambda>answer. run_slots db (next_step answer))"
| "run_slots db (ReadCode code_hash next_step) =
     after_read (dr_code_by_hash db code_hash) (\<lambda>answer. run_slots db (next_step answer))"
| "run_slots db (ReadSlot address index next_step) =
     (address, index) # after_read (dr_storage db address index) (\<lambda>answer. run_slots db (next_step answer))"
| "run_slots db (ReadBlockHash number next_step) =
     after_read (dr_block_hash db number) (\<lambda>answer. run_slots db (next_step answer))"

section \<open>One program on two databases\<close>

text \<open>
  The contract between two databases: when \<open>d'\<close> serves for \<open>d\<close>, it answers what \<open>d\<close> answers, slots at
  least for the accounts that \<open>covered d\<close> has.
\<close>

locale answers_too =
  fixes first :: "'d \<Rightarrow> database_ref"
    and second :: "'e \<Rightarrow> database_ref"
    and serves :: "'d \<Rightarrow> 'e \<Rightarrow> bool"
    and covered :: "'d \<Rightarrow> address \<Rightarrow> bool"
  assumes basic_too: "serves d e \<Longrightarrow> dr_basic (first d) a = Ok x \<Longrightarrow> dr_basic (second e) a = Ok x"
    and code_too: "serves d e \<Longrightarrow> dr_code_by_hash (first d) h = Ok c \<Longrightarrow> dr_code_by_hash (second e) h = Ok c"
    and storage_too: "serves d e \<Longrightarrow> dr_storage (first d) a i = Ok v \<Longrightarrow> covered d a \<Longrightarrow> dr_storage (second e) a i = Ok v"
    and block_hash_too: "serves d e \<Longrightarrow> dr_block_hash (first d) n = Ok b \<Longrightarrow> dr_block_hash (second e) n = Ok b"
begin

lemma run_program_too:
  assumes "serves d e"
  shows "run_program (first d) program = Ok out \<Longrightarrow> \<forall>(a, i) \<in> set (run_slots (first d) program). covered d a \<Longrightarrow>
    run_program (second e) program = Ok out"
proof (induction program)
  case (ReadAccount a next_step)
  then obtain x where "dr_basic (first d) a = Ok x" "run_program (first d) (next_step x) = Ok out"
    by (auto simp: res_bind_eq_Ok)
  then show ?case using ReadAccount.IH [of "next_step x"] ReadAccount.prems(2) basic_too [OF assms]
    by (simp add: after_read_def)
next
  case (ReadCode h next_step)
  then obtain x where "dr_code_by_hash (first d) h = Ok x" "run_program (first d) (next_step x) = Ok out"
    by (auto simp: res_bind_eq_Ok)
  then show ?case using ReadCode.IH [of "next_step x"] ReadCode.prems(2) code_too [OF assms]
    by (simp add: after_read_def)
next
  case (ReadSlot a i next_step)
  then obtain x where "dr_storage (first d) a i = Ok x" "run_program (first d) (next_step x) = Ok out"
    by (auto simp: res_bind_eq_Ok)
  then show ?case using ReadSlot.IH [of "next_step x"] ReadSlot.prems(2) storage_too [OF assms]
    by (simp add: after_read_def)
next
  case (ReadBlockHash n next_step)
  then obtain x where "dr_block_hash (first d) n = Ok x" "run_program (first d) (next_step x) = Ok out"
    by (auto simp: res_bind_eq_Ok)
  then show ?case using ReadBlockHash.IH [of "next_step x"] ReadBlockHash.prems(2) block_hash_too [OF assms]
    by (simp add: after_read_def)
qed simp

end

end
