(* ===== verification/Host_Guest.thy ===== *)
theory Host_Guest
  imports Host_Executor Db_Program
begin

text \<open>
  The guest accepts what the host produces from an execution witness: \<open>ExecutionWitnessRpcDb\<close>
  and the guest's \<open>TrieDB\<close> of the input built from it answer alike, so the block executor, one
  program of reads for both, runs alike on both, provided that it reads slots only of accounts
  whose storage the witness has.
\<close>

section \<open>The host's database as the executor sees it\<close>

text \<open>\<open>CacheDB\<close> and \<open>State\<close> in between only repeat answers.\<close>

definition wrap_witness_db ::
  "(provider_error \<Rightarrow> string) \<Rightarrow> state_ext \<Rightarrow> header_ext \<Rightarrow> witness_rpc_db \<Rightarrow> database_ref" where
  "wrap_witness_db display S H db = \<lparr>dr_basic = (\<lambda>a. map_err display (ew_basic_ref S db a)),
     dr_code_by_hash = (\<lambda>h. map_err display (ew_code_by_hash_ref db h)),
     dr_storage = (\<lambda>a i. map_err display (ew_storage_ref S db a i)),
     dr_block_hash = (\<lambda>n. map_err display (ew_block_hash_ref H db n))\<rparr>"

text \<open>What is assumed of the block executor: on both sides it runs the same program.\<close>

definition host_runs where
  "host_runs HX read cfg program \<longleftrightarrow> (\<forall>chain_id block db.
     run_block HX cfg (Some chain_id) block db = (run_program (read db) (program chain_id block), db))"

definition guest_runs where
  "guest_runs G cfg tracking program \<longleftrightarrow> (\<forall>chain_id block db.
     execute_block G (new_block_executor cfg db tracking chain_id) block = run_program db (program chain_id block))"

text \<open>
  And of \<open>reth\<close>'s two ways to the hashed post state: \<open>ExecutionOutcome::hash_state_slow\<close> hashes the
  outcome's bundle, as \<open>HashedPostState::from_bundle_state\<close> does.
\<close>

definition hashes_alike where
  "hashes_alike S G HX \<longleftrightarrow> (\<forall>current out. hash_state_slow G (outcome_of current out) = from_bundle_state HX (eo_state out) \<and>
     post_wf S (from_bundle_state HX (eo_state out)))"

text \<open>The hash of a bytecode is that of its bytes.\<close>

definition code_hashes where
  "code_hashes S H codes \<longleftrightarrow> (\<forall>c \<in> set codes. bytecode_hash H c = keccak256 (base S) c)"

text \<open>The slots a run reads belong to accounts with a storage trie.\<close>

definition slots_covered where
  "slots_covered display S H db program \<longleftrightarrow> (\<forall>(a, i) \<in> set (run_slots (wrap_witness_db display S H db) program).
     hm_get (storage_tries (ew_state db)) (hashed_address (base S) a) \<noteq> None)"

section \<open>The two databases answer alike\<close>

lemma codes_alike:
  assumes "ew_codes db = hm_collect (map (\<lambda>e. (keccak256 (base S) e, e)) encoded)"
    and "code_hashes S H (ew_bytecodes db)" and "hm_get (ew_codes db) h = Some c"
  shows "find (\<lambda>c. bytecode_hash H c = h) (rev (ew_bytecodes db)) = Some c"
proof -
  have wf: "hm_wf (ew_codes db)" unfolding assms(1) by (rule hm_wf_collect)
  have entry: "k = keccak256 (base S) e" if "(k, e) \<in> set (ew_codes db)" for k e
  proof -
    have "hm_get (ew_codes db) k = Some e" by (rule map_of_is_SomeI [OF wf that])
    then show ?thesis using map_of_SomeD [of "rev (map (\<lambda>e. (keccak256 (base S) e, e)) encoded)" k e]
      by (auto simp: assms(1) hm_get_collect)
  qed
  have hash: "bytecode_hash H e = keccak256 (base S) e" if "e \<in> set (ew_bytecodes db)" for e
    using assms(2) that by (simp add: code_hashes_def)
  have c: "c \<in> set (ew_bytecodes db)" "keccak256 (base S) c = h"
    using entry map_of_SomeD [OF assms(3)] by (force simp: ew_bytecodes_def)+
  then have "find (\<lambda>c. bytecode_hash H c = h) (rev (ew_bytecodes db)) \<noteq> None"
    using hash by (auto simp: find_None_iff)
  then obtain c' where c': "find (\<lambda>c. bytecode_hash H c = h) (rev (ew_bytecodes db)) = Some c'" by blast
  then have "c' \<in> set (ew_bytecodes db)" "bytecode_hash H c' = h"
    using find_SomeD [of _ "rev (ew_bytecodes db)" c'] by auto
  then obtain k where "(k, c') \<in> set (ew_codes db)" "keccak256 (base S) c' = h"
    using hash by (auto simp: ew_bytecodes_def)
  then have "hm_get (ew_codes db) h = Some c'"
    using entry map_of_is_SomeI [OF wf] by blast
  then show ?thesis using c' assms(3) by simp
qed

lemma block_hashes_alike:
  assumes "seal_laws H" and "ew_ancestor_headers db = hm_collect (map (\<lambda>h. (hd_number h, h)) headers)"
    and "ew_ancestor_header_list db = Ok ancestors" and "hm_get (ew_ancestor_headers db) n = Some header"
  shows "map_of (rev (numbered (map (seal_slow H) ancestors))) n = Some (hash_slow H header)"
proof -
  have seal: "sh_header (seal_slow H h) = h" "sh_hash (seal_slow H h) = hash_slow H h" for h
    using assms(1) by (simp_all add: seal_laws_def)
  have header: "hd_number header = n" "header \<in> set ancestors"
  proof -
    show "hd_number header = n"
      using assms(4) map_of_SomeD [of "rev (map (\<lambda>h. (hd_number h, h)) headers)" n header]
      by (auto simp: assms(2) hm_get_collect)
    show "header \<in> set ancestors"
      using assms(3) map_of_SomeD [OF assms(4)] by (force simp: ew_ancestor_header_list_def)
  qed
  have keys: "map fst (numbered (map (seal_slow H) ancestors)) = map hd_number ancestors"
    by (simp add: numbered_def seal comp_def)
  have "distinct (map hd_number ancestors)"
    using ancestor_list(1) [OF assms(2,3)] by (metis distinct_rev sorted_wrt_rev strict_sorted_iff)
  then have "distinct (map fst (rev (numbered (map (seal_slow H) ancestors))))"
    using keys by (simp add: rev_map [symmetric])
  moreover have "(n, hash_slow H header) \<in> set (numbered (map (seal_slow H) ancestors))"
    using header by (auto simp: numbered_def seal image_iff intro!: bexI [of _ header])
  ultimately show ?thesis by (intro map_of_is_SomeI) simp_all
qed

text \<open>
  The database of the host, and a database the guest accepts for the state, the bytecodes and the
  ancestor headers that the host's database hands over.
\<close>

definition serves_guest :: "state_ext \<Rightarrow> header_ext \<Rightarrow> witness_rpc_db \<Rightarrow> trie_db \<Rightarrow> bool" where
  "serves_guest S H db td \<longleftrightarrow> seal_laws H \<and> code_hashes S H (ew_bytecodes db) \<and>
     (\<exists>(witness :: execution_witness) headers root ancestors current. validated S root (ew_state db) \<and>
       ew_codes db = hm_collect (map (\<lambda>encoded. (keccak256 (base S) encoded, encoded)) (ew_code_list witness)) \<and>
       ew_ancestor_headers db = hm_collect (map (\<lambda>h. (hd_number h, h)) headers) \<and>
       ew_ancestor_header_list db = Ok ancestors \<and>
       db_sound S H (ew_state db) root (ew_bytecodes db) (current # map (seal_slow H) ancestors) td)"

definition has_storage :: "state_ext \<Rightarrow> witness_rpc_db \<Rightarrow> address \<Rightarrow> bool" where
  "has_storage S db address \<longleftrightarrow> hm_get (storage_tries (ew_state db)) (hashed_address (base S) address) \<noteq> None"

lemma serves_guestI:
  assumes "ew_new S N p n root = Ok db" and "ew_ancestor_header_list db = Ok ancestors" and "seal_laws H"
    and "code_hashes S H (ew_bytecodes db)"
    and "db_sound S H (ew_state db) root (ew_bytecodes db) (current # map (seal_slow H) ancestors) td"
  shows "serves_guest S H db td"
  by (rule ew_new_ok [OF assms(1)]) (use assms(2-5) in \<open>unfold serves_guest_def; blast\<close>)

lemma guest_answers:
  assumes "serves_guest S H db td"
  shows "ew_basic_ref S db a = Ok x \<Longrightarrow> td_basic S td a = (Ok x :: (string, _) res)"
    and "ew_code_by_hash_ref db h = Ok c \<Longrightarrow> td_code_by_hash td h = (Ok c :: (string, _) res)"
    and "ew_storage_ref S db a i = Ok v \<Longrightarrow> has_storage S db a \<Longrightarrow> td_storage S td a i = (Ok v :: (string, _) res)"
    and "ew_block_hash_ref H db m = Ok b \<Longrightarrow> td_block_hash td m = (Ok b :: (string, _) res)"
proof -
  obtain witness :: execution_witness and headers root ancestors current where w: "validated S root (ew_state db)"
    "ew_codes db = hm_collect (map (\<lambda>encoded. (keccak256 (base S) encoded, encoded)) (ew_code_list witness))"
    "ew_ancestor_headers db = hm_collect (map (\<lambda>h. (hd_number h, h)) headers)"
    "ew_ancestor_header_list db = Ok ancestors"
    "db_sound S H (ew_state db) root (ew_bytecodes db) (current # map (seal_slow H) ancestors) td"
    and laws: "seal_laws H" "code_hashes S H (ew_bytecodes db)"
    using assms unfolding serves_guest_def by blast
  have td: "td_inner td = fill_state (base S) (ew_state db)"
    "hm_get (td_block_hashes td) = map_of (rev (numbered (map (seal_slow H) ancestors)))"
    "\<And>h. hm_get (td_bytecode_by_hash td) h = find (\<lambda>c. bytecode_hash H c = h) (rev (ew_bytecodes db))"
    using w(5) by (simp_all add: db_sound_def)
  have coh: "coherent (base S) (state_trie (ew_state db))"
    "hm_get (storage_tries (ew_state db)) k = Some t \<Longrightarrow> coherent (base S) t" for k t
    using w(1) by (simp_all add: validated_def sound_node_def)
  show "ew_basic_ref S db a = Ok x \<Longrightarrow> td_basic S td a = (Ok x :: (string, _) res)"
    using td_same_state [OF coh(1) td(1) refl] by simp
  show "ew_code_by_hash_ref db h = Ok c \<Longrightarrow> td_code_by_hash td h = (Ok c :: (string, _) res)"
    using codes_alike [OF w(2) laws(2), of h c]
    by (simp add: ew_code_by_hash_ref_def td_code_by_hash_def ok_or_eq_Ok unwrap_opt_eq_Ok td(3))
  show "ew_storage_ref S db a i = Ok v \<Longrightarrow> has_storage S db a \<Longrightarrow> td_storage S td a i = (Ok v :: (string, _) res)"
    using td_same_storage [OF coh(2) td(1) refl] by (simp add: has_storage_def)
  show "ew_block_hash_ref H db m = Ok b \<Longrightarrow> td_block_hash td m = (Ok b :: (string, _) res)"
    using block_hashes_alike [OF laws(1) w(3,4), of m]
    by (auto simp: ew_block_hash_ref_def td_block_hash_def res_bind_eq_Ok ok_or_eq_Ok unwrap_opt_eq_Ok td(2))
qed

interpretation host_guest: answers_too "wrap_witness_db display S H" "wrap_trie_db S" "serves_guest S H" "has_storage S"
  for display S H
  by unfold_locales (simp_all add: wrap_witness_db_def wrap_trie_db_def map_err_eq_Ok guest_answers)

section \<open>The guest accepts the input\<close>

lemma witness_input_accepted:
  assumes host: "host_execute S H K V G HX (witness_rpc_db_ops S N p) self n genesis beneficiary tracking = Ok input"
    and runs: "host_runs HX (wrap_witness_db display S H) (he_evm_config self) program"
      "guest_runs G (he_evm_config self) tracking program"
    and laws: "hashes_alike S G HX" "seal_laws H" "code_hashes S H (input_bytecodes input)"
    and covered: "\<And>chain_id db senders. chain_id_of_genesis genesis = Ok chain_id \<Longrightarrow>
      ew_new S N p (n - 1) (hd_state_root (rpc_header previous)) = Ok db \<Longrightarrow>
      recover_senders G (current_block input) = Some senders \<Longrightarrow>
      slots_covered display S H db (program chain_id \<lparr>rb_block = current_block input, rb_senders = senders\<rparr>)"
    and st: "state_inv S (parent_state input)"
    and previous: "get_full_block HX (n - 1) = Ok (Some previous)" "ancestor_headers input = rpc_header previous # rest"
    and chain: "linked (sealed_headers H input)" "validate_chain K (he_chain_spec self) (sealed_headers H input) = Ok ()"
  shows "client_execute S H K G (guest_of self) input =
    Ok (bl_header (current_block input), hd_state_root (rpc_header previous))"
proof -
  let ?root = "hd_state_root (rpc_header previous)"
  obtain chain_id block previous' db senders out db' st' where h:
    "chain_id_of_genesis genesis = Ok chain_id"
    "host_ran S H K V G HX (witness_rpc_db_ops S N p) self n chain_id block previous' db senders out db'"
    "current_block input = into_primitive_block V block"
    "ew_state db' = parent_state input" "ew_ancestor_header_list db' = Ok (ancestor_headers input)"
    "ew_bytecodes db' = input_bytecodes input"
    "input_genesis input = genesis" "opcode_tracking input = tracking"
    "update S (from_bundle_state HX (eo_state out)) (parent_state input) = Ok st'"
    "state_root (base S) st' = hd_state_root (rpc_header block)"
    by (rule host_execute_ok [OF host]) (simp add: witness_rpc_db_ops_def ew_state_result_def)
  let ?block = "\<lparr>rb_block = current_block input, rb_senders = senders\<rparr>"
  have ran: "recover_senders G (current_block input) = Some senders"
    "validate_block K H ?block (he_chain_spec self) = Ok ()"
    "run_program (wrap_witness_db display S H db) (program chain_id ?block) = Ok out" "db' = db"
    "validate_block_post_execution K ?block (he_chain_spec self) out (is_goat_testnet chain_id) = Ok ()"
    "previous' = previous" "ew_new S N p (n - 1) (hd_state_root (rpc_header previous')) = Ok db"
    using h(2) runs(1) previous(1)
    by (auto simp: host_ran_def Let_def h(3) host_runs_def witness_rpc_db_ops_def)
  note d = h(4-6) [unfolded ran(4)]
  note new = ran(7) [unfolded ran(6)]
  have "validated S ?root (parent_state input)"
    using witness_rpc.new_used [of S N p "n - 1" ?root db] new d(1) by simp
  then have checked: "state_checked S ?root (parent_state input)" by (rule validated_checked)
  obtain td where td: "witness_db S H (parent_state input) ?root (input_bytecodes input) (sealed_headers H input) = Ok td"
    using witness_db_accepts checked chain(1) by blast
  have inner: "td_inner td = fill_state (base S) (parent_state input)"
    using witness_db_sound [OF td] by (simp add: db_sound_def)
  have idb: "input_witness_db S H input (sealed_headers H input) = Ok td"
    by (simp add: input_witness_db_def state_anchor_def parent_header_def previous(2) td)
  have "serves_guest S H db td"
    by (rule serves_guestI [OF new d(2) laws(2)])
      (use laws(3) witness_db_sound [OF td] in \<open>simp_all add: d sealed_headers_def\<close>)
  then have "run_program (wrap_trie_db S td) (program chain_id ?block) = Ok out"
    by (rule host_guest.run_program_too [OF _ ran(3)])
      (use covered [OF h(1) new ran(1)] in \<open>simp add: slots_covered_def has_storage_def\<close>)
  then have exec: "execute_block G (new_block_executor (he_evm_config self) (wrap_trie_db S td) tracking chain_id) ?block = Ok out"
    using runs(2) by (simp add: guest_runs_def)
  obtain u where u: "update S (from_bundle_state HX (eo_state out)) (td_inner td) = Ok u"
    "state_root (base S) u = hd_state_root (rpc_header block)"
    using update_filled [OF st _ h(9)] laws(1) h(10) unfolding inner hashes_alike_def by metis
  have "client_execute S H K G (guest_of self) input =
      Ok (bl_header (current_block input), state_root (base S) (td_inner td))"
  proof (rule client_execute_accepts [OF _ idb ran(1)])
    show "update S (hash_state_slow G (outcome_of (bl_header (current_block input)) out)) (td_inner td) = Ok u"
      using laws(1) u(1) by (simp add: hashes_alike_def)
    show "state_root (base S) u = hd_state_root (bl_header (current_block input))"
      using u(2) by (simp add: h(3) into_primitive_block_def)
  qed (use h ran exec chain(2) in \<open>simp_all add: guest_of_def\<close>)
  then show ?thesis using checked by (simp add: inner state_root_fill state_checked_def)
qed

end
