(* ===== verification/Host_Properties.thy ===== *)
theory Host_Properties
  imports Guest_Properties Host_Guest
begin

text \<open>
  The properties of the host side: what the RPC databases record and request, what the input
  built by \<open>HostExecutor::execute\<close> satisfies, and that the guest accepts it.
\<close>

section \<open>Example provider\<close>

text \<open>
  A chain of two blocks; the execution witness of block 2 is the empty trie, and executing the
  block writes one account.
\<close>

definition ex_witness_provider :: witness_provider where
  "ex_witness_provider = \<lparr>wp_execution_witness = (\<lambda>_. Ok \<lparr>ew_state_nodes = [[0x80]], ew_code_list = [], ew_header_list = [[1]]\<rparr>),
     wp_header_decode = (\<lambda>_. Ok (ex_header 1 0 EMPTY_ROOT)), wp_display_mpt = (\<lambda>_. []), wp_display_b256 = (\<lambda>_. []),
     wp_display_u64 = (\<lambda>_. [])\<rparr>"

definition ex_output :: "(unit, unit, unit) execution_output" where
  "ex_output = \<lparr>eo_state = (), eo_result = \<lparr>er_receipts = [], er_requests = ()\<rparr>\<rparr>"

definition ex_full_block :: "u64 \<Rightarrow> (string, unit rpc_block option) res" where
  "ex_full_block n = Ok (Some \<lparr>rpc_header = if n = 2 then ex_header 2 2 ex_root_after else ex_header 1 0 EMPTY_ROOT,
     rpc_hash = ucast n + 1, rpc_transactions = []\<rparr>)"

text \<open>The block executor of the example reads an account and the hash of the previous block.\<close>

definition ex_program :: "(unit, unit, unit) execution_output db_program" where
  "ex_program = ReadAccount 1 (\<lambda>_. ReadBlockHash 1 (\<lambda>_. Finish (Ok ex_output)))"

abbreviation ex_read :: "witness_rpc_db \<Rightarrow> database_ref" where
  "ex_read \<equiv> wrap_witness_db (\<lambda>_. []) example_state_ext example_header_ext"

definition ex_host :: "(unit, unit, unit, unit, unit, unit, witness_rpc_db) host_ext" where
  "ex_host = \<lparr>run_block = (\<lambda>_ _ _ d. (run_program (ex_read d) ex_program, d)), from_bundle_state = (\<lambda>_. ex_post [(5, Some ex_account)]),
     receipt_bloom = (\<lambda>_. 0), get_full_block = ex_full_block\<rparr>"

definition ex_convert :: "(unit, unit, unit) convert_ext" where
  "ex_convert = \<lparr>tx_convert = id, into_consensus_body = (\<lambda>_. ())\<rparr>"

definition ex_guest :: "(unit, unit, unit, unit, unit, unit) guest_ext" where
  "ex_guest = example_guest\<lparr>basic_execute := \<lambda>_ db _ _. run_program db ex_program,
     tracking_execute := \<lambda>_ db _. run_program db ex_program\<rparr>"

abbreviation ex_ops :: "(witness_rpc_db, unit) rpc_db_ops" where
  "ex_ops \<equiv> witness_rpc_db_ops example_state_ext list_nibs ex_witness_provider"

definition ex_host_input :: "unit client_input" where
  "ex_host_input = \<lparr>current_block = \<lparr>bl_header = ex_header 2 2 ex_root_after, bl_body = ()\<rparr>,
     ancestor_headers = [ex_header 1 0 EMPTY_ROOT], parent_state = empty_state, input_bytecodes = [],
     input_genesis = Mainnet, custom_beneficiary = None, opcode_tracking = False\<rparr>"

abbreviation ex_self :: "(unit, unit) host_executor" where
  "ex_self \<equiv> host_new () undefined"

lemma ex_state_empty: "from_execution_witness example_state_ext list_nibs [[0x80]] EMPTY_ROOT = (Ok empty_state :: (rpc_db_error, _) res)"
proof -
  have d: "decode example_ext [0x80] = Ok (node_of Null)" by code_simp
  have k: "keccak256 example_ext [0x80] = EMPTY_ROOT" by (simp add: toy_digest_def)
  show ?thesis
    by (simp add: from_execution_witness_def build_validated_tries_def index_node_def d k resolve_def resolve_nodes_def
        for_each_leaves_def validate_state_trie_def validate_storage_tries_def hash_def
        empty_state_def mpt_default_def node_of_def hash_fill_def is_empty_def del: example_sel(1))
qed

lemma ex_ew_new: "ew_new example_state_ext list_nibs ex_witness_provider 1 EMPTY_ROOT =
    Ok \<lparr>ew_provider = ex_witness_provider, ew_state = empty_state, ew_codes = [],
      ew_ancestor_headers = [(1, ex_header 1 0 EMPTY_ROOT)]\<rparr>"
  by (simp add: ew_new_def ex_witness_provider_def ex_state_empty hm_collect_def)

lemma ex_updated: obtains st where
  "update example_state_ext (ex_post [(5, Some ex_account)]) empty_state = Ok st"
  "ex_root_after = state_root example_ext st"
proof -
  obtain st where "update example_state_ext (ex_post [(5, Some ex_account)]) empty_state = Ok st"
    using update_correct [OF empty_state_inv ex_post_wf empty_resolved] by (metis distinct_singleton list.simps(8,9))
  then show thesis using that by (simp add: ex_root_after_def ex_fill_empty)
qed

abbreviation ex_parent_db :: witness_rpc_db where
  "ex_parent_db \<equiv> \<lparr>ew_provider = ex_witness_provider, ew_state = empty_state, ew_codes = [],
      ew_ancestor_headers = [(1, ex_header 1 0 EMPTY_ROOT)]\<rparr>"

lemma ex_parent_basic: "ew_basic_ref example_state_ext ex_parent_db 1 = Ok None"
  using get_default by (simp add: ew_basic_ref_def empty_state_def)

lemma ex_program_runs: "run_program (ex_read ex_parent_db) ex_program = Ok ex_output"
  "run_slots d ex_program = []"
  using ex_parent_basic
  by (simp_all add: ex_program_def wrap_witness_db_def ew_block_hash_ref_def after_read_def split: res.split)

lemma ex_host_execute:
  "host_execute example_state_ext example_header_ext example_consensus ex_convert ex_guest ex_host ex_ops ex_self 2 Mainnet None False =
    Ok ex_host_input"
proof -
  obtain st where st: "update example_state_ext (ex_post [(5, Some ex_account)]) empty_state = Ok st"
    "ex_root_after = state_root example_ext st" by (rule ex_updated)
  have "host_header ex_root_after 0 (ex_header 2 2 ex_root_after) = ex_header 2 2 ex_root_after"
    by (simp add: host_header_def derive_header_def ex_header_def)
  then show ?thesis
    by (simp add: host_execute_def ex_host_def expect_block_def ex_full_block_def into_primitive_block_def ex_convert_def
        witness_rpc_db_ops_def ex_ew_new ex_guest_def example_guest_def try_into_recovered_def host_run_block_def host_new_def
        validate_block_def validate_header_def example_consensus_def handle_custom_chains_def ex_program_runs
        validate_block_post_execution_def host_finish_def ex_output_def accrue_blooms_def mutated_root_def st
        ew_state_result_def ew_ancestor_header_list_def ew_bytecodes_def into_input_block_def ex_host_input_def
        into_consensus_header_def)
qed

text \<open>
  For \<open>BasicRpcDb\<close>: a provider that has only absent accounts, and a block that reads one of them
  and changes nothing.
\<close>

definition ex_provider :: "(unit, unit) rpc_provider" where
  "ex_provider = \<lparr>rp_get_proof = (\<lambda>a keys n. Ok \<lparr>rap_address = a, rap_balance = 0, rap_code_hash = 0, rap_nonce = 0,
       rap_storage_hash = 0, rap_account_proof = [], rap_storage_proof = []\<rparr>),
     rp_get_code = (\<lambda>_ _. Ok []), rp_get_storage = (\<lambda>_ _ _. Ok 0),
     rp_get_block = (\<lambda>n. Ok (Some \<lparr>rpc_header = ex_header n 0 EMPTY_ROOT, rpc_hash = ucast n + 1, rpc_transactions = []\<rparr>)),
     rp_bundle_slots = (\<lambda>_ _. None)\<rparr>"

definition ex_env :: rpc_env where
  "ex_env = \<lparr>in_runtime = True, display_error = (\<lambda>_. [])\<rparr>"

definition ex_basic_host :: "(unit, unit, unit, unit, unit, unit, (unit, unit) basic_rpc_db) host_ext" where
  "ex_basic_host = \<lparr>run_block = (\<lambda>_ _ _ d. (Ok ex_output, run_read ex_env (ReadBasic 1) d)),
     from_bundle_state = (\<lambda>_. \<lparr>hp_accounts = [], hp_storages = []\<rparr>), receipt_bloom = (\<lambda>_. 0),
     get_full_block = rp_get_block ex_provider\<rparr>"

definition ex_basic_state :: ethereum_state where
  "ex_basic_state = \<lparr>state_trie = mpt_default, storage_tries = [(5121, mpt_default)]\<rparr>"

abbreviation ex_basic_ops :: "((unit, unit) basic_rpc_db, unit) rpc_db_ops" where
  "ex_basic_ops \<equiv> basic_rpc_db_ops example_state_ext example_header_ext ex_provider"

lemma ex_provider_block: "rp_get_block ex_provider n =
    Ok (Some \<lparr>rpc_header = ex_header n 0 EMPTY_ROOT, rpc_hash = ucast n + 1, rpc_transactions = []\<rparr>)"
  by (simp add: ex_provider_def)

lemma ex_basic_execute:
  "\<exists>input. host_execute example_state_ext example_header_ext example_consensus ex_convert ex_guest ex_basic_host
    ex_basic_ops ex_self 2 Mainnet None False = Ok input \<and> parent_state input = ex_basic_state"
proof -
  let ?db = "run_read ex_env (ReadBasic 1) (bd_new ex_provider 1 EMPTY_ROOT)"
  have db: "?db = (bd_new ex_provider 1 EMPTY_ROOT)\<lparr>bd_accounts := rwlock_new
      [(1, \<lparr>ai_balance = 0, ai_nonce = 0, ai_code_hash = KECCAK_EMPTY, ai_code = Some []\<rparr>)]\<rparr>"
    by (simp add: run_read_def bd_basic_ref_def blocking_def ex_env_def fetch_account_info_def request_account_def
        bd_new_def ex_provider_def try_with_def lock_write_def rwlock_new_def lock_set_def Let_def)
  have r: "resolve mpt_default m = Ok mpt_default" for m
    by (simp add: resolve_def resolve_nodes_def mpt_default_def node_of_def)
  have hf: "hash_fill X mpt_default = mpt_default" for X
    by (simp add: hash_fill_def is_empty_def mpt_default_def)
  have state: "bd_state example_ext ?db () = Ok ex_basic_state"
    unfolding db
    by (simp add: bd_state_def get_state_requests_def lock_read_def rwlock_new_def bd_new_def request_proofs_def
        btree_set_def ex_provider_def Let_def hm_collect_def by_address_def eip1186_proof_to_account_proof_def trie_view_def
        from_transition_proofs_def transition_proofs_to_tries_def transition_step_def store_proof_def parse_proof_def
        mpt_from_proof_def store_nodes_def add_orphaned_leafs_def checked_state_trie_def r hash_default
        ex_basic_state_def node_from_digest_def hf ex_hashed_address is_not_included_def)
  have hdr: "host_header EMPTY_ROOT 0 (ex_header 2 0 EMPTY_ROOT) = ex_header 2 0 EMPTY_ROOT"
    by (simp add: host_header_def derive_header_def ex_header_def)
  have root: "state_root example_ext ex_basic_state = EMPTY_ROOT"
    by (simp add: state_root_def ex_basic_state_def hash_default)
  obtain hs where hs: "bd_ancestor_headers ?db = Ok hs"
    unfolding db by (simp add: bd_ancestor_headers_def lock_read_def rwlock_new_def bd_new_def u64_range_def request_header_def
        ex_provider_def)
  obtain codes where codes: "bd_bytecodes example_header_ext ?db = (Ok codes :: (rpc_db_error, _) res)"
    unfolding db by (simp add: bd_bytecodes_def lock_read_def rwlock_new_def)
  have up: "update example_state_ext \<lparr>hp_accounts = [], hp_storages = []\<rparr> ex_basic_state = Ok ex_basic_state"
    by (simp add: update_def)
  show ?thesis
    by (simp add: host_execute_def ex_basic_host_def expect_block_def into_primitive_block_def ex_convert_def
        basic_rpc_db_ops_def ex_guest_def example_guest_def try_into_recovered_def host_run_block_def host_new_def
        validate_block_def validate_header_def example_consensus_def handle_custom_chains_def
        validate_block_post_execution_def host_finish_def ex_output_def accrue_blooms_def mutated_root_def
        into_input_block_def into_consensus_header_def ex_provider_block state hs codes up root hdr)
qed

section \<open>The host and the guest\<close>

text \<open>
  C14. The guest accepts what the host produces: when the host, on an execution witness, returns an
  input, the guest's executor of the same configuration returns the block's header and the
  parent state root for it. The block executor is any program over the database operations, the same
  on both sides (\<open>host_runs\<close>, \<open>guest_runs\<close>); that it computes the same result on the guest's database is
  proved, provided the host's run reads slots only of accounts whose storage trie the witness has
  (without one the host's database answers zero and the guest's panics, see C18). Assumed besides
  are that the two ways to the hashed post state agree (\<open>hashes_alike\<close>), that bytecodes and headers are
  hashed as documented, the form of the tries, and that the ancestor headers form a valid chain from the previous block.
\<close>

theorem host_input_verifies:
  assumes "host_execute S H K V G HX (witness_rpc_db_ops S N p) self n genesis beneficiary tracking = Ok input"
    and "host_runs HX (wrap_witness_db display S H) (he_evm_config self) program"
    and "guest_runs G (he_evm_config self) tracking program"
    and "hashes_alike S G HX" and "seal_laws H" and "code_hashes S H (input_bytecodes input)"
    and "\<And>chain_id db senders. chain_id_of_genesis genesis = Ok chain_id \<Longrightarrow>
      ew_new S N p (n - 1) (hd_state_root (rpc_header previous)) = Ok db \<Longrightarrow>
      recover_senders G (current_block input) = Some senders \<Longrightarrow>
      slots_covered display S H db (program chain_id \<lparr>rb_block = current_block input, rb_senders = senders\<rparr>)"
    and "state_inv S (parent_state input)"
    and "get_full_block HX (n - 1) = Ok (Some previous)" and "ancestor_headers input = rpc_header previous # rest"
    and "linked (sealed_headers H input)" and "validate_chain K (he_chain_spec self) (sealed_headers H input) = Ok ()"
  shows "client_execute S H K G (guest_of self) input =
    Ok (bl_header (current_block input), hd_state_root (rpc_header previous))"
  by (rule witness_input_accepted [OF assms])

theorem host_input_verifies_witness:
  "client_execute example_state_ext example_header_ext example_consensus ex_guest (guest_of ex_self) ex_host_input =
    Ok (ex_header 2 2 ex_root_after, EMPTY_ROOT)"
proof -
  let ?previous = "\<lparr>rpc_header = ex_header 1 0 EMPTY_ROOT, rpc_hash = 2, rpc_transactions = [] :: unit list\<rparr>"
  have "client_execute example_state_ext example_header_ext example_consensus ex_guest (guest_of ex_self) ex_host_input =
    Ok (bl_header (current_block ex_host_input), hd_state_root (rpc_header ?previous))"
  proof (rule host_input_verifies [OF ex_host_execute, where display = "\<lambda>_. []" and program = "\<lambda>_ _. ex_program"])
    show "host_runs ex_host ex_read (he_evm_config ex_self) (\<lambda>_ _. ex_program)"
      by (simp add: host_runs_def ex_host_def)
    show "guest_runs ex_guest (he_evm_config ex_self) False (\<lambda>_ _. ex_program)"
      by (simp add: guest_runs_def ex_guest_def example_guest_def new_block_executor_def)
    show "hashes_alike example_state_ext ex_guest ex_host"
      by (simp add: hashes_alike_def ex_guest_def example_guest_def ex_host_def ex_post_wf)
    show "code_hashes example_state_ext example_header_ext (input_bytecodes ex_host_input)"
      by (simp add: code_hashes_def ex_host_input_def)
    show "slots_covered (\<lambda>_. []) example_state_ext example_header_ext db ex_program" for db
      by (simp add: slots_covered_def ex_program_runs)
    show "state_inv example_state_ext (parent_state ex_host_input)"
      using empty_state_inv by (simp add: ex_host_input_def)
    show "linked (sealed_headers example_header_ext ex_host_input)"
      by (simp add: sealed_headers_def ex_host_input_def)
    show "validate_chain example_consensus (he_chain_spec ex_self) (sealed_headers example_header_ext ex_host_input) = Ok ()"
      by (simp add: validate_chain_def sealed_headers_def ex_host_input_def validate_pair_def validate_header_def
        validate_header_against_parent_def example_consensus_def handle_custom_chains_def)
  qed (simp_all add: ex_host_def ex_full_block_def ex_host_input_def example_seal_laws)
  then show ?thesis by (simp add: ex_host_input_def)
qed

text \<open>
  C15. What an input returned by the host has passed, whichever database it used: the block is the
  provider's, it was executed with its recovered senders, the state after the block has the state root of the block's header, and the header
  derived from the execution (with the computed state root and the accrued logs bloom) has
  the hash of the block's header.
\<close>

theorem host_checks:
  assumes "host_execute S H K V G HX D self n genesis beneficiary tracking = Ok input"
  shows "\<exists>block senders chain_id db db' out st'. get_full_block HX n = Ok (Some block) \<and>
    current_block input = into_primitive_block V block \<and>
    recover_senders G (current_block input) = Some senders \<and> chain_id_of_genesis genesis = Ok chain_id \<and>
    run_block HX (he_evm_config self) (Some chain_id) \<lparr>rb_block = current_block input, rb_senders = senders\<rparr> db =
      (Ok out, db') \<and>
    update S (from_bundle_state HX (eo_state out)) (parent_state input) = Ok st' \<and>
    state_root (base S) st' = hd_state_root (rpc_header block) \<and>
    hash_slow H (host_header (state_root (base S) st')
      (accrue_blooms (receipt_bloom HX) (er_receipts (eo_result out))) (rpc_header block)) = hash_slow H (rpc_header block)"
proof -
  obtain chain_id block previous db senders out db' st' where
    "chain_id_of_genesis genesis = Ok chain_id"
    "host_ran S H K V G HX D self n chain_id block previous db senders out db'"
    "current_block input = into_primitive_block V block"
    "update S (from_bundle_state HX (eo_state out)) (parent_state input) = Ok st'"
    "state_root (base S) st' = hd_state_root (rpc_header block)"
    "hash_slow H (host_header (hd_state_root (rpc_header block))
       (accrue_blooms (receipt_bloom HX) (er_receipts (eo_result out))) (rpc_header block)) =
     hash_slow H (rpc_header block)"
    using host_execute_ok [OF assms] by metis
  then show ?thesis
    by (intro exI [of _ block] exI [of _ senders] exI [of _ chain_id] exI [of _ db] exI [of _ db'] exI [of _ out]
        exI [of _ st']) (simp add: host_ran_def Let_def)
qed

theorem host_checks_witness:
  "\<exists>senders. recover_senders ex_guest (current_block ex_host_input) = Some senders"
  using host_checks [OF ex_host_execute] by blast

text \<open>
  The state a host input carries has the state root of the previous block, when the host used
  \<open>BasicRpcDb\<close> and the block executor only read from it, and read something.
\<close>

lemma basic_parent_root:
  assumes "host_execute S H K V G HX (basic_rpc_db_ops S H' p) self n genesis beneficiary tracking = Ok input"
    and "\<And>cfg c block d. basic_used p (n - 1) (hd_state_root (rpc_header previous)) d \<Longrightarrow>
      basic_used p (n - 1) (hd_state_root (rpc_header previous)) (snd (run_block HX cfg c block d)) \<and>
      reads_something (snd (run_block HX cfg c block d))"
    and "get_full_block HX (n - 1) = Ok (Some previous)"
  shows "state_root (base S) (parent_state input) = hd_state_root (rpc_header previous)"
  using basic_db.input_state_root [OF refl _ _ assms(2) refl assms(3) refl assms(1)]
  by (simp add: basic_rpc_db_ops_def)

section \<open>What the databases record\<close>

text \<open>
  C17. \<open>BasicRpcDb\<close> requests the proofs of exactly what was read: after any sequence of reads,
  \<open>get_state_requests\<close> has an entry for an address iff its account or one of its slots was
  answered, and the entry lists the answered slots in increasing order without repetition.
\<close>

theorem state_requests_exact:
  assumes "in_runtime E"
  shows "\<exists>m. get_state_requests (run_reads E rs (bd_new p n r)) = (Ok m :: (rpc_db_error, _) res) \<and> (\<forall>a. hm_get m a =
    (if a \<in> accounts_read (bd_new p n r) rs \<or> slots_read (bd_new p n r) rs a \<noteq> {}
     then Some (sorted_list_of_set (slots_read (bd_new p n r) rs a)) else None))"
  using state_requests [OF recorded_run [OF assms]] by metis

theorem state_requests_exact_witness:
  "\<exists>m. get_state_requests (run_reads ex_env [ReadStorage 7 3, ReadStorage 7 1] (bd_new ex_provider 1 0)) = (Ok m :: (rpc_db_error, _) res) \<and>
    hm_get m 7 = Some [1, 3] \<and> hm_get m 8 = None"
proof -
  have "slots_read (bd_new ex_provider 1 0) [ReadStorage 7 3, ReadStorage 7 1] a = (if a = 7 then {1, 3} else {})"
    "accounts_read (bd_new ex_provider 1 0) [ReadStorage 7 3, ReadStorage 7 1] = {}" for a
    by (auto simp: slots_read_def accounts_read_def request_storage_def bd_new_def ex_provider_def)
  moreover have "in_runtime ex_env" by (simp add: ex_env_def)
  ultimately show ?thesis
    using state_requests_exact [of ex_env "[ReadStorage 7 3, ReadStorage 7 1]" ex_provider 1 0] by auto
qed

text \<open>
  The ancestor headers of \<open>BasicRpcDb\<close>: the headers of the provider's blocks from the parent
  block downwards, one for each number, down to the oldest block whose hash was read; every
  number not above the parent whose hash was read is among them.
\<close>

lemma ancestor_headers_cover:
  assumes "in_runtime E" and "bd_ancestor_headers (run_reads E rs (bd_new p n r)) = Ok hs"
  shows "(\<forall>i < length hs. \<exists>b. rp_get_block p (n - of_nat i) = Ok (Some b) \<and> hs ! i = rpc_header b) \<and>
    (\<forall>m \<in> hashes_read (bd_new p n r) rs. m \<le> n \<longrightarrow> (\<exists>i < length hs. m = n - of_nat i))"
  using ancestor_headers_ok [OF recorded_run [OF assms(1)] assms(2)] by (simp add: bd_new_def)

text \<open>
  The bytecodes handed to the guest contain, for every account that was read, a code with the
  hash of the account's code.
\<close>

lemma bytecodes_complete_for_reads:
  assumes "in_runtime E" and "a \<in> accounts_read (bd_new p n r) rs"
  shows "\<exists>info code codes c. request_account (bd_new p n r) a = Ok info \<and> ai_code info = Some code \<and>
    bd_bytecodes H (run_reads E rs (bd_new p n r)) = (Ok codes :: (rpc_db_error, _) res) \<and> c \<in> set codes \<and>
    bytecode_hash H c = bytecode_hash H code"
  by (rule bytecodes_of_reads [OF recorded_run [OF assms(1)] assms(2)])

text \<open>
  C18. The host reads what the guest will read: \<open>ExecutionWitnessRpcDb\<close> and the guest's \<open>TrieDB\<close> of
  its state give the same accounts, and the same slot values wherever the state has a storage trie
  for the account; without one the host's database answers zero while the guest's panics.
\<close>

theorem host_guest_reads:
  assumes "ew_new S N p n root = Ok db" and "td_inner td = fill_state (base S) (ew_state db)"
  shows "(td_basic S td a = (Ok x :: (string, _) res)) = (ew_basic_ref S db a = Ok x) \<and>
    (hm_get (storage_tries (ew_state db)) (hashed_address (base S) a) \<noteq> None \<longrightarrow>
      (td_storage S td a i = (Ok v :: (string, _) res)) = (ew_storage_ref S db a i = Ok v)) \<and>
    (hm_get (storage_tries (ew_state db)) (hashed_address (base S) a) = None \<longrightarrow>
      ew_storage_ref S db a i = Ok 0 \<and> td_storage S td a i = (Panic :: (string, _) res))"
proof -
  have v: "validated S root (ew_state db)" using assms(1) by (rule ew_new_ok)
  have "ew_storage_ref S db a i = Ok 0 \<and> td_storage S td a i = (Panic :: (string, _) res)"
    if "hm_get (storage_tries (ew_state db)) (hashed_address (base S) a) = None"
    using that assms(2) by (simp add: ew_storage_ref_def td_storage_def fill_state_def map_of_map)
  then show ?thesis
    using td_same_state [OF _ assms(2) refl] td_same_storage [OF _ assms(2) refl] v
    by (simp add: validated_def sound_node_def)
qed

text \<open>An execution witness with one account, whose slot 7 holds 5.\<close>

lemma ex_leaf_coded:
  assumes leaf: "leaf = node_of (Leaf (to_encoded_path (to_nibs (b256_slice k)) True) v)"
    and v: "32 \<le> length v" "length v \<le> 150" and e: "e = encode example_ext leaf"
  shows "decode example_ext e = Ok leaf" and "length e = (if length v < 56 then length v + 37 else length v + 38)"
    and "keccak256 example_ext e = 256 * of_nat (length e) + ucast (last v)"
    and "hash example_ext leaf = 256 * of_nat (length e) + ucast (last v)"
proof -
  have data: "data leaf = Leaf (to_encoded_path (to_nibs (b256_slice k)) True) v" "cached_reference leaf = None"
    "erase leaf = leaf" "coherent example_ext leaf" "canon leaf"
    by (simp_all add: leaf node_of_def)
  have path: "length (to_encoded_path (to_nibs (b256_slice k)) True) = 33" by (simp add: to_encoded_path_def)
  have "be_nat (length v) = [of_nat (length v)]" by (rule be_nat_one) (use v in linarith)+
  then have slice: "length (w_slice v) = (if length v < 56 then length v + 1 else length v + 2)"
    using v by (simp add: w_slice_def w_prefix_def be_nat_one)
  have sized: "sized example_ext leaf"
    using v slice by (simp add: leaf node_of_def path ex_writer)
  show "decode example_ext e = Ok leaf"
  proof -
    have "decode example_ext (encode example_ext (erase leaf)) = Ok (cut_refs example_ext leaf)"
      using decode_encoded [OF example_laws(1-3) data(5) sized] by (simp add: decode_def del: decode_fuel.simps)
    moreover have "cut_refs example_ext leaf = leaf" by (simp add: leaf node_of_def)
    ultimately show ?thesis by (simp only: data(3) e)
  qed
  show len: "length e = (if length v < 56 then length v + 37 else length v + 38)"
    using length_encode_refs [OF example_length_laws, of "refs example_ext leaf"] v slice
    by (simp add: e encode_def refs_def data(1) path ex_writer)
  have "v \<noteq> []" using v(1) by auto
  then have "last (w_slice v) = last v" "w_slice v \<noteq> []" by (simp_all add: w_slice_def)
  then have "last e = last v" by (simp add: e encode_def refs_def data(1))
  moreover have "e \<noteq> []" "e \<noteq> [0x80]" using v len by (auto split: if_splits)
  ultimately show k: "keccak256 example_ext e = 256 * of_nat (length e) + ucast (last v)"
    by (simp add: toy_digest_def)
  have "fresh_ref example_ext leaf = RefDigest (toy_digest e)"
    using fresh_ref_list [of leaf example_ext] len v by (simp add: data is_list_node_def e [symmetric])
  then have "reference example_ext leaf = RefDigest (256 * of_nat (length e) + ucast (last v))"
    using k reference_coherent [OF data(4)] by simp
  then show "hash example_ext leaf = 256 * of_nat (length e) + ucast (last v)"
    by (simp add: hash_def data)
qed

definition ex_slot_leaf :: mpt where
  "ex_slot_leaf = node_of (Leaf (to_encoded_path (to_nibs (b256_slice (hashed_slot example_ext 7))) True) (b256_slice 5))"

definition ex_owner :: trie_account where
  "ex_owner = ex_holder\<lparr>ta_storage_root := 256 * 69 + 5\<rparr>"

definition ex_owner_leaf :: mpt where
  "ex_owner_leaf = node_of (Leaf (to_encoded_path (to_nibs (b256_slice 5121)) True) (example_account_encode ex_owner))"

definition ex_slot_state :: ethereum_state where
  "ex_slot_state = \<lparr>state_trie = hash_fill example_ext ex_owner_leaf, storage_tries = [(5121, hash_fill example_ext ex_slot_leaf)]\<rparr>"

lemma ex_slot_leaf_coded: "decode example_ext (encode example_ext ex_slot_leaf) = Ok ex_slot_leaf"
  "keccak256 example_ext (encode example_ext ex_slot_leaf) = 256 * 69 + 5" "hash example_ext ex_slot_leaf = 256 * 69 + 5"
proof -
  note l = ex_leaf_coded [OF ex_slot_leaf_def _ _ refl]
  have "last (b256_slice 5) = 5" by (simp add: b256_slice_def upt_rec)
  then show "decode example_ext (encode example_ext ex_slot_leaf) = Ok ex_slot_leaf"
    "keccak256 example_ext (encode example_ext ex_slot_leaf) = 256 * 69 + 5" "hash example_ext ex_slot_leaf = 256 * 69 + 5"
    using l by simp_all
qed

lemma ex_owner_leaf_coded: "decode example_ext (encode example_ext ex_owner_leaf) = Ok ex_owner_leaf"
  "keccak256 example_ext (encode example_ext ex_owner_leaf) = 256 * 166 + 3" "hash example_ext ex_owner_leaf = 256 * 166 + 3"
proof -
  note l = ex_leaf_coded [OF ex_owner_leaf_def _ _ refl]
  have "last (b256_slice 3) = 3" by (simp add: b256_slice_def upt_rec)
  then have "length (example_account_encode ex_owner) = 128" "last (example_account_encode ex_owner) = 3"
    by (simp_all add: example_account_encode_def ex_owner_def ex_holder_def)
  then show "decode example_ext (encode example_ext ex_owner_leaf) = Ok ex_owner_leaf"
    "keccak256 example_ext (encode example_ext ex_owner_leaf) = 256 * 166 + 3" "hash example_ext ex_owner_leaf = 256 * 166 + 3"
    using l by simp_all
qed

lemma ex_owner_get: "get ex_owner_leaf (b256_slice 5121) = Ok (Some (example_account_encode ex_owner))"
  by (simp add: get_def ex_owner_leaf_def node_of_def hp.dec_enc)

lemma ex_slot_witness: "from_execution_witness example_state_ext list_nibs
    [encode example_ext ex_slot_leaf, encode example_ext ex_owner_leaf] (256 * 166 + 3) = (Ok ex_slot_state :: (mpt_error, _) res)"
proof -
  have d: "data ex_slot_leaf = Leaf (to_encoded_path (to_nibs (b256_slice (hashed_slot example_ext 7))) True) (b256_slice 5)"
    "data ex_owner_leaf = Leaf (to_encoded_path (to_nibs (b256_slice 5121)) True) (example_account_encode ex_owner)"
    by (simp_all add: ex_slot_leaf_def ex_owner_leaf_def)
  have r: "resolve ex_slot_leaf m = Ok ex_slot_leaf" "resolve ex_owner_leaf m = Ok ex_owner_leaf" for m
    by (simp_all add: resolve_def resolve_nodes_def d)
  have nd: "\<not> is_digest ex_slot_leaf" by (simp add: is_digest_def d)
  have leaves: "for_each_leaves list_nibs ex_owner_leaf = Some [(b256_slice 5121, example_account_encode ex_owner)]"
    by (simp add: for_each_leaves_def ex_owner_leaf_def node_of_def list_nibs_def extend_path_def hp.dec_enc)
  have root: "ta_storage_root ex_owner = 256 * 69 + 5" by (simp add: ex_owner_def)
  show ?thesis
    by (simp add: from_execution_witness_def build_validated_tries_def index_node_def ex_slot_leaf_coded ex_owner_leaf_coded
        r leaves leaf_storage_root_def root insert_storage_trie_def nd validate_state_trie_def validate_storage_tries_def
        validate_storage_trie_def get_rlp_def ex_owner_get Let_def ex_slot_state_def del: example_sel(1))
qed

definition ex_slot_provider :: witness_provider where
  "ex_slot_provider = ex_witness_provider\<lparr>wp_execution_witness := \<lambda>_. Ok \<lparr>ew_state_nodes =
     [encode example_ext ex_slot_leaf, encode example_ext ex_owner_leaf], ew_code_list = [], ew_header_list = []\<rparr>\<rparr>"

theorem host_guest_reads_witness:
  "\<exists>db td. ew_new example_state_ext list_nibs ex_slot_provider 1 (256 * 166 + 3) = Ok db \<and>
    ew_basic_ref example_state_ext db 1 = Ok (Some (info_of_account ex_owner)) \<and>
    td_basic example_state_ext td 1 = (Ok (Some (info_of_account ex_owner)) :: (string, _) res) \<and>
    ew_storage_ref example_state_ext db 1 7 = Ok 5 \<and> td_storage example_state_ext td 1 7 = (Ok 5 :: (string, _) res) \<and>
    ew_storage_ref example_state_ext db 2 7 = Ok 0 \<and> td_storage example_state_ext td 2 7 = (Panic :: (string, _) res)"
proof -
  let ?db = "\<lparr>ew_provider = ex_slot_provider, ew_state = ex_slot_state, ew_codes = [], ew_ancestor_headers = []\<rparr>"
  let ?td = "\<lparr>td_inner = fill_state example_ext ex_slot_state, td_block_hashes = [], td_bytecode_by_hash = []\<rparr>"
  have "from_execution_witness example_state_ext list_nibs
    [encode example_ext ex_slot_leaf, encode example_ext ex_owner_leaf] (256 * 166 + 3) = (Ok ex_slot_state :: (rpc_db_error, _) res)"
    using ex_slot_witness by (simp add: from_execution_witness_def res_ok_simps)
  then have new: "ew_new example_state_ext list_nibs ex_slot_provider 1 (256 * 166 + 3) = Ok ?db"
    by (simp add: ew_new_def ex_slot_provider_def hm_collect_def)
  have coh: "coherent example_ext ex_owner_leaf" "coherent example_ext ex_slot_leaf"
    by (simp_all add: ex_owner_leaf_def ex_slot_leaf_def node_of_def)
  have "get ex_slot_leaf (b256_slice (hashed_slot example_ext 7)) = Ok (Some (b256_slice 5))"
    by (simp add: get_def ex_slot_leaf_def node_of_def hp.dec_enc)
  then have s: "ew_storage_ref example_state_ext ?db 1 7 = Ok 5"
    by (simp add: ew_storage_ref_def ex_slot_state_def ex_hashed_address get_hash_fill [OF coh(2)])
      (simp add: example_state_ext_def)
  have b: "ew_basic_ref example_state_ext ?db 1 = Ok (Some (info_of_account ex_owner))"
    using ex_owner_get by (simp add: ew_basic_ref_def ex_slot_state_def ex_hashed_address get_hash_fill [OF coh(1)])
  have two: "hashed_address example_ext 2 \<noteq> 5121" "hm_get (storage_tries (ew_state ?db)) 5121 \<noteq> None"
    by (simp_all add: hashed_address_def keccak_def toy_digest_def address_slice_def upt_rec ex_slot_state_def)
  have inner: "td_inner ?td = fill_state (base example_state_ext) (ew_state ?db)" by simp
  have "td_basic example_state_ext ?td 1 = (Ok (Some (info_of_account ex_owner)) :: (string, _) res)"
    using host_guest_reads [OF new inner, where a = 1] b by blast
  moreover have "td_storage example_state_ext ?td 1 7 = (Ok 5 :: (string, _) res)"
    using host_guest_reads [OF new inner, where a = 1 and i = 7 and v = 5] s two(2) by (simp add: ex_hashed_address)
  moreover have "ew_storage_ref example_state_ext ?db 2 7 = Ok 0 \<and> td_storage example_state_ext ?td 2 7 = (Panic :: (string, _) res)"
    using host_guest_reads [OF new inner, where a = 2 and i = 7] two(1) by (simp add: ex_slot_state_def)
  ultimately show ?thesis using new b s by blast
qed

text \<open>
  The ancestor headers of \<open>ExecutionWitnessRpcDb\<close> are headers of the execution witness in strictly
  decreasing order of their numbers.
\<close>

lemma witness_headers_sorted:
  assumes "ew_new S N p n root = Ok db" and "ew_ancestor_header_list db = Ok hs"
  shows "sorted_wrt (>) (map hd_number hs) \<and> (\<exists>witness. wp_execution_witness p (n + 1) = Ok witness \<and>
    (\<forall>h \<in> set hs. \<exists>encoded \<in> set (ew_header_list witness). wp_header_decode p encoded = Ok h))"
proof -
  obtain witness headers where w: "wp_execution_witness p (n + 1) = Ok witness"
    "ew_ancestor_headers db = hm_collect (map (\<lambda>h. (hd_number h, h)) headers)"
    "\<forall>h \<in> set headers. \<exists>encoded \<in> set (ew_header_list witness). wp_header_decode p encoded = Ok h"
    by (rule ew_new_ok [OF assms(1)])
  show ?thesis using ancestor_list(1,2) [OF w(2) assms(2)] w(1,3) by blast
qed

end
