(* ===== verification/Full_Executor.thy ===== *)
theory Full_Executor
  imports Host_Executor
begin

text \<open>
  \<open>crates/executor/host/src/full_executor.rs\<close>: the executors that run a block through the host
  and the zkVM, with the cache of inputs, the hooks and the process-wide \<open>ELF_ID\<close>.
\<close>

section \<open>The world\<close>

text \<open>
  The state outside the executors: the \<open>OnceLock\<close> \<open>ELF_ID\<close>, the cache files by their paths (the cache
  folder, the chain id and the block number), the hook calls in the order they are made, the block hashes
  that were logged, and the debug files that were written.
\<close>

type_synonym cache_path = "string \<times> u64 \<times> u64"

datatype 'body hook_event =
    ExecutionStart u64
  | ExecutionEnd "'body block" bytes
  | ProvingStart u64
  | ProvingEnd u64 bytes bytes string nat

record 'body world =
  w_elf_id :: "string option"
  w_cache :: "cache_path \<Rightarrow> bytes option"
  w_events :: "'body hook_event list"
  w_hashes :: "b256 list"
  w_dumps :: "(string \<times> bytes) list"

type_synonym ('body, 'a) io = "'body world \<Rightarrow> (string, 'a) res \<times> 'body world"

text \<open>Sequencing with \<open>?\<close>: an error or a panic ends the computation, its effects stay.\<close>

definition io_bind :: "('body, 'a) io \<Rightarrow> ('a \<Rightarrow> ('body, 'b) io) \<Rightarrow> ('body, 'b) io" where
  "io_bind m f = (\<lambda>w. case m w of (Ok x, w') \<Rightarrow> f x w' | (Err e, w') \<Rightarrow> (Err e, w') | (Panic, w') \<Rightarrow> (Panic, w'))"

definition io_lift :: "(string, 'a) res \<Rightarrow> ('body, 'a) io" where
  "io_lift r = (\<lambda>w. (r, w))"

text \<open>\<open>spawn_blocking(...).await\<close>: a panic of the task is a \<open>JoinError\<close>.\<close>

definition joined :: "string \<Rightarrow> (string, 'a) res \<Rightarrow> (string, 'a) res" where
  "joined message r = (case r of Panic \<Rightarrow> Err message | _ \<Rightarrow> r)"

section \<open>Third-party functions\<close>

datatype prove_kind = ProveCore | ProveCompressed | ProvePlonk | ProveGroth16

record ('pk, 'vk) proof_output =
  po_proof :: bytes
  po_public_values :: bytes
  po_zkm_version :: string
  po_cycles :: nat

text \<open>
  The prover of \<open>zkm_sdk\<close>, the hooks, \<open>bincode\<close>, the hexadecimal digest of the ELF, the outcome of
  the file operations on the cache (opening an existing file, creating one with its folder)
  and the messages of library errors; for the debug dump the environment variable \<open>ZKM_DUMP\<close>, the
  serialised \<open>ZKMStdin\<close> and the outcome of writing a file.
\<close>

record ('pk, 'vk, 'body) prover_ext =
  pe_setup :: "bytes \<Rightarrow> (string, 'pk \<times> 'vk) res"
  pe_elf :: "'pk \<Rightarrow> bytes"
  pe_prove :: "'pk \<Rightarrow> bytes \<Rightarrow> prove_kind \<Rightarrow> string option \<Rightarrow> (string, ('pk, 'vk) proof_output) res"
  pe_execute :: "bytes \<Rightarrow> bytes \<Rightarrow> (string, bytes \<times> bytes) res"
  pe_read_b256 :: "bytes \<Rightarrow> b256 option"
  pe_hook :: "'body hook_event \<Rightarrow> (string, unit) res"
  pe_serialize :: "'body client_input \<Rightarrow> bytes option"
  pe_deserialize :: "bytes \<Rightarrow> 'body client_input option"
  pe_elf_digest :: "bytes \<Rightarrow> string"
  pe_open :: "cache_path \<Rightarrow> (string, unit) res"
  pe_create :: "cache_path \<Rightarrow> (string, unit) res"
  pe_message :: string
  pe_zkm_dump :: "string option"
  pe_stdin_bytes :: "bytes \<Rightarrow> bytes option"
  pe_write :: "string \<Rightarrow> (string, unit) res"

section \<open>Hooks and the cache\<close>

definition call_hook :: "('pk, 'vk, 'body) prover_ext \<Rightarrow> 'body hook_event \<Rightarrow> ('body, unit) io" where
  "call_hook P e = (\<lambda>w. (pe_hook P e, w\<lparr>w_events := w_events w @ [e]\<rparr>))"

definition try_load_input_from_cache ::
  "('pk, 'vk, 'body) prover_ext \<Rightarrow> string \<Rightarrow> u64 \<Rightarrow> u64 \<Rightarrow> ('body, 'body client_input option) io" where
  "try_load_input_from_cache P cache_dir chain_id block_number = (\<lambda>w.
     case w_cache w (cache_dir, chain_id, block_number) of
       Some stored \<Rightarrow>
         (res_bind (pe_open P (cache_dir, chain_id, block_number)) (\<lambda>_.
            map_res Some (ok_or (pe_message P) (pe_deserialize P stored))), w)
     | None \<Rightarrow> (Ok None, w))"

text \<open>The cache file is created, which empties it, and then written.\<close>

definition store_input_in_cache ::
  "('pk, 'vk, 'body) prover_ext \<Rightarrow> string \<Rightarrow> u64 \<Rightarrow> u64 \<Rightarrow> 'body client_input \<Rightarrow> ('body, unit) io" where
  "store_input_in_cache P cache_dir chain_id block_number client_input = (\<lambda>w.
     case pe_create P (cache_dir, chain_id, block_number) of
       Ok _ \<Rightarrow>
         (case pe_serialize P client_input of
            Some stored \<Rightarrow> (Ok (), w\<lparr>w_cache := (w_cache w)((cache_dir, chain_id, block_number) \<mapsto> stored)\<rparr>)
          | None \<Rightarrow> (Err (pe_message P), w\<lparr>w_cache := (w_cache w)((cache_dir, chain_id, block_number) \<mapsto> [])\<rparr>))
     | Err e \<Rightarrow> (Err e, w)
     | Panic \<Rightarrow> (Panic, w))"

section \<open>The debug dump\<close>

text \<open>\<open>utils.rs\<close>: the program and the input are written to files when \<open>ZKM_DUMP\<close> is set.\<close>

definition write_dump :: "('pk, 'vk, 'body) prover_ext \<Rightarrow> string \<Rightarrow> bytes \<Rightarrow> ('body, unit) io" where
  "write_dump P name content = (\<lambda>w. case pe_write P name of
     Ok _ \<Rightarrow> (Ok (), w\<lparr>w_dumps := w_dumps w @ [(name, content)]\<rparr>) | _ \<Rightarrow> (Panic, w))"

definition dump_enabled :: "string option \<Rightarrow> bool" where
  "dump_enabled var = (case var of Some v \<Rightarrow> v = ''1'' \<or> to_lowercase v = ''true'' | None \<Rightarrow> False)"

definition zkm_dump :: "('pk, 'vk, 'body) prover_ext \<Rightarrow> bytes \<Rightarrow> bytes \<Rightarrow> u64 \<Rightarrow> ('body, unit) io" where
  "zkm_dump P elf stdin block =
     (if dump_enabled (pe_zkm_dump P)
      then io_bind (write_dump P ''program.bin'' elf) (\<lambda>_.
           io_bind (io_lift (unwrap_opt (pe_stdin_bytes P stdin))) (\<lambda>stdin.
             write_dump P (decimal (unat block) @ ''-stdin.bin'') stdin))
      else io_lift (Ok ()))"

section \<open>\<open>process_client\<close>\<close>

definition execute_client :: "('pk, 'vk, 'body) prover_ext \<Rightarrow> 'pk \<Rightarrow> bytes \<Rightarrow> (string, bytes \<times> bytes) res" where
  "execute_client P pk stdin = joined (pe_message P) (pe_execute P (pe_elf P pk) stdin)"

definition prove_client ::
  "('pk, 'vk, 'body) prover_ext \<Rightarrow> 'pk \<Rightarrow> bytes \<Rightarrow> prove_kind \<Rightarrow> string \<Rightarrow> (string, ('pk, 'vk) proof_output) res" where
  "prove_client P pk stdin mode elf_id = joined (pe_message P) (pe_prove P pk stdin mode (Some elf_id))"

text \<open>
  With a prove mode the block is proved, otherwise executed in the zkVM. The block hash is read
  from the public values and logged; that it cannot be read is a panic.
\<close>

definition log_hash :: "b256 \<Rightarrow> ('body, unit) io" where
  "log_hash block_hash = (\<lambda>w. (Ok (), w\<lparr>w_hashes := w_hashes w @ [block_hash]\<rparr>))"

definition process_client ::
  "('pk, 'vk, 'body) prover_ext \<Rightarrow> 'pk \<Rightarrow> 'body client_input \<Rightarrow> prove_kind option \<Rightarrow> ('body, unit) io" where
  "process_client P pk client_input prove_mode =
     (let number = hd_number (bl_header (current_block client_input)) in
      io_bind (io_lift (unwrap_opt (pe_serialize P client_input))) (\<lambda>stdin.
      case prove_mode of
        Some mode \<Rightarrow>
          io_bind (call_hook P (ProvingStart number)) (\<lambda>_.
          io_bind (\<lambda>w. (unwrap_opt (w_elf_id w), w)) (\<lambda>elf_id.
          io_bind (io_lift (prove_client P pk stdin mode elf_id)) (\<lambda>proof.
            call_hook P (ProvingEnd number (po_proof proof) (po_public_values proof)
              (po_zkm_version proof) (po_cycles proof)))))
      | None \<Rightarrow>
          io_bind (zkm_dump P (pe_elf P pk) stdin number) (\<lambda>_.
          io_bind (io_lift (execute_client P pk stdin)) (\<lambda>(public_values, report).
          io_bind (io_lift (unwrap_opt (pe_read_b256 P public_values))) (\<lambda>block_hash.
          io_bind (log_hash block_hash) (\<lambda>_.
            call_hook P (ExecutionEnd (current_block client_input) report)))))))"

section \<open>The executors\<close>

text \<open>The fields of \<open>Config\<close> the executors read.\<close>

record config =
  cf_chain :: u64
  cf_genesis :: genesis
  cf_rpc_url :: "string option"
  cf_debug_rpc_url :: "string option"
  cf_cache_dir :: "string option"
  cf_custom_beneficiary :: "address option"
  cf_prove_mode :: "prove_kind option"
  cf_opcode_tracking :: bool

definition config_mainnet :: config where
  "config_mainnet = \<lparr>cf_chain = 1, cf_genesis = Mainnet, cf_rpc_url = None, cf_debug_rpc_url = None,
     cf_cache_dir = None, cf_custom_beneficiary = None, cf_prove_mode = None, cf_opcode_tracking = False\<rparr>"

text \<open>
  \<open>'p\<close> is the provider, \<open>'h\<close> the host executor. \<open>fx_pk\<close> and \<open>fx_vk\<close> are the keys of the setup.
\<close>

record ('p, 'h, 'pk, 'vk) full_executor =
  fx_provider :: 'p
  fx_debug_provider :: 'p
  fx_host_executor :: 'h
  fx_pk :: 'pk
  fx_vk :: 'vk
  fx_config :: config

record ('pk, 'vk) cached_executor =
  cx_cache_dir :: string
  cx_chain_id :: u64
  cx_pk :: 'pk
  cx_vk :: 'vk
  cx_prove_mode :: "prove_kind option"

datatype ('p, 'h, 'pk, 'vk) either_executor =
    LeftFull "('p, 'h, 'pk, 'vk) full_executor"
  | RightCached "('pk, 'vk) cached_executor"

text \<open>\<open>OnceLock::set\<close> fails when the cell has a value, and the failure is unwrapped.\<close>

definition set_elf_id :: "string \<Rightarrow> ('body, unit) io" where
  "set_elf_id elf_id = (\<lambda>w. case w_elf_id w of
     None \<Rightarrow> (Ok (), w\<lparr>w_elf_id := Some elf_id\<rparr>) | Some _ \<Rightarrow> (Panic, w))"

definition full_try_new ::
  "('pk, 'vk, 'body) prover_ext \<Rightarrow> (genesis \<Rightarrow> (string, 'h) res) \<Rightarrow> 'p \<Rightarrow> 'p \<Rightarrow> bytes \<Rightarrow> config \<Rightarrow>
   ('body, ('p, 'h, 'pk, 'vk) full_executor) io" where
  "full_try_new P host_of provider debug_provider elf config =
     io_bind (io_lift (joined (pe_message P) (pe_setup P elf))) (\<lambda>(pk, vk).
     io_bind (set_elf_id (pe_elf_digest P (pe_elf P pk))) (\<lambda>_.
     io_bind (io_lift (host_of (cf_genesis config))) (\<lambda>host.
       io_lift (Ok \<lparr>fx_provider = provider, fx_debug_provider = debug_provider, fx_host_executor = host,
         fx_pk = pk, fx_vk = vk, fx_config = config\<rparr>))))"

definition cached_try_new ::
  "('pk, 'vk, 'body) prover_ext \<Rightarrow> bytes \<Rightarrow> string \<Rightarrow> u64 \<Rightarrow> prove_kind option \<Rightarrow>
   ('body, ('pk, 'vk) cached_executor) io" where
  "cached_try_new P elf cache_dir chain_id prove_mode =
     io_bind (io_lift (joined (pe_message P) (pe_setup P elf))) (\<lambda>(pk, vk).
       io_lift (Ok \<lparr>cx_cache_dir = cache_dir, cx_chain_id = chain_id, cx_pk = pk, cx_vk = vk, cx_prove_mode = prove_mode\<rparr>))"

definition build_executor ::
  "('pk, 'vk, 'body) prover_ext \<Rightarrow> (genesis \<Rightarrow> (string, 'h) res) \<Rightarrow> bytes \<Rightarrow> 'p option \<Rightarrow> 'p option \<Rightarrow> config \<Rightarrow>
   ('body, ('p, 'h, 'pk, 'vk) either_executor) io" where
  "build_executor P host_of elf provider debug_provider config =
     (case provider of
        Some provider \<Rightarrow>
          let debug_provider = (case debug_provider of Some d \<Rightarrow> d | None \<Rightarrow> provider)
          in io_bind (full_try_new P host_of provider debug_provider elf config) (\<lambda>x. io_lift (Ok (LeftFull x)))
      | None \<Rightarrow>
          (case cf_cache_dir config of
             Some cache_dir \<Rightarrow>
               io_bind (cached_try_new P elf cache_dir (cf_chain config) (cf_prove_mode config))
                 (\<lambda>x. io_lift (Ok (RightCached x)))
           | None \<Rightarrow> io_lift (Err ''Either a RPC URL or a cache dir must be provided'')))"

text \<open>
  The cache lookup of the full executor: without a cache folder there is none, and a failure to
  load is only logged.
\<close>

definition cached_input ::
  "('pk, 'vk, 'body) prover_ext \<Rightarrow> config \<Rightarrow> u64 \<Rightarrow> 'body world \<Rightarrow> 'body client_input option" where
  "cached_input P config block_number w =
     Option.bind (cf_cache_dir config) (\<lambda>cache_dir.
       case fst (try_load_input_from_cache P cache_dir (cf_chain config) block_number w) of
         Ok client_input \<Rightarrow> client_input
       | _ \<Rightarrow> None)"

type_synonym ('p, 'h, 'body) host_call =
  "'h \<Rightarrow> 'p \<Rightarrow> 'p \<Rightarrow> u64 \<Rightarrow> genesis \<Rightarrow> address option \<Rightarrow> bool \<Rightarrow> (string, 'body client_input) res"

definition obtain_input ::
  "('pk, 'vk, 'body) prover_ext \<Rightarrow> ('p, 'h, 'body) host_call \<Rightarrow> ('p, 'h, 'pk, 'vk) full_executor \<Rightarrow> u64 \<Rightarrow>
   ('body, 'body client_input) io" where
  "obtain_input P host self block_number = (\<lambda>w.
     let config = fx_config self in
     case cached_input P config block_number w of
       Some client_input \<Rightarrow> (Ok (client_input\<lparr>opcode_tracking := cf_opcode_tracking config\<rparr>), w)
     | None \<Rightarrow>
         io_bind (io_lift (host (fx_host_executor self) (fx_provider self) (fx_debug_provider self) block_number
             (cf_genesis config) (cf_custom_beneficiary config) (cf_opcode_tracking config))) (\<lambda>client_input.
         io_bind (case cf_cache_dir config of
             Some cache_dir \<Rightarrow> store_input_in_cache P cache_dir (cf_chain config) block_number client_input
           | None \<Rightarrow> io_lift (Ok ())) (\<lambda>_.
           io_lift (Ok client_input))) w)"

definition full_execute ::
  "('pk, 'vk, 'body) prover_ext \<Rightarrow> ('p, 'h, 'body) host_call \<Rightarrow> ('p, 'h, 'pk, 'vk) full_executor \<Rightarrow> u64 \<Rightarrow>
   ('body, unit) io" where
  "full_execute P host self block_number =
     io_bind (call_hook P (ExecutionStart block_number)) (\<lambda>_.
     io_bind (obtain_input P host self block_number) (\<lambda>client_input.
       process_client P (fx_pk self) client_input (cf_prove_mode (fx_config self))))"

definition cached_execute ::
  "('pk, 'vk, 'body) prover_ext \<Rightarrow> ('pk, 'vk) cached_executor \<Rightarrow> u64 \<Rightarrow> ('body, unit) io" where
  "cached_execute P self block_number =
     io_bind (try_load_input_from_cache P (cx_cache_dir self) (cx_chain_id self) block_number) (\<lambda>client_input.
     io_bind (io_lift (ok_or ''No cached input found'' client_input)) (\<lambda>client_input.
       process_client P (cx_pk self) client_input (cx_prove_mode self)))"

fun either_execute where
  "either_execute P host (LeftFull executor) n = full_execute P host executor n"
| "either_execute P host (RightCached executor) n = cached_execute P executor n"

fun either_pk :: "('p, 'h, 'pk, 'vk) either_executor \<Rightarrow> 'pk" where
  "either_pk (LeftFull executor) = fx_pk executor"
| "either_pk (RightCached executor) = cx_pk executor"

fun either_vk :: "('p, 'h, 'pk, 'vk) either_executor \<Rightarrow> 'vk" where
  "either_vk (LeftFull executor) = fx_vk executor"
| "either_vk (RightCached executor) = cx_vk executor"

section \<open>Computations\<close>

lemma io_bind_Ok:
  "io_bind m f w = (Ok y, w'') \<longleftrightarrow> (\<exists>x w'. m w = (Ok x, w') \<and> f x w' = (Ok y, w''))"
  by (auto simp: io_bind_def split: prod.splits res.splits)

lemma io_lift_Ok [simp]: "io_lift r w = (Ok y, w') \<longleftrightarrow> r = Ok y \<and> w' = w"
  by (auto simp: io_lift_def)

lemma call_hook_Ok [simp]: "call_hook P e w = (Ok u, w') \<longleftrightarrow>
    pe_hook P e = Ok u \<and> w' = w\<lparr>w_events := w_events w @ [e]\<rparr>"
  by (auto simp: call_hook_def)

lemma io_bind_hook: "io_bind (call_hook P e) f w =
    (let w' = w\<lparr>w_events := w_events w @ [e]\<rparr> in
     case pe_hook P e of Ok u \<Rightarrow> f u w' | Err err \<Rightarrow> (Err err, w') | Panic \<Rightarrow> (Panic, w'))"
  by (simp add: io_bind_def call_hook_def Let_def split: res.split)

lemma joined_Ok [simp]: "joined m r = Ok x \<longleftrightarrow> r = Ok x"
  by (cases r) (auto simp: joined_def)

lemma read_elf_Ok [simp]: "((unwrap_opt (w_elf_id w) :: (string, string) res), w) = (Ok e, w') \<longleftrightarrow> w_elf_id w = Some e \<and> w' = w"
  by (auto simp: unwrap_opt_eq_Ok)

lemmas io_simps = io_bind_Ok unwrap_opt_eq_Ok

text \<open>The numbers of the \<open>ExecutionStart\<close> hooks.\<close>

fun starts :: "'body hook_event list \<Rightarrow> u64 list" where
  "starts [] = []"
| "starts (ExecutionStart n # es) = n # starts es"
| "starts (e # es) = starts es"

lemma starts_append [simp]: "starts (xs @ ys) = starts xs @ starts ys"
  by (induction xs rule: starts.induct) simp_all

section \<open>What a computation keeps\<close>

text \<open>
  A part \<open>f\<close> of the world that a computation leaves as it is, on every path. The rules follow the
  structure of the computations.
\<close>

definition keeps :: "('body world \<Rightarrow> 'c) \<Rightarrow> ('body, 'a) io \<Rightarrow> bool" where
  "keeps f m \<longleftrightarrow> (\<forall>w. f (snd (m w)) = f w)"

named_theorems keeps_intros

lemma keeps_bind [keeps_intros]: "keeps f m \<Longrightarrow> (\<And>x. keeps f (g x)) \<Longrightarrow> keeps f (io_bind m g)"
  unfolding keeps_def io_bind_def by (auto split: prod.split res.split) (metis snd_conv)+

lemma keeps_lift [keeps_intros]: "keeps f (io_lift r)"
  by (simp add: keeps_def io_lift_def)

lemma keeps_read [keeps_intros]: "keeps f (\<lambda>w. (g w, w))"
  by (simp add: keeps_def)

lemma keeps_load [keeps_intros]: "keeps f (try_load_input_from_cache P dir c n)"
  by (auto simp: keeps_def try_load_input_from_cache_def split: option.split)

lemma keeps_hook [keeps_intros]: "(\<And>w. f (w\<lparr>w_events := w_events w @ [e]\<rparr>) = f w) \<Longrightarrow> keeps f (call_hook P e)"
  by (simp add: keeps_def call_hook_def)

lemma keeps_log [keeps_intros]: "(\<And>w hs. f (w\<lparr>w_hashes := hs\<rparr>) = f w) \<Longrightarrow> keeps f (log_hash h)"
  by (simp add: keeps_def log_hash_def)

lemma keeps_store [keeps_intros]: "(\<And>w c. f (w\<lparr>w_cache := c\<rparr>) = f w) \<Longrightarrow> keeps f (store_input_in_cache P dir c n i)"
  by (auto simp: keeps_def store_input_in_cache_def split: res.split option.split)

lemma keeps_write [keeps_intros]: "(\<And>w ds. f (w\<lparr>w_dumps := ds\<rparr>) = f w) \<Longrightarrow> keeps f (write_dump P name content)"
  by (auto simp: keeps_def write_dump_def split: res.split)

lemma keeps_dump [keeps_intros]: "(\<And>w ds. f (w\<lparr>w_dumps := ds\<rparr>) = f w) \<Longrightarrow> keeps f (zkm_dump P elf stdin n)"
  by (auto simp: zkm_dump_def intro!: keeps_intros)

lemma keeps_process [keeps_intros]:
  assumes "\<And>w e. starts [e] = [] \<Longrightarrow> f (w\<lparr>w_events := w_events w @ [e]\<rparr>) = f w"
    and "\<And>w hs. f (w\<lparr>w_hashes := hs\<rparr>) = f w" and "\<And>w ds. f (w\<lparr>w_dumps := ds\<rparr>) = f w"
  shows "keeps f (process_client P pk i mode)"
  unfolding process_client_def Let_def using assms
  by (intro keeps_intros) (auto split: option.split prod.split intro!: keeps_intros)

lemma keeps_obtain [keeps_intros]:
  assumes "\<And>w c. f (w\<lparr>w_cache := c\<rparr>) = f w"
  shows "keeps f (obtain_input P host self n)"
proof -
  have "keeps f (io_bind (io_lift (host (fx_host_executor self) (fx_provider self) (fx_debug_provider self) n
      (cf_genesis (fx_config self)) (cf_custom_beneficiary (fx_config self)) (cf_opcode_tracking (fx_config self))))
    (\<lambda>i. io_bind (case cf_cache_dir (fx_config self) of
        Some dir \<Rightarrow> store_input_in_cache P dir (cf_chain (fx_config self)) n i | None \<Rightarrow> io_lift (Ok ()))
      (\<lambda>_. io_lift (Ok i))))"
    using assms by (auto intro!: keeps_intros split: option.split)
  then show ?thesis by (auto simp: keeps_def obtain_input_def Let_def split: option.split)
qed

lemma keeps_full_execute [keeps_intros]:
  assumes "\<And>w es. f (w\<lparr>w_events := es\<rparr>) = f w" and "\<And>w c. f (w\<lparr>w_cache := c\<rparr>) = f w"
    and "\<And>w hs. f (w\<lparr>w_hashes := hs\<rparr>) = f w" and "\<And>w ds. f (w\<lparr>w_dumps := ds\<rparr>) = f w"
  shows "keeps f (full_execute P host self n)"
  unfolding full_execute_def using assms by (intro keeps_intros) auto

lemma keeps_cached_execute [keeps_intros]:
  assumes "\<And>w es. f (w\<lparr>w_events := es\<rparr>) = f w"
    and "\<And>w hs. f (w\<lparr>w_hashes := hs\<rparr>) = f w" and "\<And>w ds. f (w\<lparr>w_dumps := ds\<rparr>) = f w"
  shows "keeps f (cached_execute P self n)"
  unfolding cached_execute_def using assms by (intro keeps_intros) auto

lemma keeps_cached_try_new [keeps_intros]: "keeps f (cached_try_new P elf dir c mode)"
  unfolding cached_try_new_def by (intro keeps_intros) (auto intro!: keeps_intros split: prod.split)

lemma keepsD: "keeps f m \<Longrightarrow> m w = (r, w') \<Longrightarrow> f w' = f w"
  unfolding keeps_def by (metis snd_conv)

section \<open>What a successful run has done\<close>

text \<open>The hook calls of \<open>process_client\<close> and the hashes it logs.\<close>

definition processed ::
  "('pk, 'vk, 'body) prover_ext \<Rightarrow> 'pk \<Rightarrow> string option \<Rightarrow> 'body client_input \<Rightarrow> prove_kind option \<Rightarrow>
   'body hook_event list \<Rightarrow> b256 list \<Rightarrow> bool" where
  "processed P pk elf_id client_input prove_mode events hashes \<longleftrightarrow>
     (let number = hd_number (bl_header (current_block client_input)) in
      \<exists>stdin. pe_serialize P client_input = Some stdin \<and>
      (case prove_mode of
         Some mode \<Rightarrow> \<exists>e proof. elf_id = Some e \<and> pe_prove P pk stdin mode (Some e) = Ok proof \<and> hashes = [] \<and>
           events = [ProvingStart number, ProvingEnd number (po_proof proof) (po_public_values proof)
             (po_zkm_version proof) (po_cycles proof)]
       | None \<Rightarrow> \<exists>public_values report h. pe_execute P (pe_elf P pk) stdin = Ok (public_values, report) \<and>
           pe_read_b256 P public_values = Some h \<and> hashes = [h] \<and>
           events = [ExecutionEnd (current_block client_input) report]))"

text \<open>The dump writes its two files, and nothing else of the world changes.\<close>

lemma write_dump_Ok: "write_dump P name content w = (Ok u, w') \<longleftrightarrow>
    pe_write P name = Ok () \<and> w' = w\<lparr>w_dumps := w_dumps w @ [(name, content)]\<rparr>"
  by (cases "pe_write P name") (auto simp: write_dump_def)

lemma zkm_dump_ok:
  "zkm_dump P elf stdin n w = (Ok u, w') \<Longrightarrow> \<exists>files. w' = w\<lparr>w_dumps := w_dumps w @ files\<rparr> \<and>
    (if dump_enabled (pe_zkm_dump P) then \<exists>content. pe_stdin_bytes P stdin = Some content \<and>
       files = [(''program.bin'', elf), (decimal (unat n) @ ''-stdin.bin'', content)] else files = [])"
  by (auto simp: zkm_dump_def write_dump_Ok io_simps split: if_splits)

lemma process_client_ok:
  assumes "process_client P pk client_input prove_mode w = (Ok u, w')"
  obtains events hashes where "processed P pk (w_elf_id w) client_input prove_mode events hashes"
    "w_events w' = w_events w @ events" "w_hashes w' = w_hashes w @ hashes"
    "w_elf_id w' = w_elf_id w" "w_cache w' = w_cache w"
proof (cases prove_mode)
  case None
  define number where "number = hd_number (bl_header (current_block client_input))"
  obtain stdin public_values report h w1 where
    "pe_serialize P client_input = Some stdin" "pe_execute P (pe_elf P pk) stdin = Ok (public_values, report)"
    "pe_read_b256 P public_values = Some h" and d: "zkm_dump P (pe_elf P pk) stdin number w = (Ok (), w1)"
    and w': "w' = w1\<lparr>w_hashes := w_hashes w1 @ [h],
      w_events := w_events w1 @ [ExecutionEnd (current_block client_input) report]\<rparr>"
    using assms None
    by (auto simp: process_client_def Let_def execute_client_def io_simps number_def log_hash_def)
  then show thesis using that [of "[ExecutionEnd (current_block client_input) report]" "[h]"] None zkm_dump_ok [OF d]
    by (auto simp: processed_def Let_def)
next
  case (Some mode)
  define number where "number = hd_number (bl_header (current_block client_input))"
  obtain stdin e pout where
    "pe_serialize P client_input = Some stdin" "w_elf_id w = Some e" "pe_prove P pk stdin mode (Some e) = Ok pout"
    "w' = w\<lparr>w_events := w_events w @ [ProvingStart number, ProvingEnd number (po_proof pout)
      (po_public_values pout) (po_zkm_version pout) (po_cycles pout)]\<rparr>"
    using assms Some by (auto simp: process_client_def Let_def prove_client_def io_simps number_def)
  then show thesis using that [of _ "[]"] Some by (auto simp: processed_def Let_def number_def)
qed

text \<open>An input comes from the cache or from the host, and obtaining it makes no hook call.\<close>

lemma obtain_input_ok:
  assumes "obtain_input P host self n w = (Ok client_input, w')"
  shows "w_events w' = w_events w" "w_hashes w' = w_hashes w" "w_elf_id w' = w_elf_id w"
  by (rule keepsD [OF keeps_obtain assms]; simp)+

lemma obtain_input_source:
  assumes "obtain_input P host self n w = (Ok i, w')"
  shows "(\<exists>j. cached_input P (fx_config self) n w = Some j \<and>
      i = j\<lparr>opcode_tracking := cf_opcode_tracking (fx_config self)\<rparr>) \<or>
    host (fx_host_executor self) (fx_provider self) (fx_debug_provider self) n (cf_genesis (fx_config self))
      (cf_custom_beneficiary (fx_config self)) (cf_opcode_tracking (fx_config self)) = Ok i"
  using assms by (auto simp: obtain_input_def Let_def io_simps split: option.splits)

lemma full_execute_source:
  assumes "full_execute P host self n w = (Ok u, w')"
  obtains i w1 events hashes where
    "obtain_input P host self n (w\<lparr>w_events := w_events w @ [ExecutionStart n]\<rparr>) = (Ok i, w1)"
    "processed P (fx_pk self) (w_elf_id w) i (cf_prove_mode (fx_config self)) events hashes"
    "w_events w' = w_events w @ ExecutionStart n # events" "w_hashes w' = w_hashes w @ hashes"
proof -
  obtain i w1 where
    o: "obtain_input P host self n (w\<lparr>w_events := w_events w @ [ExecutionStart n]\<rparr>) = (Ok i, w1)"
    "process_client P (fx_pk self) i (cf_prove_mode (fx_config self)) w1 = (Ok u, w')"
    using assms by (auto simp: full_execute_def io_simps)
  show thesis
  proof (rule process_client_ok [OF o(2)])
    fix events hashes
    assume "processed P (fx_pk self) (w_elf_id w1) i (cf_prove_mode (fx_config self)) events hashes"
      "w_events w' = w_events w1 @ events" "w_hashes w' = w_hashes w1 @ hashes"
    then show thesis using that o(1) obtain_input_ok [OF o(1)] by simp
  qed
qed

section \<open>The cache\<close>

text \<open>
  \<open>==\<close> on states and on inputs: the cached references are not compared, and neither are they
  serialised (\<open>#[serde(skip)]\<close>), so that an input that is read back is equal in this sense only.
\<close>

definition same_state :: "ethereum_state \<Rightarrow> ethereum_state \<Rightarrow> bool" where
  "same_state s t \<longleftrightarrow> mpt_eq (state_trie s) (state_trie t) \<and>
     (\<forall>k. map_option erase (hm_get (storage_tries s) k) = map_option erase (hm_get (storage_tries t) k))"

definition same_input :: "'body client_input \<Rightarrow> 'body client_input \<Rightarrow> bool" where
  "same_input i j \<longleftrightarrow> j = i\<lparr>parent_state := parent_state j\<rparr> \<and> same_state (parent_state i) (parent_state j)"

lemma same_state_refl [simp]: "same_state s s"
  by (simp add: same_state_def mpt_eq_def)

lemma same_input_refl [simp]: "same_input i i"
  by (simp add: same_input_def)

lemma same_inputD:
  assumes "same_input i j"
  shows "current_block j = current_block i" "ancestor_headers j = ancestor_headers i" "input_genesis j = input_genesis i"
    "same_state (parent_state i) (parent_state j)"
proof -
  have j: "j = i\<lparr>parent_state := parent_state j\<rparr>" and "same_state (parent_state i) (parent_state j)"
    using assms unfolding same_input_def by blast+
  then show "same_state (parent_state i) (parent_state j)" by blast
  show "current_block j = current_block i" "ancestor_headers j = ancestor_headers i" "input_genesis j = input_genesis i"
    by (subst j, simp)+
qed

lemma obtain_input_stores:
  assumes "obtain_input P host self n w = (Ok i, w')" and "cf_cache_dir (fx_config self) = Some dir"
    and "cached_input P (fx_config self) n w = None"
  shows "\<exists>stored. pe_serialize P i = Some stored \<and>
    w' = w\<lparr>w_cache := (w_cache w)((dir, cf_chain (fx_config self), n) \<mapsto> stored)\<rparr>"
  using assms by (auto simp: obtain_input_def Let_def io_simps store_input_in_cache_def split: res.splits option.splits)

lemma cache_hit:
  assumes "w_cache w (dir, c, n) = Some stored" and "pe_open P (dir, c, n) = Ok ()" and "pe_deserialize P stored = Some i"
  shows "try_load_input_from_cache P dir c n w = (Ok (Some i), w)"
  using assms by (simp add: try_load_input_from_cache_def)

lemma obtain_input_hit:
  assumes "try_load_input_from_cache P dir (cf_chain (fx_config self)) n w = (Ok (Some i), w)"
    and "cf_cache_dir (fx_config self) = Some dir"
  shows "obtain_input P host self n w = (Ok (i\<lparr>opcode_tracking := cf_opcode_tracking (fx_config self)\<rparr>), w)"
  using assms by (simp add: obtain_input_def cached_input_def Let_def)

lemma cached_input_events: "cached_input P config n (w\<lparr>w_events := es\<rparr>) = cached_input P config n w"
  by (cases "cf_cache_dir config") (auto simp: cached_input_def try_load_input_from_cache_def split: option.split)

section \<open>\<open>ELF_ID\<close>\<close>

text \<open>Only the full executor's setup writes \<open>ELF_ID\<close>, and proving from the cache reads it.\<close>

lemma keeps_elf_id:
  "keeps w_elf_id (cached_try_new P elf dir c mode)" "keeps w_elf_id (full_execute P host self n)"
  "keeps w_elf_id (cached_execute P cached n)"
  by (intro keeps_intros; simp)+

lemma full_try_new_twice:
  assumes "w_elf_id w \<noteq> None"
  shows "full_try_new P host_of provider debug_provider elf config w =
    ((case joined (pe_message P) (pe_setup P elf) of Err e \<Rightarrow> Err e | _ \<Rightarrow> Panic), w)"
  using assms
  by (cases "pe_setup P elf") (auto simp: full_try_new_def io_bind_def io_lift_def joined_def set_elf_id_def split: prod.split)

lemma cached_execute_without_elf_id:
  assumes "try_load_input_from_cache P (cx_cache_dir x) (cx_chain_id x) n w = (Ok (Some i), w)"
    and "cx_prove_mode x = Some mode" and "w_elf_id w = None" and "pe_serialize P i \<noteq> None"
    and "pe_hook P (ProvingStart (hd_number (bl_header (current_block i)))) = Ok ()"
  shows "cached_execute P x n w =
    (Panic, w\<lparr>w_events := w_events w @ [ProvingStart (hd_number (bl_header (current_block i)))]\<rparr>)"
  using assms by (auto simp: cached_execute_def io_bind_def io_lift_def process_client_def Let_def call_hook_def)

end
