(* ===== verification/Continuous.thy ===== *)
theory Continuous
  imports Full_Executor
begin

text \<open>
  \<open>bin/continuous/src/main.rs\<close> and \<open>FullExecutor::wait_for_block\<close>: the driver that executes one
  block after the other in tasks, with a bound on the concurrent tasks and on the retries.
\<close>

section \<open>Waiting for a block\<close>

text \<open>
  \<open>poll k\<close> is the provider's answer to the \<open>k\<close>-th request: an error, or whether it has the block.
  The loop ends at the first answer that is an error or a block, and may not end at all.
  The result carries the number of requests made.
\<close>

partial_function (option) wait_for_block ::
  "(nat \<Rightarrow> (string, bool) res) \<Rightarrow> nat \<Rightarrow> ((string, unit) res \<times> nat) option" where
  "wait_for_block poll k = (case poll k of
     Ok found \<Rightarrow> if found then Some (Ok (), Suc k) else wait_for_block poll (Suc k)
   | Err e \<Rightarrow> Some (Err e, Suc k)
   | Panic \<Rightarrow> Some (Panic, Suc k))"

lemma wait_for_block_ends:
  assumes "\<And>i. i < n \<Longrightarrow> poll (k + i) = Ok False" and "poll (k + n) \<noteq> Ok False"
  shows "wait_for_block poll k = Some (map_res (\<lambda>_. ()) (poll (k + n)), Suc (k + n))"
  using assms
proof (induction n arbitrary: k)
  case 0
  then show ?case by (subst wait_for_block.simps) (auto split: res.splits)
next
  case (Suc n)
  have "poll k = Ok False" using Suc.prems(1) [of 0] by simp
  moreover have "wait_for_block poll (Suc k) = Some (map_res (\<lambda>_. ()) (poll (Suc k + n)), Suc (Suc k + n))"
    using Suc.prems Suc.prems(1) [of "Suc i" for i] by (intro Suc.IH) simp_all
  ultimately show ?case by (subst wait_for_block.simps) simp
qed

text \<open>It returns only when some answer is an error or a block.\<close>

lemma wait_for_block_Some:
  assumes "wait_for_block poll k = Some r"
  shows "\<exists>n \<ge> k. poll n \<noteq> Ok False"
proof (rule wait_for_block.raw_induct [where P = "\<lambda>poll k r. \<exists>n \<ge> k. poll n \<noteq> Ok False", OF _ assms])
  fix wait :: "(nat \<Rightarrow> (string, bool) res) \<Rightarrow> nat \<Rightarrow> ((string, unit) res \<times> nat) option" and poll k r
  assume IH: "\<And>poll k r. wait poll k = Some r \<Longrightarrow> \<exists>n \<ge> k. poll n \<noteq> Ok False"
    and r: "(case poll k of Ok found \<Rightarrow> if found then Some (Ok (), Suc k) else wait poll (Suc k)
      | Err e \<Rightarrow> Some (Err e, Suc k) | Panic \<Rightarrow> Some (Panic, Suc k)) = Some r"
  show "\<exists>n \<ge> k. poll n \<noteq> Ok False"
  proof (cases "poll k = Ok False")
    case True
    then have "wait poll (Suc k) = Some r" using r by simp
    from IH [OF this] show ?thesis using Suc_leD by blast
  qed blast
qed

lemma wait_for_block_first:
  assumes "poll n \<noteq> Ok False"
  obtains j where "\<And>i. i < j \<Longrightarrow> poll i = Ok False" "poll j \<noteq> Ok False"
    "wait_for_block poll 0 = Some (map_res (\<lambda>_. ()) (poll j), Suc j)"
proof -
  define j where "j = (LEAST j. poll j \<noteq> Ok False)"
  have j: "poll j \<noteq> Ok False" "\<And>i. i < j \<Longrightarrow> poll i = Ok False"
    unfolding j_def using LeastI [of "\<lambda>j. poll j \<noteq> Ok False", OF assms] not_less_Least by blast+
  then show thesis using that wait_for_block_ends [of j poll 0] by simp
qed

section \<open>The retry loop\<close>

text \<open>
  \<open>attempt k\<close> is the outcome of the \<open>k\<close>-th attempt. The loops of \<open>process_block\<close> give up when
  the counter is greater than the limit. The result carries the number of attempts.
\<close>

function retry_loop :: "(nat \<Rightarrow> (string, unit) res) \<Rightarrow> nat \<Rightarrow> nat \<Rightarrow> (string, unit) res \<times> nat" where
  "retry_loop attempt max_retries retry_count = (case attempt retry_count of
     Ok _ \<Rightarrow> (Ok (), Suc retry_count)
   | Err err \<Rightarrow> if retry_count > max_retries then (Err err, Suc retry_count)
       else retry_loop attempt max_retries (Suc retry_count)
   | Panic \<Rightarrow> (Panic, Suc retry_count))"
  by pat_completeness auto

termination by (relation "measure (\<lambda>(_, m, k). m + 2 - k)") auto

declare retry_loop.simps [simp del]

text \<open>
  \<open>process_block\<close>: \<open>wait\<close> and \<open>run\<close> are the outcomes of the attempts to wait for the block and to
  execute it.
\<close>

definition process_block ::
  "(nat \<Rightarrow> (string, unit) res) \<Rightarrow> (nat \<Rightarrow> (string, unit) res) \<Rightarrow> nat \<Rightarrow> (string, unit) res" where
  "process_block wait run max_retries =
     (case fst (retry_loop wait max_retries 0) of
        Ok _ \<Rightarrow> fst (retry_loop run max_retries 0)
      | r \<Rightarrow> r)"

text \<open>The first attempt that does not fail, or the limit, ends the loop.\<close>

lemma retry_loop_result:
  assumes "k \<le> j" and "j \<le> Suc m" and "\<And>i. k \<le> i \<Longrightarrow> i < j \<Longrightarrow> \<exists>e. attempt i = Err e"
    and "(\<forall>e. attempt j \<noteq> Err e) \<or> j = Suc m"
  shows "retry_loop attempt m k = (attempt j, Suc j)"
  using assms
proof (induction "j - k" arbitrary: k)
  case 0
  then have "k = j" by simp
  then show ?case using 0 by (subst retry_loop.simps) (auto split: res.splits)
next
  case (Suc d)
  then have "k < j" by simp
  then obtain e where "attempt k = Err e" using Suc.prems(3) by blast
  moreover have "retry_loop attempt m (Suc k) = (attempt j, Suc j)"
    using Suc.prems \<open>k < j\<close> Suc.hyps(2) by (intro Suc.hyps(1)) auto
  ultimately show ?case using \<open>k < j\<close> Suc.prems(2) by (subst retry_loop.simps) auto
qed

lemma retry_loop_cases:
  obtains j where "j \<le> Suc m" "\<And>i. i < j \<Longrightarrow> \<exists>e. attempt i = Err e"
    "(\<forall>e. attempt j \<noteq> Err e) \<or> j = Suc m" "retry_loop attempt m 0 = (attempt j, Suc j)"
proof -
  define P where "P j \<longleftrightarrow> (\<forall>e. attempt j \<noteq> Err e) \<or> j = Suc m" for j
  have "P (Suc m)" by (simp add: P_def)
  define j where "j = (LEAST j. P j)"
  have j: "P j" "j \<le> Suc m" "\<And>i. i < j \<Longrightarrow> \<not> P i"
    unfolding j_def using LeastI [of P, OF \<open>P (Suc m)\<close>] Least_le [of P, OF \<open>P (Suc m)\<close>] not_less_Least by blast+
  then have "\<exists>e. attempt i = Err e" if "i < j" for i using that by (auto simp: P_def)
  then show thesis using that j(1,2) retry_loop_result [of 0 j m attempt] by (auto simp: P_def)
qed

lemma retry_loop_Ok:
  "(fst (retry_loop f m 0) = Ok ()) = (\<exists>j \<le> Suc m. f j = Ok () \<and> (\<forall>i < j. \<exists>e. f i = Err e))"
proof
  show "\<exists>j \<le> Suc m. f j = Ok () \<and> (\<forall>i < j. \<exists>e. f i = Err e)" if "fst (retry_loop f m 0) = Ok ()"
    by (rule retry_loop_cases [of m f]) (use that in auto)
  show "fst (retry_loop f m 0) = Ok ()" if "\<exists>j \<le> Suc m. f j = Ok () \<and> (\<forall>i < j. \<exists>e. f i = Err e)"
    using that retry_loop_result [of 0 _ m f] by auto
qed

lemma process_block_Ok:
  "(process_block wait run m = Ok ()) = (fst (retry_loop wait m 0) = Ok () \<and> fst (retry_loop run m 0) = Ok ())"
  by (auto simp: process_block_def split: res.split)

section \<open>The main loop\<close>

text \<open>
  The state of the driver: the next block number, the blocks whose tasks are running, those that
  ended well, failed or panicked, whether the flag is set, the free permits of the semaphore, and
  the place of the main loop (before acquiring a permit, before the check of the flag, or ended by
  the panic). \<open>outcome b\<close> is the result of \<open>process_block\<close> for the block \<open>b\<close>. A failing task sets the flag
  before it gives back its permit; a panic unwinds the task, which only gives back the permit. (The
  \<open>panic = 'abort'\<close> of the binary's own manifest is in a member of a workspace, where cargo ignores
  profiles.)
\<close>

datatype main_place = Acquire | Check | Ended

record driver =
  dv_next :: nat
  dv_running :: "nat set"
  dv_failing :: "nat set"
  dv_done :: "nat set"
  dv_failed :: "nat set"
  dv_panicked :: "nat set"
  dv_flag :: bool
  dv_permits :: nat
  dv_place :: main_place

definition driver_init :: "nat \<Rightarrow> nat \<Rightarrow> driver" where
  "driver_init first max_concurrent = \<lparr>dv_next = first, dv_running = {}, dv_failing = {}, dv_done = {},
     dv_failed = {}, dv_panicked = {}, dv_flag = False, dv_permits = max_concurrent, dv_place = Acquire\<rparr>"

inductive driver_step :: "(nat \<Rightarrow> (string, unit) res) \<Rightarrow> driver \<Rightarrow> driver \<Rightarrow> bool"
  for outcome :: "nat \<Rightarrow> (string, unit) res" where
  spawn: "dv_place d = Acquire \<Longrightarrow> dv_permits d > 0 \<Longrightarrow>
    driver_step outcome d (d\<lparr>dv_permits := dv_permits d - 1, dv_running := Set.insert (dv_next d) (dv_running d),
      dv_place := Check\<rparr>)"
| check_ok: "dv_place d = Check \<Longrightarrow> \<not> dv_flag d \<Longrightarrow>
    driver_step outcome d (d\<lparr>dv_next := Suc (dv_next d), dv_place := Acquire\<rparr>)"
| check_failed: "dv_place d = Check \<Longrightarrow> dv_flag d \<Longrightarrow> driver_step outcome d (d\<lparr>dv_place := Ended\<rparr>)"
| task_ok: "dv_place d \<noteq> Ended \<Longrightarrow> b \<in> dv_running d \<Longrightarrow> outcome b = Ok () \<Longrightarrow>
    driver_step outcome d (d\<lparr>dv_running := dv_running d - {b}, dv_done := Set.insert b (dv_done d),
      dv_permits := Suc (dv_permits d)\<rparr>)"
| task_panicked: "dv_place d \<noteq> Ended \<Longrightarrow> b \<in> dv_running d \<Longrightarrow> outcome b = Panic \<Longrightarrow>
    driver_step outcome d (d\<lparr>dv_running := dv_running d - {b}, dv_panicked := Set.insert b (dv_panicked d),
      dv_permits := Suc (dv_permits d)\<rparr>)"
| task_failed: "dv_place d \<noteq> Ended \<Longrightarrow> b \<in> dv_running d \<Longrightarrow> outcome b = Err e \<Longrightarrow>
    driver_step outcome d (d\<lparr>dv_running := dv_running d - {b}, dv_failing := Set.insert b (dv_failing d), dv_flag := True\<rparr>)"
| task_drop: "dv_place d \<noteq> Ended \<Longrightarrow> b \<in> dv_failing d \<Longrightarrow>
    driver_step outcome d (d\<lparr>dv_failing := dv_failing d - {b}, dv_failed := Set.insert b (dv_failed d),
      dv_permits := Suc (dv_permits d)\<rparr>)"

inductive_cases driver_stepE: "driver_step outcome d d'"

text \<open>The blocks that were spawned: all from the first one up to the next.\<close>

definition spawned :: "driver \<Rightarrow> nat set" where
  "spawned d = dv_running d \<union> dv_failing d \<union> dv_done d \<union> dv_failed d \<union> dv_panicked d"

definition spawn_bound :: "driver \<Rightarrow> nat" where
  "spawn_bound d = (if dv_place d = Acquire then dv_next d else Suc (dv_next d))"

definition driver_inv :: "(nat \<Rightarrow> (string, unit) res) \<Rightarrow> nat \<Rightarrow> nat \<Rightarrow> driver \<Rightarrow> bool" where
  "driver_inv outcome first m d \<longleftrightarrow> first \<le> dv_next d \<and>
     finite (dv_running d) \<and> finite (dv_failing d) \<and>
     card (dv_running d) + card (dv_failing d) + dv_permits d = m \<and>
     spawned d = {first..<spawn_bound d} \<and>
     dv_running d \<inter> dv_failing d = {} \<and>
     (dv_running d \<union> dv_failing d) \<inter> (dv_done d \<union> dv_failed d \<union> dv_panicked d) = {} \<and>
     (\<forall>b \<in> dv_done d. outcome b = Ok ()) \<and> (\<forall>b \<in> dv_panicked d. outcome b = Panic) \<and>
     (\<forall>b \<in> dv_failing d \<union> dv_failed d. \<exists>e. outcome b = Err e) \<and>
     (dv_flag d \<longleftrightarrow> dv_failing d \<union> dv_failed d \<noteq> {})"

lemma driver_inv_init: "driver_inv outcome first m (driver_init first m)"
  by (auto simp: driver_inv_def driver_init_def spawned_def spawn_bound_def)

lemma driver_inv_step:
  assumes "driver_step outcome d d'" and "driver_inv outcome first m d"
  shows "driver_inv outcome first m d'"
  using assms(1)
proof cases
  case spawn
  then have "dv_next d \<notin> spawned d" using assms(2) by (auto simp: driver_inv_def spawn_bound_def)
  moreover have "{first..<Suc (dv_next d)} = Set.insert (dv_next d) {first..<dv_next d}"
    using assms(2) by (auto simp: driver_inv_def)
  ultimately show ?thesis using assms(2) spawn
    by (auto simp: driver_inv_def spawned_def spawn_bound_def)
next
  case check_ok
  then show ?thesis using assms(2) by (auto simp: driver_inv_def spawned_def spawn_bound_def)
next
  case check_failed
  then show ?thesis using assms(2) by (auto simp: driver_inv_def spawned_def spawn_bound_def)
next
  case (task_ok b)
  then have "0 < card (dv_running d)"
    using assms(2) by (auto simp: driver_inv_def card_gt_0_iff)
  moreover have "spawned d' = spawned d" using task_ok by (auto simp: spawned_def)
  moreover have "spawn_bound d' = spawn_bound d" using task_ok by (simp add: spawn_bound_def)
  ultimately show ?thesis using assms(2) task_ok by (auto simp: driver_inv_def)
next
  case (task_panicked b)
  then have "0 < card (dv_running d)"
    using assms(2) by (auto simp: driver_inv_def card_gt_0_iff)
  moreover have "spawned d' = spawned d" using task_panicked by (auto simp: spawned_def)
  moreover have "spawn_bound d' = spawn_bound d" using task_panicked by (simp add: spawn_bound_def)
  ultimately show ?thesis using assms(2) task_panicked by (auto simp: driver_inv_def)
next
  case (task_failed b e)
  then have "0 < card (dv_running d)" "b \<notin> dv_failing d"
    using assms(2) by (auto simp: driver_inv_def card_gt_0_iff)
  moreover have "spawned d' = spawned d" using task_failed by (auto simp: spawned_def)
  moreover have "spawn_bound d' = spawn_bound d" using task_failed by (simp add: spawn_bound_def)
  ultimately show ?thesis using assms(2) task_failed by (auto simp: driver_inv_def)
next
  case (task_drop b)
  then have "0 < card (dv_failing d)"
    using assms(2) by (auto simp: driver_inv_def card_gt_0_iff)
  moreover have "spawned d' = spawned d" using task_drop by (auto simp: spawned_def)
  moreover have "spawn_bound d' = spawn_bound d" using task_drop by (simp add: spawn_bound_def)
  ultimately show ?thesis using assms(2) task_drop by (auto simp: driver_inv_def)
qed

lemma driver_inv_reachable:
  "(driver_step outcome)\<^sup>*\<^sup>* (driver_init first m) d \<Longrightarrow> driver_inv outcome first m d"
  by (induction rule: rtranclp_induct) (auto intro: driver_inv_init driver_inv_step)

text \<open>
  Once the flag is set, the number of the next block stays: at most the block with that number is
  spawned, and the next check ends the loop.
\<close>

lemma flag_step:
  assumes "driver_step outcome d d'" and "dv_flag d"
  shows "dv_flag d' \<and> dv_next d' = dv_next d"
  using assms by cases auto

lemma flag_reachable:
  "(driver_step outcome)\<^sup>*\<^sup>* d d' \<Longrightarrow> dv_flag d \<Longrightarrow> dv_flag d' \<and> dv_next d' = dv_next d"
  by (induction rule: rtranclp_induct) (auto dest: flag_step)

lemma spawned_after_flag:
  assumes "driver_inv outcome first m d" and "(driver_step outcome)\<^sup>*\<^sup>* d d'" and "dv_flag d"
  shows "spawned d' \<subseteq> Set.insert (dv_next d) (spawned d)"
proof -
  have "driver_inv outcome first m d'"
    using assms(2,1) by (induction rule: rtranclp_induct) (auto intro: driver_inv_step)
  then have "spawned d' = {first..<spawn_bound d'}" "dv_next d' = dv_next d"
    using flag_reachable [OF assms(2,3)] by (simp_all add: driver_inv_def)
  moreover have "spawned d = {first..<spawn_bound d}" using assms(1) by (simp add: driver_inv_def)
  ultimately show ?thesis by (auto simp: spawn_bound_def split: if_splits)
qed

text \<open>
  It can always come to that: a task in progress can end and give back its permit, so that the main
  loop reaches the check. (Without any permit the loop hangs from the start.)
\<close>

lemma running_ends:
  assumes "b \<in> dv_running d" and "dv_place d = Acquire" and "\<forall>e. outcome b \<noteq> Err e"
  shows "\<exists>d'. driver_step outcome d d' \<and> dv_permits d' > 0 \<and> dv_place d' = Acquire"
proof (cases "outcome b = Panic")
  case True
  show ?thesis by (intro exI conjI, rule driver_step.task_panicked [of d b]) (use assms(1,2) True in simp_all)
next
  case False
  then have ok: "outcome b = Ok ()" using assms(3) by (cases "outcome b") auto
  show ?thesis by (intro exI conjI, rule driver_step.task_ok [of d b]) (use assms(1,2) ok in simp_all)
qed

lemma failing_ends:
  assumes "b \<in> dv_failing d" and "dv_place d = Acquire"
  shows "\<exists>d'. driver_step outcome d d' \<and> dv_permits d' > 0 \<and> dv_place d' = Acquire"
  by (intro exI conjI, rule driver_step.task_drop [of d b]) (use assms in simp_all)

lemma free_permit:
  assumes "driver_inv outcome first m d" and "0 < m" and "dv_place d = Acquire"
  shows "\<exists>d'. (driver_step outcome)\<^sup>*\<^sup>* d d' \<and> dv_permits d' > 0 \<and> dv_place d' = Acquire"
proof (cases "dv_permits d > 0")
  case False
  then have "dv_running d \<noteq> {} \<or> dv_failing d \<noteq> {}"
    using assms(1,2) by (auto simp: driver_inv_def)
  then consider b where "b \<in> dv_failing d" | b where "b \<in> dv_running d" "\<forall>e. outcome b \<noteq> Err e"
    | b e where "b \<in> dv_running d" "outcome b = Err e" by blast
  then show ?thesis
  proof cases
    case 1
    then show ?thesis using failing_ends [of _ d outcome] assms(3) by blast
  next
    case 2
    then show ?thesis using running_ends [of _ d outcome] assms(3) by blast
  next
    case (3 b e)
    let ?e = "d\<lparr>dv_running := dv_running d - {b}, dv_failing := Set.insert b (dv_failing d), dv_flag := True\<rparr>"
    have "driver_step outcome d ?e" using driver_step.task_failed [of d b outcome e] 3 assms(3) by simp
    moreover obtain d' where "driver_step outcome ?e d'" "dv_permits d' > 0" "dv_place d' = Acquire"
      using failing_ends [of b ?e outcome] assms(3) by auto
    ultimately show ?thesis by (meson converse_rtranclp_into_rtranclp r_into_rtranclp)
  qed
qed (use assms(3) in blast)

lemma can_end:
  assumes "driver_inv outcome first m d" and "0 < m" and "dv_flag d"
  shows "\<exists>d'. (driver_step outcome)\<^sup>*\<^sup>* d d' \<and> dv_place d' = Ended"
proof -
  have check: "\<exists>d'. driver_step outcome e d' \<and> dv_place d' = Ended" if "dv_place e = Check" "dv_flag e" for e
    using driver_step.check_failed [of e outcome] that by fastforce
  show ?thesis
  proof (cases "dv_place d")
    case Acquire
    obtain d1 where d1: "(driver_step outcome)\<^sup>*\<^sup>* d d1" "dv_permits d1 > 0" "dv_place d1 = Acquire"
      using free_permit [OF assms(1,2) Acquire] by blast
    obtain d2 where d2: "driver_step outcome d1 d2" "dv_place d2 = Check"
      using driver_step.spawn [OF d1(3,2)] by fastforce
    have "(driver_step outcome)\<^sup>*\<^sup>* d d2" using d1(1) d2(1) by simp
    moreover from this have "dv_flag d2" using flag_reachable assms(3) by blast
    ultimately show ?thesis using check [OF d2(2)] by (meson rtranclp.rtrancl_into_rtrancl)
  next
    case Check
    then show ?thesis using check [OF Check assms(3)] by blast
  qed blast
qed

end
