(* ===== verification/Report.thy ===== *)
theory Report
  imports Full_Executor
begin

text \<open>
  \<open>crates/executor/host/src/bins/persist_report_hook.rs\<close>: the hook that appends the cycle counts
  of an executed block to a CSV file, and the annotated precompiles of
  \<open>crates/executor/guest/src/custom.rs\<close> that produce some of these counts.
\<close>

section \<open>Data\<close>

definition PRECOMPILES :: "string list" where
  "PRECOMPILES = [''ecrecover'', ''sha256'', ''ripemd160'', ''identity'', ''modexp'', ''bn-add'', ''bn-mul'',
     ''bn-pair'', ''blake2f'', ''kzg-point-evaluation'']"

definition DESERIALZE_INPUTS :: string where "DESERIALZE_INPUTS = ''deserialize inputs''"
definition INIT_WITNESS_DB :: string where "INIT_WITNESS_DB = ''initialize witness db''"
definition RECOVER_SENDERS :: string where "RECOVER_SENDERS = ''recover senders''"
definition BLOCK_EXECUTION :: string where "BLOCK_EXECUTION = ''block execution''"
definition VALIDATE_EXECUTION :: string where "VALIDATE_EXECUTION = ''validate block post-execution''"
definition COMPUTE_STATE_ROOT :: string where "COMPUTE_STATE_ROOT = ''compute state root''"

text \<open>The report of the zkVM, by the fields read, and the tables of the libraries it ranges over.\<close>

record execution_report =
  xr_instructions :: nat
  xr_cycle_tracker :: "string \<Rightarrow> nat option"
  xr_syscalls :: nat
  xr_syscall_counts :: "string \<Rightarrow> nat"

record report_tables =
  rt_opcodes :: "string list"
  rt_syscalls :: "string list"

record report_hook =
  rh_chain_id :: u64
  rh_precompile_tracking :: bool
  rh_opcode_tracking :: bool

definition report_hook_new :: "u64 \<Rightarrow> bool \<Rightarrow> bool \<Rightarrow> report_hook" where
  "report_hook_new chain_id precompiles opcodes =
     \<lparr>rh_chain_id = chain_id, rh_precompile_tracking = precompiles, rh_opcode_tracking = opcodes\<rparr>"

section \<open>Header and record\<close>

definition header_fields :: "report_tables \<Rightarrow> report_hook \<Rightarrow> string list" where
  "header_fields T self =
     [''chain_id'', ''block_number'', ''gas_used'', ''tx_count''] @
     (if rh_opcode_tracking self
      then concat (map (\<lambda>x. [to_lowercase x, ''count'', ''avg'']) (rt_opcodes T))
      else [''total_cycles_count'', ''deserialize_inputs_cycles_count'', ''initialize_witness_db_cycles_count'',
            ''recover_senders_cycles_count'', ''block_execution_cycles_count'', ''block_validation_cycles_count'',
            ''accrue_logs_bloom_cycles_count'', ''state_root_computation_cycles_count'', ''syscalls_count'',
            ''prover_gas''] @
           map to_lowercase (rt_syscalls T) @
           (if rh_precompile_tracking self
            then concat (map (\<lambda>x. [x, ''count'', ''avg'']) PRECOMPILES) else []))"

definition tracked :: "execution_report \<Rightarrow> string \<Rightarrow> string" where
  "tracked report name = decimal (case xr_cycle_tracker report name of Some n \<Rightarrow> n | None \<Rightarrow> 0)"

text \<open>The count and the average are not available and written as 0.\<close>

definition add_metrics :: "string \<Rightarrow> execution_report \<Rightarrow> string list" where
  "add_metrics name report = [tracked report name, decimal 0, decimal 0]"

definition record_fields ::
  "report_tables \<Rightarrow> ('body \<Rightarrow> nat) \<Rightarrow> report_hook \<Rightarrow> 'body block \<Rightarrow> execution_report \<Rightarrow> string list" where
  "record_fields T transaction_count self block report =
     [decimal (unat (rh_chain_id self)), decimal (unat (hd_number (bl_header block))),
      decimal (unat (hd_gas_used (bl_header block))), decimal (transaction_count (bl_body block))] @
     (if rh_opcode_tracking self
      then concat (map (\<lambda>x. add_metrics (''opcode-'' @ to_lowercase x) report) (rt_opcodes T))
      else [decimal (xr_instructions report), tracked report DESERIALZE_INPUTS, tracked report INIT_WITNESS_DB,
            tracked report RECOVER_SENDERS, tracked report BLOCK_EXECUTION, tracked report VALIDATE_EXECUTION,
            tracked report COMPUTE_STATE_ROOT, decimal (xr_syscalls report), decimal 0] @
           map (\<lambda>s. decimal (xr_syscall_counts report s)) (rt_syscalls T) @
           (if rh_precompile_tracking self
            then concat (map (\<lambda>p. add_metrics (''precompile-'' @ p) report) PRECOMPILES) else []))"

section \<open>Writing\<close>

text \<open>
  The CSV writer (not flexible): the first record fixes the number of fields. A record's fields are written as one
  row of text (\<open>csv_row\<close>, with the library's separators and quotes), then their number is checked, and only then
  the row is terminated: a record with another number of fields is refused after its row was written.
\<close>

datatype report_error = ReportIo string | UnequalLengths nat nat

definition newline :: char where
  "newline = CHR 0x0A"

record csv_writer =
  cw_fields :: "nat option"
  cw_text :: string

definition write_csv ::
  "(string list \<Rightarrow> string) \<Rightarrow> string list \<Rightarrow> csv_writer \<Rightarrow> (report_error, unit) res \<times> csv_writer" where
  "write_csv csv_row row w =
     (let w = w\<lparr>cw_text := cw_text w @ csv_row row\<rparr>;
          terminated = w\<lparr>cw_fields := Some (length row), cw_text := cw_text w @ [newline]\<rparr>
      in case cw_fields w of
           Some n \<Rightarrow> if length row = n then (Ok (), terminated) else (Err (UnequalLengths n (length row)), w)
         | None \<Rightarrow> (Ok (), terminated))"

text \<open>
  \<open>on_execution_end\<close>: \<open>opened\<close> is the outcome of opening the file, which is created empty when there is none, and
  \<open>file\<close> its text. The writer is flushed at the end, and when it is dropped after an error, so that a refused
  row stays in the file without a terminator. (Writing to the open file is taken to succeed.)
\<close>

definition on_report ::
  "report_tables \<Rightarrow> ('body \<Rightarrow> nat) \<Rightarrow> (string list \<Rightarrow> string) \<Rightarrow> report_hook \<Rightarrow> 'body block \<Rightarrow> execution_report \<Rightarrow>
   (string, unit) res \<Rightarrow> string \<Rightarrow> (report_error, unit) res \<times> string" where
  "on_report T transaction_count csv_row self block report opened file =
     (case opened of
        Ok _ \<Rightarrow>
          let writer = \<lparr>cw_fields = None, cw_text = file\<rparr>;
              (header, writer) = (if file = [] then write_csv csv_row (header_fields T self) writer else (Ok (), writer));
              (result, writer) = (case header of
                  Ok _ \<Rightarrow> write_csv csv_row (record_fields T transaction_count self block report) writer
                | _ \<Rightarrow> (header, writer))
          in (result, cw_text writer)
      | Err e \<Rightarrow> (Err (ReportIo e), file)
      | Panic \<Rightarrow> (Panic, file))"

text \<open>Reports that follow each other, each of a run of its own.\<close>

fun report_all ::
  "report_tables \<Rightarrow> ('body \<Rightarrow> nat) \<Rightarrow> (string list \<Rightarrow> string) \<Rightarrow> report_hook \<Rightarrow>
   ('body block \<times> execution_report) list \<Rightarrow> string \<Rightarrow> (report_error, unit) res list \<times> string" where
  "report_all T transaction_count csv_row self [] file = ([], file)"
| "report_all T transaction_count csv_row self ((block, report) # rest) file =
     (let (result, file) = on_report T transaction_count csv_row self block report (Ok ()) file;
          (results, file) = report_all T transaction_count csv_row self rest file
      in (result # results, file))"

lemma report_appended:
  "content \<noteq> [] \<Longrightarrow> on_report T count csv_row self block report (Ok ()) content =
    (Ok (), content @ csv_row (record_fields T count self block report) @ [newline])"
  by (simp add: on_report_def write_csv_def Let_def)

lemma reports_appended:
  assumes "content \<noteq> []"
  shows "report_all T count csv_row self reports content = (map (\<lambda>_. Ok ()) reports,
    content @ concat (map (\<lambda>(block, report). csv_row (record_fields T count self block report) @ [newline]) reports))"
  using assms
proof (induction reports arbitrary: content)
  case (Cons x reports)
  then show ?case by (cases x) (simp add: report_appended Let_def)
qed simp

section \<open>The number of fields\<close>

lemma length_triples: "length (concat (map (\<lambda>x. [f x, g x, h x]) xs)) = 3 * length xs"
  by (induction xs) simp_all

lemma length_header:
  "length (header_fields T self) = 4 + (if rh_opcode_tracking self then 3 * length (rt_opcodes T)
     else 10 + length (rt_syscalls T) + (if rh_precompile_tracking self then 30 else 0))"
  unfolding header_fields_def by (simp add: length_triples PRECOMPILES_def)

lemma length_record:
  "length (record_fields T c self block report) = 4 + (if rh_opcode_tracking self then 3 * length (rt_opcodes T)
     else 9 + length (rt_syscalls T) + (if rh_precompile_tracking self then 30 else 0))"
  unfolding record_fields_def add_metrics_def by (simp add: length_triples PRECOMPILES_def)

lemma first_report:
  "on_report T count csv_row self block report (Ok ()) [] =
    (if rh_opcode_tracking self then Ok ()
     else Err (UnequalLengths (length (header_fields T self)) (length (record_fields T count self block report))),
     csv_row (header_fields T self) @ [newline] @ csv_row (record_fields T count self block report) @
       (if rh_opcode_tracking self then [newline] else []))"
  by (simp add: on_report_def write_csv_def Let_def length_header length_record)

section \<open>The profiling macros\<close>

text \<open>
  \<open>profile!\<close> and \<open>profile_report!\<close> of the guest's \<open>utils.rs\<close>, over a block that is given by its result and
  the lines it prints. In the zkVM the block becomes a closure between two lines of output, so an error
  it returns is a result like any other; a panic ends the program before the second line.
\<close>

definition bracketed :: "string \<Rightarrow> string \<Rightarrow> ('e, 'a) res \<times> string list \<Rightarrow> ('e, 'a) res \<times> string list" where
  "bracketed before after block = (let (result, lines) = block in
     (result, before # lines @ (case result of Panic \<Rightarrow> [] | _ \<Rightarrow> [after])))"

definition profile :: "bool \<Rightarrow> string \<Rightarrow> ('e, 'a) res \<times> string list \<Rightarrow> ('e, 'a) res \<times> string list" where
  "profile zkvm name block =
     (if zkvm then bracketed (''cycle-tracker-start: '' @ name) (''cycle-tracker-end: '' @ name) block else block)"

definition profile_report :: "bool \<Rightarrow> string \<Rightarrow> ('e, 'a) res \<times> string list \<Rightarrow> ('e, 'a) res \<times> string list" where
  "profile_report zkvm name block =
     (if zkvm then bracketed (''cycle-tracker-report-start: '' @ name) (''cycle-tracker-report-end: '' @ name) block
      else block)"

lemma profile_result [simp]:
  "fst (profile zkvm name block) = fst block" "fst (profile_report zkvm name block) = fst block"
  by (simp_all add: profile_def profile_report_def bracketed_def split: prod.split)

section \<open>Annotated precompiles\<close>

text \<open>
  \<open>CustomEvmFactory\<close>: the beneficiary is replaced, and in the zkVM every precompile is wrapped
  in two lines of output that name it. A call is a function with the lines it prints.
\<close>

definition precompile_names :: "(nat \<times> string) list" where
  "precompile_names = [(1, ''ecrecover''), (2, ''sha256''), (3, ''ripemd160''), (4, ''identity''), (5, ''modexp''),
     (6, ''bn-add''), (7, ''bn-mul''), (8, ''bn-pair''), (9, ''blake2f''), (10, ''kzg-point-evaluation''),
     (11, ''bls-g1add''), (12, ''bls-g1msm''), (13, ''bls-g2add''), (14, ''bls-g2msm''), (15, ''bls-pairing''),
     (16, ''bls-map-fp-to-g1''), (17, ''bls-map-fp2-to-g2''), (256, ''p256-verify'')]"

definition precompile_name :: "nat \<Rightarrow> string" where
  "precompile_name address = (case map_of precompile_names address of Some name \<Rightarrow> name | None \<Rightarrow> ''unknown'')"

definition annotate :: "nat \<Rightarrow> ('i \<Rightarrow> 'o \<times> string list) \<Rightarrow> 'i \<Rightarrow> 'o \<times> string list" where
  "annotate address call input =
     (let name = precompile_name address; (result, lines) = call input
      in (result, [''cycle-tracker-report-start: precompile-'' @ name] @ lines @
            [''cycle-tracker-report-end: precompile-'' @ name]))"

record custom_evm_factory =
  ef_custom_beneficiary :: "address option"

definition evm_factory_new :: "address option \<Rightarrow> custom_evm_factory" where
  "evm_factory_new beneficiary = \<lparr>ef_custom_beneficiary = beneficiary\<rparr>"

record 'cfg evm_env =
  ev_beneficiary :: address
  ev_cfg :: 'cfg

definition override_beneficiary :: "custom_evm_factory \<Rightarrow> 'cfg evm_env \<Rightarrow> 'cfg evm_env" where
  "override_beneficiary self input = (case ef_custom_beneficiary self of
     Some beneficiary \<Rightarrow> input\<lparr>ev_beneficiary := beneficiary\<rparr> | None \<Rightarrow> input)"

text \<open>
  \<open>spec_precompiles\<close> are \<open>revm\<close>'s precompiles of a configuration and \<open>build\<close> its EVM builder;
  \<open>with_inspector\<close> puts an inspector on the EVM.
\<close>

definition create_evm ::
  "('cfg \<Rightarrow> nat \<Rightarrow> ('i \<Rightarrow> 'o \<times> string list) option) \<Rightarrow>
   ('db \<Rightarrow> 'cfg evm_env \<Rightarrow> (nat \<Rightarrow> ('i \<Rightarrow> 'o \<times> string list) option) \<Rightarrow> 'evm) \<Rightarrow> bool \<Rightarrow>
   custom_evm_factory \<Rightarrow> 'db \<Rightarrow> 'cfg evm_env \<Rightarrow> 'evm" where
  "create_evm spec_precompiles build zkvm self db input =
     (let input = override_beneficiary self input; precompiles = spec_precompiles (ev_cfg input)
      in build db input (if zkvm then (\<lambda>a. map_option (annotate a) (precompiles a)) else precompiles))"

definition create_evm_with_inspector where
  "create_evm_with_inspector spec_precompiles build with_inspector zkvm self db input inspector =
     with_inspector (create_evm spec_precompiles build zkvm self db (override_beneficiary self input)) inspector"

text \<open>\<open>OpCodeTrackingInspector\<close>: the name of the current opcode and the lines it prints in the zkVM.\<close>

definition inspector_step :: "bool \<Rightarrow> bool \<Rightarrow> string \<Rightarrow> string \<Rightarrow> string \<times> string list" where
  "inspector_step zkvm finished opcode current =
     (if finished then (current, [])
      else (to_lowercase opcode,
        if zkvm then [''cycle-tracker-report-start: opcode-'' @ to_lowercase opcode] else []))"

definition inspector_step_end :: "bool \<Rightarrow> string \<Rightarrow> string list" where
  "inspector_step_end zkvm current = (if zkvm then [''cycle-tracker-report-end: opcode-'' @ current] else [])"

text \<open>\<open>verify_kzg_proof\<close> of \<open>CustomCrypto\<close> over the library's verification.\<close>

datatype precompile_error = PrecompileOther string | BlobVerifyKzgProofFailed

definition verify_kzg_proof ::
  "('b48 \<Rightarrow> 'b32 \<Rightarrow> 'b32 \<Rightarrow> 'b48 \<Rightarrow> (string, bool) res) \<Rightarrow> 'b32 \<Rightarrow> 'b32 \<Rightarrow> 'b48 \<Rightarrow> 'b48 \<Rightarrow> (precompile_error, unit) res" where
  "verify_kzg_proof verify z y commitment kzg_proof =
     res_bind (map_err PrecompileOther (verify commitment z y kzg_proof)) (\<lambda>valid.
       if \<not> valid then Err BlobVerifyKzgProofFailed else Ok ())"

lemma annotate_result [simp]: "fst (annotate a call input) = fst (call input)"
  by (simp add: annotate_def Let_def split: prod.split)

text \<open>The inspector does not change what the EVM is built from, nor do annotations the results.\<close>

lemma override_twice [simp]:
  "override_beneficiary self (override_beneficiary self input) = override_beneficiary self input"
  by (simp add: override_beneficiary_def split: option.split)

lemma inspector_same_evm:
  "create_evm_with_inspector P build with_inspector zkvm self db input inspector =
    with_inspector (create_evm P build zkvm self db input) inspector"
  by (simp add: create_evm_with_inspector_def create_evm_def)

end
