(* ===== verification/Cli.thy ===== *)
theory Cli
  imports Continuous Report
begin

text \<open>
  The three binaries around the executors: the configuration from the command line
  (\<open>bin/host/src/cli.rs\<close>, \<open>bin/continuous/src/cli.rs\<close>, \<open>bin/eth-proofs/src/cli.rs\<close>), their \<open>main\<close>
  functions, the reporting client of \<open>eth-proofs\<close>, and the retry policy of \<open>crates/provider\<close>.
\<close>

section \<open>The environment\<close>

text \<open>
  Environment variables, files, \<open>Url::parse\<close> (an URL is kept as its text), and the chain id an RPC
  endpoint reports.
\<close>

record cli_env =
  ce_var :: "string \<Rightarrow> string option"
  ce_url_parse :: "string \<Rightarrow> (string, string) res"
  ce_read_file :: "string \<Rightarrow> (string, string) res"
  ce_get_chain_id :: "string \<Rightarrow> (string, u64) res"
  ce_genesis_message :: "genesis_error \<Rightarrow> string"

definition rpc_var :: "u64 \<Rightarrow> string" where
  "rpc_var chain_id = ''RPC_'' @ decimal (unat chain_id)"

definition debug_rpc_var :: "u64 \<Rightarrow> string" where
  "debug_rpc_var chain_id = ''DEBUG_RPC_'' @ decimal (unat chain_id)"

section \<open>The host's command line\<close>

record provider_args =
  pr_rpc_url :: "string option"
  pr_debug_rpc_url :: "string option"
  pr_chain_id :: "u64 option"

record host_args =
  ha_block_number :: u64
  ha_provider :: provider_args
  ha_genesis_path :: "string option"
  ha_custom_beneficiary :: "address option"
  ha_prove :: bool
  ha_cache_dir :: "string option"
  ha_report_path :: string
  ha_precompile_tracking :: bool
  ha_opcode_tracking :: bool

text \<open>The URL and the chain id, each from the arguments or from the other source.\<close>

definition rpc_and_chain_id :: "cli_env \<Rightarrow> string option \<Rightarrow> u64 option \<Rightarrow> (string, string option \<times> u64) res" where
  "rpc_and_chain_id E rpc_url chain_id = (case (rpc_url, chain_id) of
     (Some rpc_url, Some chain_id) \<Rightarrow> Ok (Some rpc_url, chain_id)
   | (None, Some chain_id) \<Rightarrow>
       (case ce_var E (rpc_var chain_id) of
          Some rpc_env_var \<Rightarrow> map_res (\<lambda>url. (Some url, chain_id)) (ce_url_parse E rpc_env_var)
        | None \<Rightarrow> Ok (None, chain_id))
   | (Some rpc_url, None) \<Rightarrow> map_res (\<lambda>chain_id. (Some rpc_url, chain_id)) (ce_get_chain_id E rpc_url)
   | (None, None) \<Rightarrow> Err ''either --rpc-url or --chain-id must be used'')"

text \<open>A custom genesis from a file, or the one of the chain id.\<close>

definition genesis_of_args :: "cli_env \<Rightarrow> string option \<Rightarrow> u64 \<Rightarrow> (string, genesis) res" where
  "genesis_of_args E genesis_path chain_id = (case genesis_path of
     Some genesis_path \<Rightarrow>
       map_res Custom (map_err (\<lambda>err. ''Failed to read genesis file: '' @ err) (ce_read_file E genesis_path))
   | None \<Rightarrow> map_err (ce_genesis_message E) (genesis_of_chain_id chain_id))"

text \<open>The debug endpoint falls back to its variable, if it holds an URL, and then to the main one.\<close>

definition debug_url :: "cli_env \<Rightarrow> string option \<Rightarrow> u64 \<Rightarrow> string option \<Rightarrow> string option" where
  "debug_url E debug_rpc_url chain_id rpc_url =
     (let debug_rpc_url = (case debug_rpc_url of
        Some url \<Rightarrow> Some url
      | None \<Rightarrow> Option.bind (ce_var E (debug_rpc_var chain_id))
          (\<lambda>url. case ce_url_parse E url of Ok u \<Rightarrow> Some u | _ \<Rightarrow> None))
      in (case debug_rpc_url of Some url \<Rightarrow> Some url | None \<Rightarrow> rpc_url))"

definition host_as_config :: "cli_env \<Rightarrow> host_args \<Rightarrow> (string, config) res" where
  "host_as_config E self =
     res_bind (rpc_and_chain_id E (pr_rpc_url (ha_provider self)) (pr_chain_id (ha_provider self))) (\<lambda>(rpc_url, chain_id).
     let debug_rpc_url = debug_url E (pr_debug_rpc_url (ha_provider self)) chain_id rpc_url in
     res_bind (genesis_of_args E (ha_genesis_path self) chain_id) (\<lambda>genesis.
       Ok \<lparr>cf_chain = chain_id, cf_genesis = genesis, cf_rpc_url = rpc_url, cf_debug_rpc_url = debug_rpc_url,
         cf_cache_dir = ha_cache_dir self, cf_custom_beneficiary = ha_custom_beneficiary self,
         cf_prove_mode = (if ha_prove self then Some ProveCompressed else None),
         cf_opcode_tracking = ha_opcode_tracking self\<rparr>))"

section \<open>The other two command lines\<close>

record continuous_args =
  ca_block_number :: u64
  ca_rpc_url :: "string option"
  ca_chain_id :: "u64 option"
  ca_genesis_path :: "string option"
  ca_max_concurrent_executions :: nat
  ca_execution_retries :: nat
  ca_prove :: bool
  ca_pager_duty_integration_key :: "string option"

definition continuous_as_config :: "cli_env \<Rightarrow> continuous_args \<Rightarrow> (string, config) res" where
  "continuous_as_config E self =
     res_bind (rpc_and_chain_id E (ca_rpc_url self) (ca_chain_id self)) (\<lambda>(rpc_url, chain_id).
     res_bind (genesis_of_args E (ca_genesis_path self) chain_id) (\<lambda>genesis.
       Ok \<lparr>cf_chain = chain_id, cf_genesis = genesis, cf_rpc_url = rpc_url, cf_debug_rpc_url = None,
         cf_cache_dir = None, cf_custom_beneficiary = None,
         cf_prove_mode = (if ca_prove self then Some ProveCompressed else None), cf_opcode_tracking = False\<rparr>))"

record eth_proofs_args =
  ea_http_rpc_url :: string
  ea_ws_rpc_url :: string
  ea_debug_http_rpc_url :: string
  ea_execute_only :: bool
  ea_block_interval :: u64
  ea_eth_proofs_endpoint :: string
  ea_eth_proofs_api_token :: string
  ea_eth_proofs_cluster_id :: u64
  ea_pager_duty_integration_key :: "string option"
  ea_moongate_endpoint :: "string option"

definition eth_proofs_as_config :: "eth_proofs_args \<Rightarrow> (string, config) res" where
  "eth_proofs_as_config self = Ok \<lparr>cf_chain = 1, cf_genesis = Mainnet, cf_rpc_url = Some (ea_http_rpc_url self),
     cf_debug_rpc_url = Some (ea_debug_http_rpc_url self), cf_cache_dir = None, cf_custom_beneficiary = None,
     cf_prove_mode = (if \<not> ea_execute_only self then Some ProveCompressed else None), cf_opcode_tracking = False\<rparr>"

section \<open>Chain specifications and block execution strategies\<close>

definition eth_try_into_chain_spec ::
  "cli_env \<Rightarrow> ('v, 'json) chain_ext \<Rightarrow> genesis \<Rightarrow> (string, 'v chain_spec) res" where
  "eth_try_into_chain_spec E C genesis = map_err (ce_genesis_message E) (chain_spec_of_genesis C genesis)"

definition op_try_into_chain_spec ::
  "cli_env \<Rightarrow> ('v, 'json) chain_ext \<Rightarrow> genesis \<Rightarrow> (string, 'v chain_spec) res" where
  "op_try_into_chain_spec E C genesis = map_err (ce_genesis_message E) (op_chain_spec_of_genesis C genesis)"

text \<open>A genesis without a specification is a panic here.\<close>

definition create_eth_block_execution_strategy_factory ::
  "('v, 'json) chain_ext \<Rightarrow> ('v, 'cfg, 'body, 'bundle, 'receipt, 'request) guest_ext \<Rightarrow> genesis \<Rightarrow> address option \<Rightarrow>
   (string, 'cfg) res" where
  "create_eth_block_execution_strategy_factory C G genesis beneficiary =
     map_res (\<lambda>chain_spec. new_with_evm_factory G chain_spec beneficiary)
       (unwrap_res (chain_spec_of_genesis C genesis))"

definition create_op_block_execution_strategy_factory ::
  "('v, 'json) chain_ext \<Rightarrow> ('v, 'cfg, 'body, 'bundle, 'receipt, 'request) guest_ext \<Rightarrow> genesis \<Rightarrow> (string, 'cfg) res" where
  "create_op_block_execution_strategy_factory C G genesis =
     map_res (op_evm_config G) (unwrap_res (op_chain_spec_of_genesis C genesis))"

section \<open>The host binary\<close>

text \<open>
  \<open>connect\<close> is \<open>create_provider\<close>, \<open>P\<close> the third-party functions with the hook the binary
  creates, \<open>host\<close> the host executor's \<open>execute\<close>.
\<close>

definition host_main ::
  "(report_hook \<Rightarrow> ('pk, 'vk, 'body) prover_ext) \<Rightarrow> cli_env \<Rightarrow> ('v, 'json) chain_ext \<Rightarrow>
   ('v, 'cfg, 'body, 'bundle, 'receipt, 'request) guest_ext \<Rightarrow> (string \<Rightarrow> 'p) \<Rightarrow>
   ('p, ('v, 'cfg) host_executor, 'body) host_call \<Rightarrow> bytes \<Rightarrow> host_args \<Rightarrow> ('body, unit) io" where
  "host_main P E C G connect host elf args =
     io_bind (io_lift (host_as_config E args)) (\<lambda>config.
     let prover = P (report_hook_new (cf_chain config) (ha_precompile_tracking args) (ha_opcode_tracking args)) in
     io_bind (io_lift (create_eth_block_execution_strategy_factory C G (cf_genesis config) (cf_custom_beneficiary config)))
       (\<lambda>factory.
     let provider = map_option connect (cf_rpc_url config); debug_provider = map_option connect (cf_debug_rpc_url config) in
     io_bind (build_executor prover (\<lambda>genesis. map_res (host_new factory) (eth_try_into_chain_spec E C genesis))
         elf provider debug_provider config) (\<lambda>executor.
       either_execute prover host executor (ha_block_number args))))"

text \<open>\<open>HostExecutor::execute\<close> as the full executor calls it: its errors become reports.\<close>

definition host_call_of where
  "host_call_of S H K V G host_ext_of ops_of display =
     (\<lambda>self provider debug_provider block_number genesis beneficiary tracking.
        map_err display (host_execute S H K V G (host_ext_of provider) (ops_of provider debug_provider) self
          block_number genesis beneficiary tracking))"

section \<open>The continuous binary\<close>

text \<open>
  The default methods of \<open>ExecutionHooks\<close>, which \<open>()\<close> has, do nothing. Unlike the host, this binary
  needs the URL.
\<close>

definition unit_hook :: "'body hook_event \<Rightarrow> (string, unit) res" where
  "unit_hook e = Ok ()"

definition continuous_start ::
  "('pk, 'vk, 'body) prover_ext \<Rightarrow> cli_env \<Rightarrow> ('v, 'json) chain_ext \<Rightarrow>
   ('v, 'cfg, 'body, 'bundle, 'receipt, 'request) guest_ext \<Rightarrow> (string \<Rightarrow> 'p) \<Rightarrow> bytes \<Rightarrow> continuous_args \<Rightarrow>
   ('body, ('p, ('v, 'cfg) host_executor, 'pk, 'vk) full_executor \<times> driver) io" where
  "continuous_start P E C G connect elf args =
     io_bind (io_lift (continuous_as_config E args)) (\<lambda>config.
     io_bind (io_lift (create_eth_block_execution_strategy_factory C G (cf_genesis config) None)) (\<lambda>factory.
     io_bind (io_lift (unwrap_opt (cf_rpc_url config))) (\<lambda>url.
     let http_provider = connect url in
     io_bind (full_try_new (P\<lparr>pe_hook := unit_hook\<rparr>)
         (\<lambda>genesis. map_res (host_new factory) (eth_try_into_chain_spec E C genesis)) http_provider http_provider elf config)
       (\<lambda>executor.
       io_lift (Ok (executor, driver_init (unat (ca_block_number args)) (ca_max_concurrent_executions args)))))))"

section \<open>The eth-proofs binary\<close>

text \<open>
  The client posts a JSON object to one of three paths for each of three hooks, from a task of its
  own: a failure to report is only logged. \<open>base64\<close> is the encoding of the proof; the time is in milliseconds.
\<close>

datatype json_value = JNumber nat | JString string

record json_post =
  jp_url :: string
  jp_authorization :: string
  jp_json :: "(string \<times> json_value) list"

record eth_proofs_client =
  ec_cluster_id :: u64
  ec_endpoint :: string
  ec_api_token :: string

definition eth_proofs_client_new :: "u64 \<Rightarrow> string \<Rightarrow> string \<Rightarrow> eth_proofs_client" where
  "eth_proofs_client_new cluster_id endpoint api_token =
     \<lparr>ec_cluster_id = cluster_id, ec_endpoint = endpoint, ec_api_token = api_token\<rparr>"

definition queued :: "eth_proofs_client \<Rightarrow> u64 \<Rightarrow> json_post" where
  "queued self block_number = \<lparr>jp_url = ec_endpoint self @ ''/proofs/queued'',
     jp_authorization = ''Bearer '' @ ec_api_token self,
     jp_json = [(''block_number'', JNumber (unat block_number)), (''cluster_id'', JNumber (unat (ec_cluster_id self)))]\<rparr>"

definition proving :: "eth_proofs_client \<Rightarrow> u64 \<Rightarrow> json_post" where
  "proving self block_number = \<lparr>jp_url = ec_endpoint self @ ''/proofs/proving'',
     jp_authorization = ''Bearer '' @ ec_api_token self,
     jp_json = [(''block_number'', JNumber (unat block_number)), (''cluster_id'', JNumber (unat (ec_cluster_id self)))]\<rparr>"

definition proved :: "(bytes \<Rightarrow> string) \<Rightarrow> eth_proofs_client \<Rightarrow> bytes \<Rightarrow> u64 \<Rightarrow> nat \<Rightarrow> nat \<Rightarrow> string \<Rightarrow> json_post" where
  "proved base64 self proof_bytes block_number cycles millis vk_bytes32 = \<lparr>jp_url = ec_endpoint self @ ''/proofs/proved'',
     jp_authorization = ''Bearer '' @ ec_api_token self,
     jp_json = [(''proof'', JString (base64 proof_bytes)), (''block_number'', JNumber (unat block_number)),
       (''proving_cycles'', JNumber cycles), (''proving_time'', JNumber millis), (''verifier_id'', JString vk_bytes32),
       (''cluster_id'', JNumber (unat (ec_cluster_id self)))]\<rparr>"

fun eth_proofs_hook ::
  "(bytes \<Rightarrow> string) \<Rightarrow> string \<Rightarrow> nat \<Rightarrow> eth_proofs_client \<Rightarrow> 'body hook_event \<Rightarrow> (string, unit) res \<times> json_post list" where
  "eth_proofs_hook base64 vk millis self (ExecutionStart n) = (Ok (), [queued self n])"
| "eth_proofs_hook base64 vk millis self (ExecutionEnd block report) = (Ok (), [])"
| "eth_proofs_hook base64 vk millis self (ProvingStart n) = (Ok (), [proving self n])"
| "eth_proofs_hook base64 vk millis self (ProvingEnd n proof public_values version cycles) =
     (Ok (), [proved base64 self proof n cycles millis vk])"

text \<open>\<open>AlertingClient::send_alert\<close>: the alert it posts; failures are logged.\<close>

record pager_duty_alert =
  pd_summary :: string
  pd_severity :: string
  pd_source :: string
  pd_routing_key :: string
  pd_event_action :: string

definition send_alert :: "string \<Rightarrow> string \<Rightarrow> pager_duty_alert" where
  "send_alert routing_key summary = \<lparr>pd_summary = summary, pd_severity = ''error'', pd_source = ''RSP'',
     pd_routing_key = routing_key, pd_event_action = ''trigger''\<rparr>"

text \<open>
  The main loop over the block numbers of the subscription: the filter takes the remainder, which
  panics for an interval of 0; a failure to wait ends the program, a failure to execute is an alert.
\<close>

fun eth_proofs_loop ::
  "(u64 \<Rightarrow> (string, unit) res) \<Rightarrow> (u64 \<Rightarrow> ('body, 'r) io) \<Rightarrow> string option \<Rightarrow> u64 \<Rightarrow> u64 list \<Rightarrow> 'body world \<Rightarrow>
   ((string, unit) res \<times> 'body world) \<times> pager_duty_alert list" where
  "eth_proofs_loop wait run key interval [] w = ((Ok (), w), [])"
| "eth_proofs_loop wait run key interval (number # rest) w =
     (if interval = 0 then ((Panic, w), [])
      else if number mod interval \<noteq> 0 then eth_proofs_loop wait run key interval rest w
      else case wait number of
        Err e \<Rightarrow> ((Err e, w), [])
      | Panic \<Rightarrow> ((Panic, w), [])
      | Ok _ \<Rightarrow>
          (case run number w of
             (Ok _, w') \<Rightarrow> eth_proofs_loop wait run key interval rest w'
           | (Err err, w') \<Rightarrow>
               (let message = ''Error handling block '' @ decimal (unat number) @ '': '' @ err;
                    (r, alerts) = eth_proofs_loop wait run key interval rest w'
                in (r, (case key of Some k \<Rightarrow> [send_alert k message] | None \<Rightarrow> []) @ alerts))
           | (Panic, w') \<Rightarrow> ((Panic, w'), [])))"

definition eth_proofs_start ::
  "('pk, 'vk, 'body) prover_ext \<Rightarrow> cli_env \<Rightarrow> ('v, 'json) chain_ext \<Rightarrow>
   ('v, 'cfg, 'body, 'bundle, 'receipt, 'request) guest_ext \<Rightarrow> (string \<Rightarrow> 'p) \<Rightarrow> (string \<Rightarrow> (string, u64 list) res) \<Rightarrow>
   ('p \<Rightarrow> (string, u64) res) \<Rightarrow> bytes \<Rightarrow> eth_proofs_args \<Rightarrow>
   ('body, ('p, ('v, 'cfg) host_executor, 'pk, 'vk) full_executor \<times> u64 list) io" where
  "eth_proofs_start P E C G connect subscribe latest elf args =
     io_bind (io_lift (eth_proofs_as_config args)) (\<lambda>config.
     io_bind (io_lift (create_eth_block_execution_strategy_factory C G (cf_genesis config) None)) (\<lambda>factory.
     let http_provider = connect (ea_http_rpc_url args); debug_http_provider = connect (ea_debug_http_rpc_url args) in
     io_bind (io_lift (subscribe (ea_ws_rpc_url args))) (\<lambda>stream.
     io_bind (full_try_new P (\<lambda>genesis. map_res (host_new factory) (eth_try_into_chain_spec E C genesis))
         http_provider debug_http_provider elf config) (\<lambda>executor.
     io_bind (io_lift (latest http_provider)) (\<lambda>_.
       io_lift (Ok (executor, stream)))))))"

definition eth_proofs_main where
  "eth_proofs_main P E C G connect subscribe latest wait host elf args w =
     (let prover = P (eth_proofs_client_new (ea_eth_proofs_cluster_id args) (ea_eth_proofs_endpoint args)
            (ea_eth_proofs_api_token args))
      in case eth_proofs_start prover E C G connect subscribe latest elf args w of
           (Ok (executor, stream), w') \<Rightarrow>
             eth_proofs_loop (wait (fx_provider executor)) (full_execute prover host executor)
               (ea_pager_duty_integration_key args) (ea_block_interval args) stream w'
         | (Err e, w') \<Rightarrow> ((Err e, w'), [])
         | (Panic, w') \<Rightarrow> ((Panic, w'), []))"

section \<open>The retry policy of the provider\<close>

datatype 'x transport_error = HttpError nat | OtherTransport 'x

definition should_retry :: "('x transport_error \<Rightarrow> bool) \<Rightarrow> 'x transport_error \<Rightarrow> bool" where
  "should_retry rate_limit_policy error \<longleftrightarrow>
     (if rate_limit_policy error then True
      else case error of HttpError status \<Rightarrow> status \<ge> 500 \<and> status < 600 | _ \<Rightarrow> False)"

definition backoff_hint :: "('x transport_error \<Rightarrow> 'd option) \<Rightarrow> 'x transport_error \<Rightarrow> 'd option" where
  "backoff_hint rate_limit_hint error = rate_limit_hint error"

text \<open>
  \<open>create_provider\<close>: an HTTP client behind a layer that retries by this policy, with at most three retries, an
  initial backoff of a second and 100 compute units per second. The libraries build the layer (from these three
  numbers and the two methods of the policy), the client and the provider.
\<close>

record ('x, 'd, 'layer, 'client, 'p) transport_ext =
  tp_rate_limit_should_retry :: "'x transport_error \<Rightarrow> bool"
  tp_rate_limit_hint :: "'x transport_error \<Rightarrow> 'd option"
  tp_new_with_policy :: "nat \<Rightarrow> nat \<Rightarrow> nat \<Rightarrow> ('x transport_error \<Rightarrow> bool) \<Rightarrow> ('x transport_error \<Rightarrow> 'd option) \<Rightarrow> 'layer"
  tp_http :: "'layer \<Rightarrow> string \<Rightarrow> 'client"
  tp_root_provider :: "'client \<Rightarrow> 'p"

definition create_provider :: "('x, 'd, 'layer, 'client, 'p) transport_ext \<Rightarrow> string \<Rightarrow> 'p" where
  "create_provider T rpc_url =
     (let retry_layer = tp_new_with_policy T 3 1000 100 (should_retry (tp_rate_limit_should_retry T))
            (backoff_hint (tp_rate_limit_hint T));
          client = tp_http T retry_layer rpc_url
      in tp_root_provider T client)"

section \<open>Which executions start\<close>

text \<open>Of all the computations of an execution only its first hook adds a start.\<close>

lemma full_execute_starts:
  "starts (w_events (snd (full_execute P host self n w))) = starts (w_events w) @ [n]"
proof -
  let ?rest = "io_bind (obtain_input P host self n)
    (\<lambda>i. process_client P (fx_pk self) i (cf_prove_mode (fx_config self)))"
  have "keeps (\<lambda>w. starts (w_events w)) ?rest"
    by (intro keeps_intros) auto
  then have rest: "starts (w_events (snd (?rest v))) = starts (w_events v)" for v by (simp add: keeps_def)
  show ?thesis
    by (cases "pe_hook P (ExecutionStart n)") (simp_all add: full_execute_def io_bind_hook rest)
qed

section \<open>What the \<open>eth-proofs\<close> loop does\<close>

text \<open>
  The loop's reference: the executions of a list of blocks one after the other, with their outcomes and
  the world they end in, and an alert for every outcome that is an error, when there is a key for alerts.
\<close>

fun exec_all :: "(u64 \<Rightarrow> ('body, 'r) io) \<Rightarrow> u64 list \<Rightarrow> 'body world \<Rightarrow> (u64 \<times> (string, 'r) res) list \<times> 'body world" where
  "exec_all run [] w = ([], w)"
| "exec_all run (n # ns) w =
     (let (r, w1) = run n w; (outcomes, w2) = exec_all run ns w1 in ((n, r) # outcomes, w2))"

definition alert_for :: "string option \<Rightarrow> u64 \<times> (string, 'r) res \<Rightarrow> pager_duty_alert list" where
  "alert_for key outcome = (case (key, outcome) of
     (Some k, (number, Err err)) \<Rightarrow> [send_alert k (''Error handling block '' @ decimal (unat number) @ '': '' @ err)]
   | _ \<Rightarrow> [])"

text \<open>
  How the loop ends after the first \<open>k\<close> of the selected blocks: well after all of them, with the error or
  the panic of waiting for the next one, or with the panic of the last execution.
\<close>

definition loop_ends ::
  "(u64 \<Rightarrow> (string, unit) res) \<Rightarrow> u64 list \<Rightarrow> nat \<Rightarrow> (u64 \<times> (string, 'r) res) list \<Rightarrow> (string, unit) res \<Rightarrow> bool" where
  "loop_ends wait selected k outcomes r \<longleftrightarrow> k \<le> length selected \<and> (\<forall>i < k. wait (selected ! i) = Ok ()) \<and>
     (if Panic \<in> snd ` set outcomes
      then r = Panic \<and> (\<forall>x \<in> set (butlast outcomes). snd x \<noteq> Panic)
      else if k = length selected then r = Ok ()
      else r = wait (selected ! k) \<and> r \<noteq> Ok ())"

lemma exec_all_fst [simp]: "map fst (fst (exec_all run ns w)) = ns"
  by (induction ns arbitrary: w) (simp_all add: case_prod_beta Let_def)

lemma exec_all_starts:
  assumes "\<And>n w. starts (w_events (snd (run n w))) = starts (w_events w) @ [n]"
  shows "starts (w_events (snd (exec_all run ns w))) = starts (w_events w) @ ns"
proof (induction ns arbitrary: w)
  case (Cons n ns)
  then show ?case using assms [of n w] by (simp add: case_prod_beta Let_def)
qed simp

lemma loop_ends_Nil: "loop_ends wait sel 0 [] r \<longleftrightarrow> (if sel = [] then r = Ok () else r = wait (hd sel) \<and> r \<noteq> Ok ())"
  by (auto simp: loop_ends_def hd_conv_nth)

lemma loop_ends_Cons:
  assumes "wait n = Ok ()" and "r \<noteq> Panic" and "loop_ends wait sel k outcomes end"
  shows "loop_ends wait (n # sel) (Suc k) ((n, r) # outcomes) end"
  using assms by (auto simp: loop_ends_def nth_Cons image_iff split: nat.split if_splits)

text \<open>The loop executes the first of the selected blocks and sends the alerts of their outcomes.\<close>

lemma eth_proofs_loop_runs:
  assumes "interval \<noteq> 0" and "eth_proofs_loop wait run key interval ns w = ((r, w'), alerts)"
  shows "\<exists>k outcomes. exec_all run (take k (filter (\<lambda>n. n mod interval = 0) ns)) w = (outcomes, w') \<and>
    loop_ends wait (filter (\<lambda>n. n mod interval = 0) ns) k outcomes r \<and> alerts = concat (map (alert_for key) outcomes)"
  using assms(2)
proof (induction ns arbitrary: w alerts)
  case Nil
  then show ?case by (intro exI [of _ 0]) (simp add: loop_ends_Nil)
next
  case (Cons n ns)
  let ?sel = "filter (\<lambda>n. n mod interval = 0) ns"
  show ?case
  proof (cases "n mod interval = 0")
    case False
    then show ?thesis using Cons.prems Cons.IH [of w alerts] assms(1) by simp
  next
    case sel: True
    show ?thesis
    proof (cases "wait n = Ok ()")
      case False
      then have "r = wait n" "w' = w" "alerts = []" using Cons.prems assms(1) sel by (auto split: res.splits)
      then show ?thesis using False sel by (intro exI [of _ 0]) (simp add: loop_ends_Nil)
    next
      case wait: True
      obtain o1 w1 where run: "run n w = (o1, w1)" by (metis prod.collapse)
      show ?thesis
      proof (cases "o1 = Panic")
        case True
        then have "r = Panic" "w' = w1" "alerts = []" using Cons.prems assms(1) sel wait run by auto
        then show ?thesis using True sel wait run
          by (intro exI [of _ "Suc 0"]) (auto simp: loop_ends_def alert_for_def split: option.split)
      next
        case False
        obtain alerts' where l: "eth_proofs_loop wait run key interval ns w1 = ((r, w'), alerts')"
          and alerts: "alerts = alert_for key (n, o1) @ alerts'"
          using Cons.prems assms(1) sel wait run False
          by (cases o1) (auto simp: alert_for_def Let_def split: prod.splits option.splits)
        from Cons.IH [OF l] obtain k outcomes where k: "exec_all run (take k ?sel) w1 = (outcomes, w')"
          "loop_ends wait ?sel k outcomes r" "alerts' = concat (map (alert_for key) outcomes)" by blast
        show ?thesis
          using sel run k(1,3) alerts loop_ends_Cons [OF wait False k(2)]
          by (intro exI [of _ "Suc k"] exI [of _ "(n, o1) # outcomes"]) simp
      qed
    qed
  qed
qed

end
