(* ===== verification/Tracking.thy ===== *)
theory Tracking
  imports Client_Executor
begin

text \<open>
  \<open>crates/executor/guest/src/tracking/block_executor.rs\<close>: the block executor that attaches the
  opcode tracking inspector, and the dispatch of \<open>BlockExecutor\<close> for a state hook.
\<close>

section \<open>Definitions\<close>

text \<open>
  The EVM configuration of \<open>reth\<close>: \<open>'st\<close> is the strategy (the block executor with its EVM on the
  database \<open>'db\<close>). Creating a strategy with the inspector, or with a state hook, applying the
  changes before and after the transactions, executing one, and merging the transitions.
\<close>

record ('cfg, 'body, 'env, 'ctx, 'tx, 'st, 'db, 'hook, 'result) evm_config_ext =
  ec_evm_env :: "'cfg \<Rightarrow> header \<Rightarrow> (string, 'env) res"
  ec_context :: "'cfg \<Rightarrow> 'body recovered_block \<Rightarrow> (string, 'ctx) res"
  ec_tracking_strategy :: "'cfg \<Rightarrow> 'db \<Rightarrow> 'env \<Rightarrow> 'ctx \<Rightarrow> 'st"
  ec_strategy_for_block :: "'cfg \<Rightarrow> 'db \<Rightarrow> 'body recovered_block \<Rightarrow> (string, 'st) res"
  ec_with_state_hook :: "'hook \<Rightarrow> 'st \<Rightarrow> 'st"
  ec_pre_execution :: "'st \<Rightarrow> (string, 'st) res"
  ec_transaction :: "'tx \<Rightarrow> 'st \<Rightarrow> (string, 'st) res"
  ec_post_execution :: "'st \<Rightarrow> (string, 'result \<times> 'db) res"
  ec_merge_transitions :: "'db \<Rightarrow> 'db"
  ec_transactions :: "'body recovered_block \<Rightarrow> 'tx list"
  ec_new_state :: "'db \<Rightarrow> 'db"
  ec_size_hint :: "'db \<Rightarrow> nat"

record ('cfg, 'db) tracking_executor =
  te_evm_config :: 'cfg
  te_db :: 'db

definition tracking_new where
  "tracking_new X evm_config db = \<lparr>te_evm_config = evm_config, te_db = ec_new_state X db\<rparr>"

definition run_strategy where
  "run_strategy X transactions strategy =
     res_bind (ec_pre_execution X strategy) (\<lambda>s.
     res_bind (res_fold (ec_transaction X) transactions s) (\<lambda>s.
       map_res (\<lambda>(result, db). (result, ec_merge_transitions X db)) (ec_post_execution X s)))"

definition tracking_execute_one where
  "tracking_execute_one X self block =
     res_bind (ec_evm_env X (te_evm_config self) (rb_header block)) (\<lambda>env.
     res_bind (ec_context X (te_evm_config self) block) (\<lambda>ctx.
       map_res (\<lambda>(result, db). (result, self\<lparr>te_db := db\<rparr>))
         (run_strategy X (ec_transactions X block) (ec_tracking_strategy X (te_evm_config self) (te_db self) env ctx))))"

definition tracking_execute_one_with_state_hook where
  "tracking_execute_one_with_state_hook X self block state_hook =
     res_bind (ec_strategy_for_block X (te_evm_config self) (te_db self) block) (\<lambda>strategy.
       map_res (\<lambda>(result, db). (result, self\<lparr>te_db := db\<rparr>))
         (run_strategy X (ec_transactions X block) (ec_with_state_hook X state_hook strategy)))"

definition tracking_into_state where
  "tracking_into_state self = te_db self"

definition tracking_size_hint where
  "tracking_size_hint X self = ec_size_hint X (te_db self)"

section \<open>The two executors behind one type\<close>

text \<open>
  The implementation of \<open>Executor\<close> for \<open>BlockExecutor\<close> in \<open>executor.rs\<close>: every method dispatches to the
  executor that was chosen. The \<open>BasicBlockExecutor\<close> of \<open>reth\<close> is given by its methods.
\<close>

record ('b, 'body, 'hook, 'result, 'db) basic_executor_ext =
  bx_execute_one :: "'b \<Rightarrow> 'body recovered_block \<Rightarrow> (string, 'result \<times> 'b) res"
  bx_execute_one_with_state_hook :: "'b \<Rightarrow> 'body recovered_block \<Rightarrow> 'hook \<Rightarrow> (string, 'result \<times> 'b) res"
  bx_into_state :: "'b \<Rightarrow> 'db"
  bx_size_hint :: "'b \<Rightarrow> nat"

datatype ('b, 'cfg, 'db) chosen_executor =
    BasicChosen 'b
  | TrackingChosen "('cfg, 'db) tracking_executor"

fun chosen_execute_one where
  "chosen_execute_one X B (BasicChosen b) block = map_res (map_prod id BasicChosen) (bx_execute_one B b block)"
| "chosen_execute_one X B (TrackingChosen t) block = map_res (map_prod id TrackingChosen) (tracking_execute_one X t block)"

fun chosen_execute_one_with_state_hook where
  "chosen_execute_one_with_state_hook X B (BasicChosen b) block state_hook =
     map_res (map_prod id BasicChosen) (bx_execute_one_with_state_hook B b block state_hook)"
| "chosen_execute_one_with_state_hook X B (TrackingChosen t) block state_hook =
     map_res (map_prod id TrackingChosen) (tracking_execute_one_with_state_hook X t block state_hook)"

fun chosen_into_state where
  "chosen_into_state B (BasicChosen b) = bx_into_state B b"
| "chosen_into_state B (TrackingChosen t) = tracking_into_state t"

fun chosen_size_hint where
  "chosen_size_hint X B (BasicChosen b) = bx_size_hint B b"
| "chosen_size_hint X B (TrackingChosen t) = tracking_size_hint X t"

section \<open>Lemmas\<close>

text \<open>The transactions are executed in order, and the first that fails ends the block with its error.\<close>

lemma run_strategy_append:
  assumes "res_fold (ec_transaction X) txs s = Err e" and "ec_pre_execution X strategy = Ok s"
  shows "run_strategy X (txs @ rest) strategy = Err e"
  using assms by (simp add: run_strategy_def res_fold_append)

text \<open>The executor that was chosen stays the chosen one.\<close>

lemma chosen_kind:
  "chosen_execute_one X B e block = Ok (r, e') \<Longrightarrow> (\<exists>b. e = BasicChosen b) = (\<exists>b. e' = BasicChosen b)"
  "chosen_execute_one_with_state_hook X B e block hook = Ok (r, e') \<Longrightarrow> (\<exists>b. e = BasicChosen b) = (\<exists>b. e' = BasicChosen b)"
  by (cases e; auto simp: map_res_eq_Ok)+

text \<open>The tracking executor keeps its configuration, and its state is that of the last strategy, merged.\<close>

lemma tracking_execute_one_state:
  assumes "tracking_execute_one X self block = Ok (r, self')"
  shows "te_evm_config self' = te_evm_config self \<and>
    (\<exists>strategy db. run_strategy X (ec_transactions X block) strategy = Ok (r, db) \<and> tracking_into_state self' = db)"
  using assms by (auto simp: tracking_execute_one_def tracking_into_state_def res_ok_simps)

end
