(* ===== verification/Driver_Properties.thy ===== *)
theory Driver_Properties
  imports Host_Properties Cli Tracking
begin

text \<open>
  The properties of the executors and binaries around the host: what a run reports, the cache of
  inputs, \<open>ELF_ID\<close>, the drivers of several blocks and the report file.
\<close>

section \<open>Example prover\<close>

text \<open>
  A prover whose zkVM runs the example guest on the example input (stored as the empty file, whatever
  references its nodes have cached).
\<close>

definition ex_prover :: "(unit, unit, unit) prover_ext" where
  "ex_prover = \<lparr>pe_setup = (\<lambda>_. Ok ((), ())), pe_elf = (\<lambda>_. []),
     pe_prove = (\<lambda>_ _ _ _. Ok \<lparr>po_proof = [], po_public_values = [], po_zkm_version = [], po_cycles = 0\<rparr>),
     pe_execute = (\<lambda>_ stdin. if stdin = [] then Ok ([3], []) else Err []),
     pe_read_b256 = (\<lambda>bs. if bs = [3] then Some 3 else None), pe_hook = unit_hook,
     pe_serialize = (\<lambda>i. if same_input i ex_host_input then Some [] else None),
     pe_deserialize = (\<lambda>_. Some ex_host_input),
     pe_elf_digest = (\<lambda>_. ''elf''), pe_open = (\<lambda>_. Ok ()), pe_create = (\<lambda>_. Ok ()), pe_message = [],
     pe_zkm_dump = None, pe_stdin_bytes = (\<lambda>_. None), pe_write = (\<lambda>_. Ok ())\<rparr>"

definition ex_world :: "unit world" where
  "ex_world = \<lparr>w_elf_id = None, w_cache = Map.empty, w_events = [], w_hashes = [], w_dumps = []\<rparr>"

definition ex_full :: "config \<Rightarrow> (unit, (unit, unit) host_executor, unit, unit) full_executor" where
  "ex_full config = \<lparr>fx_provider = (), fx_debug_provider = (), fx_host_executor = ex_self, fx_pk = (), fx_vk = (),
     fx_config = config\<rparr>"

definition ex_host_call :: "(unit, (unit, unit) host_executor, unit) host_call" where
  "ex_host_call = host_call_of example_state_ext example_header_ext example_consensus ex_convert ex_guest
     (\<lambda>_. ex_host) (\<lambda>_ _. ex_ops) (\<lambda>_. [])"

lemma ex_host_call: "ex_host_call ex_self () () 2 Mainnet None False = Ok ex_host_input"
  by (simp add: ex_host_call_def host_call_of_def ex_host_execute)

lemma ex_inputs_same: "ex_host_input = ex_input"
  by (simp add: ex_host_input_def ex_input_def)

abbreviation ex_world_after :: "unit world" where
  "ex_world_after \<equiv> ex_world\<lparr>w_events := [ExecutionStart 2, ExecutionEnd (current_block ex_host_input) []], w_hashes := [3]\<rparr>"

lemma ex_full_run:
  "full_execute ex_prover ex_host_call (ex_full config_mainnet) 2 ex_world = (Ok (), ex_world_after)"
  by (simp add: full_execute_def io_bind_def call_hook_def ex_prover_def unit_hook_def obtain_input_def ex_full_def
      config_mainnet_def cached_input_def io_lift_def ex_host_call process_client_def zkm_dump_def dump_enabled_def execute_client_def
      joined_def log_hash_def ex_world_def)

text \<open>
  What is assumed of the zkVM and of the serialised input: the zkVM runs the guest program on the bytes
  it is given, with the block hash in the public values, and the guest reads back the input that was serialised, up
  to the cached references, which are not serialised.
\<close>

definition runs_guest where
  "runs_guest P pk S H K C G \<longleftrightarrow> (\<forall>stdin pv rep. pe_execute P (pe_elf P pk) stdin = Ok (pv, rep) \<longrightarrow>
     (\<exists>b. guest_main S H K C G stdin = Ok b \<and> pe_read_b256 P pv = Some b))"

definition reads_back where
  "reads_back P G \<longleftrightarrow>
     (\<forall>i b. pe_serialize P i = Some b \<longrightarrow> (\<exists>j. deserialize_input G b = Some j \<and> same_input i j))"

lemma ex_zkvm: "runs_guest ex_prover pk example_state_ext example_header_ext example_consensus example_chain example_guest"
proof -
  obtain root where "verify_block example_state_ext example_header_ext example_consensus example_chain example_guest []
    = Ok (3, root, EMPTY_ROOT)" using ex_verify_block by blast
  then show ?thesis by (auto simp: runs_guest_def guest_main_def ex_prover_def split: if_splits)
qed

lemma ex_codec: "reads_back ex_prover example_guest"
  by (auto simp: reads_back_def ex_prover_def example_guest_def ex_inputs_same split: if_splits)

section \<open>What a run reports\<close>

lemma verify_block_hash:
  assumes "verify_block S H K C G bytes = Ok (h, root, prev)" and "deserialize_input G bytes = Some input"
  shows "h = hash_slow H (bl_header (current_block input))"
  using assms client_execute_ok
  by (fastforce simp: verify_block_def res_ok_simps Let_def)

lemma full_execute_verified:
  assumes run: "full_execute P (host_call_of S H K V G' HX_of D_of display) self n w = (Ok u, w')"
    and mode: "cf_prove_mode (fx_config self) = None" and cache: "cf_cache_dir (fx_config self) = None"
    and zkvm: "runs_guest P (fx_pk self) S H K C G" and codec: "reads_back P G"
  shows "\<exists>input block stdin root prev report.
    get_full_block (HX_of (fx_provider self)) n = Ok (Some block) \<and>
    current_block input = into_primitive_block V block \<and> pe_serialize P input = Some stdin \<and>
    verify_block S H K C G stdin = Ok (hash_slow H (rpc_header block), root, prev) \<and>
    w_hashes w' = w_hashes w @ [hash_slow H (rpc_header block)] \<and>
    w_events w' = w_events w @ [ExecutionStart n, ExecutionEnd (current_block input) report]"
proof (rule full_execute_source [OF run])
  fix i w1 events hashes
  assume o: "obtain_input P (host_call_of S H K V G' HX_of D_of display) self n
      (w\<lparr>w_events := w_events w @ [ExecutionStart n]\<rparr>) = (Ok i, w1)"
    and p: "processed P (fx_pk self) (w_elf_id w) i (cf_prove_mode (fx_config self)) events hashes"
    and w': "w_events w' = w_events w @ ExecutionStart n # events" "w_hashes w' = w_hashes w @ hashes"
  obtain stdin pv rep h where s: "pe_serialize P i = Some stdin" "pe_execute P (pe_elf P (fx_pk self)) stdin = Ok (pv, rep)"
    "pe_read_b256 P pv = Some h" "hashes = [h]" "events = [ExecutionEnd (current_block i) rep]"
    using p by (auto simp: processed_def Let_def mode)
  have "cached_input P (fx_config self) n v = None" for v using cache by (simp add: cached_input_def)
  then obtain b t where h: "host_execute S H K V G' (HX_of (fx_provider self)) (D_of (fx_provider self) (fx_debug_provider self))
      (fx_host_executor self) n (cf_genesis (fx_config self)) b t = Ok i"
    using obtain_input_source [OF o] by (auto simp: host_call_of_def res_ok_simps)
  obtain block where block: "get_full_block (HX_of (fx_provider self)) n = Ok (Some block)"
    "current_block i = into_primitive_block V block"
    by (rule host_execute_ok [OF h]) (auto simp: host_ran_def Let_def)
  obtain root prev where v: "verify_block S H K C G stdin = Ok (h, root, prev)"
    using zkvm s(2,3) by (cases "verify_block S H K C G stdin") (fastforce simp: runs_guest_def guest_main_def)+
  obtain j where j: "deserialize_input G stdin = Some j" "same_input i j"
    using codec s(1) unfolding reads_back_def by blast
  have "h = hash_slow H (rpc_header block)"
    using verify_block_hash [OF v j(1)] same_inputD(1) [OF j(2)] block(2) by (simp add: into_primitive_block_def)
  then show ?thesis using block s v w' by auto
qed

text \<open>
  C16. End to end: when the full executor, without a cache and without proving, executes the block
  number \<open>n\<close>, the provider has a block for \<open>n\<close>, the guest verified the input for exactly this block, the
  block hash that was read from the zkVM and logged is the hash of its header, and the hooks were called
  once before and once after. Assumed are that the zkVM runs the guest program on the bytes it is given, with the
  block hash in the public values, and that the guest reads back the input that was serialised, up to the cached
  references, which are not serialised.
\<close>

theorem executed_hash:
  assumes run: "full_execute P (host_call_of S H K V G' HX_of D_of display) self n w = (Ok u, w')"
    and mode: "cf_prove_mode (fx_config self) = None" and cache: "cf_cache_dir (fx_config self) = None"
    and zkvm: "runs_guest P (fx_pk self) S H K C G" and codec: "reads_back P G"
  shows "\<exists>input block stdin root prev report.
    get_full_block (HX_of (fx_provider self)) n = Ok (Some block) \<and>
    current_block input = into_primitive_block V block \<and> pe_serialize P input = Some stdin \<and>
    verify_block S H K C G stdin = Ok (hash_slow H (rpc_header block), root, prev) \<and>
    w_hashes w' = w_hashes w @ [hash_slow H (rpc_header block)] \<and>
    w_events w' = w_events w @ [ExecutionStart n, ExecutionEnd (current_block input) report]"
  by (rule full_execute_verified [OF run mode cache zkvm codec])

theorem executed_hash_witness:
  "\<exists>w' block. full_execute ex_prover ex_host_call (ex_full config_mainnet) 2 ex_world = (Ok (), w') \<and>
    ex_full_block 2 = Ok (Some block) \<and> w_hashes w' = [hash_slow example_header_ext (rpc_header block)]"
proof -
  have run: "full_execute ex_prover (host_call_of example_state_ext example_header_ext example_consensus ex_convert ex_guest
      (\<lambda>_. ex_host) (\<lambda>_ _. ex_ops) (\<lambda>_. [])) (ex_full config_mainnet) 2 ex_world = (Ok (), ex_world_after)"
    using ex_full_run by (simp add: ex_host_call_def)
  have "cf_prove_mode (fx_config (ex_full config_mainnet)) = None" "cf_cache_dir (fx_config (ex_full config_mainnet)) = None"
    by (simp_all add: ex_full_def config_mainnet_def)
  from executed_hash [OF run this ex_zkvm ex_codec] show ?thesis
    using ex_full_run by (auto simp: ex_host_def ex_world_def)
qed

section \<open>The cache of inputs\<close>

text \<open>
  C33. The cache: a run that had to ask the host stores its input under its cache folder, its chain and the number, and
  writes no other file. As long as this file stays, a later run of an executor with the same folder and chain gets the
  same input, up to the cached references, without asking the host (any \<open>host'\<close>) and without an effect, whatever its other
  settings (only the opcode tracking is taken from them), and the cached executor for the folder and the chain processes it.
  Assumed are that the stored file can be opened and \<open>bincode\<close> reads back what it wrote, up to the cached references,
  which are not serialised.
\<close>

theorem cache_roundtrip:
  assumes first: "obtain_input P host self n w = (Ok i, w')"
    and dir: "cf_cache_dir (fx_config self) = Some dir" and miss: "cached_input P (fx_config self) n w = None"
    and codec: "\<And>b. pe_serialize P i = Some b \<Longrightarrow> \<exists>j. pe_deserialize P b = Some j \<and> same_input i j"
    and openable: "pe_open P (dir, cf_chain (fx_config self), n) = Ok ()"
    and dir': "cf_cache_dir (fx_config self') = Some dir" and chain: "cf_chain (fx_config self') = cf_chain (fx_config self)"
    and kept: "w_cache v (dir, cf_chain (fx_config self), n) = w_cache w' (dir, cf_chain (fx_config self), n)"
  shows "(\<forall>path. path \<noteq> (dir, cf_chain (fx_config self), n) \<longrightarrow> w_cache w' path = w_cache w path) \<and>
    (\<exists>j. same_input i j \<and>
      obtain_input P host' self' n v = (Ok (j\<lparr>opcode_tracking := cf_opcode_tracking (fx_config self')\<rparr>), v) \<and>
      cached_execute P \<lparr>cx_cache_dir = dir, cx_chain_id = cf_chain (fx_config self), cx_pk = pk, cx_vk = vk,
        cx_prove_mode = mode\<rparr> n v = process_client P pk j mode v)"
proof -
  obtain stored where s: "pe_serialize P i = Some stored"
    "w' = w\<lparr>w_cache := (w_cache w)((dir, cf_chain (fx_config self), n) \<mapsto> stored)\<rparr>"
    using obtain_input_stores [OF first dir miss] by blast
  obtain j where j: "pe_deserialize P stored = Some j" "same_input i j" using codec [OF s(1)] by blast
  have hit: "try_load_input_from_cache P dir (cf_chain (fx_config self)) n v = (Ok (Some j), v)"
    by (rule cache_hit [OF _ openable j(1)]) (simp add: kept s(2))
  show ?thesis
    using j(2) s(2) hit obtain_input_hit [OF hit [folded chain] dir', of host']
    by (auto simp: cached_execute_def io_bind_def io_lift_def intro!: exI [of _ j])
qed

text \<open>
  An example whose host returns a trie with a cached reference, which the codec drops.
\<close>

definition ex_stored_input :: "mpt_ref option \<Rightarrow> unit client_input" where
  "ex_stored_input c = ex_host_input\<lparr>parent_state :=
     \<lparr>state_trie = MptNode (Leaf [0x20] [1]) c, storage_tries = []\<rparr>\<rparr>"

definition ex_storing_prover :: "(unit, unit, unit) prover_ext" where
  "ex_storing_prover = ex_prover\<lparr>pe_serialize := \<lambda>i. if same_input i (ex_stored_input None) then Some [1] else None,
     pe_deserialize := \<lambda>_. Some (ex_stored_input None)\<rparr>"

lemma ex_stored_same: "same_input (ex_stored_input c) (ex_stored_input d)"
  by (simp add: same_input_def ex_stored_input_def same_state_def mpt_eq_def)

abbreviation ex_caching :: config where
  "ex_caching \<equiv> config_mainnet\<lparr>cf_cache_dir := Some ''cache''\<rparr>"

theorem cache_roundtrip_witness:
  "ex_stored_input None \<noteq> ex_stored_input (Some (RefBytes [1])) \<and>
   (\<exists>j. same_input (ex_stored_input (Some (RefBytes [1]))) j \<and>
     fst (obtain_input ex_storing_prover (\<lambda>_ _ _ _ _ _ _. Panic) (ex_full (ex_caching\<lparr>cf_opcode_tracking := True\<rparr>)) 2
      (ex_world\<lparr>w_cache := [(''cache'', 1, 2) \<mapsto> [1]]\<rparr>)) = Ok (j\<lparr>opcode_tracking := True\<rparr>))"
proof -
  let ?i = "ex_stored_input (Some (RefBytes [1]))" and ?w = "ex_world\<lparr>w_cache := [(''cache'', 1, 2) \<mapsto> [1]]\<rparr>"
  have configs: "cf_cache_dir (fx_config (ex_full (ex_caching\<lparr>cf_opcode_tracking := b\<rparr>))) = Some ''cache''"
    "cf_chain (fx_config (ex_full (ex_caching\<lparr>cf_opcode_tracking := b\<rparr>))) = 1" for b
    by (simp_all add: ex_full_def config_mainnet_def)
  have first: "obtain_input ex_storing_prover (\<lambda>_ _ _ _ _ _ _. Ok ?i) (ex_full ex_caching) 2 ex_world = (Ok ?i, ?w)"
    and miss: "cached_input ex_storing_prover (fx_config (ex_full ex_caching)) 2 ex_world = None"
    by (simp_all add: obtain_input_def Let_def ex_full_def config_mainnet_def cached_input_def try_load_input_from_cache_def
        ex_world_def io_bind_def io_lift_def store_input_in_cache_def ex_storing_prover_def ex_prover_def ex_stored_same)
  have "ex_full ex_caching = ex_full (ex_caching\<lparr>cf_opcode_tracking := False\<rparr>)" by (simp add: config_mainnet_def)
  then have c: "cf_cache_dir (fx_config (ex_full ex_caching)) = Some ''cache''" "cf_chain (fx_config (ex_full ex_caching)) = 1"
    using configs [of False] by simp_all
  have "\<exists>j. same_input ?i j \<and> obtain_input ex_storing_prover (\<lambda>_ _ _ _ _ _ _. Panic)
      (ex_full (ex_caching\<lparr>cf_opcode_tracking := True\<rparr>)) 2 ?w =
      (Ok (j\<lparr>opcode_tracking := cf_opcode_tracking (fx_config (ex_full (ex_caching\<lparr>cf_opcode_tracking := True\<rparr>)))\<rparr>), ?w)"
    using cache_roundtrip [OF first c(1) miss _ _ configs(1), of True ?w, THEN conjunct2] ex_stored_same
    by (simp add: c configs ex_storing_prover_def ex_prover_def) blast
  moreover have "ex_stored_input None \<noteq> ?i"
  proof
    assume eq: "ex_stored_input None = ?i"
    show False
      using arg_cong [OF eq, of "\<lambda>i. cached_reference (state_trie (parent_state i))"] by (simp add: ex_stored_input_def)
  qed
  ultimately show ?thesis by (auto simp: ex_full_def)
qed

section \<open>\<open>ELF_ID\<close>\<close>

text \<open>
  C35. The process-wide \<open>ELF_ID\<close> is set by the creation of the full executor and by nothing else the executors do:
  proving from the cache without one panics after the hook for the start of the proof (when the cached input loads and
  the hook accepts it), and a second full executor in a process is never created, whatever was executed in
  between: when the setup of its keys succeeds, its creation ends in a panic.
\<close>

theorem elf_id_owner:
  "(cached_try_new P elf dir c (Some mode) w = (Ok x, w1) \<and> w_elf_id w = None \<and>
      try_load_input_from_cache P dir c n w1 = (Ok (Some i), w1) \<and> pe_serialize P i \<noteq> None \<and>
      pe_hook P (ProvingStart (hd_number (bl_header (current_block i)))) = Ok () \<longrightarrow>
    cached_execute P x n w1 =
      (Panic, w1\<lparr>w_events := w_events w1 @ [ProvingStart (hd_number (bl_header (current_block i)))]\<rparr>)) \<and>
   (full_try_new P host_of provider debug elf config w = (Ok (y :: ('p, 'h, 'pk, 'vk) full_executor), w2) \<longrightarrow>
    w_elf_id w2 = Some (pe_elf_digest P (pe_elf P (fx_pk y)))) \<and>
   (w_elf_id v \<noteq> None \<longrightarrow>
    (\<forall>z :: ('p, 'h, 'pk, 'vk) full_executor. fst (full_try_new P host_of' provider' debug' elf' config' v) \<noteq> Ok z) \<and>
    (pe_setup P elf' = Ok keys \<longrightarrow>
      (full_try_new P host_of' provider' debug' elf' config' v :: (string, ('p, 'h, 'pk, 'vk) full_executor) res \<times> _) = (Panic, v))) \<and>
   w_elf_id (snd (cached_try_new P elf dir c prove_mode v)) = w_elf_id v \<and>
   w_elf_id (snd (full_execute P host y n v)) = w_elf_id v \<and> w_elf_id (snd (cached_execute P x n v)) = w_elf_id v"
proof (intro conjI impI; (elim conjE)?)
  assume x: "cached_try_new P elf dir c (Some mode) w = (Ok x, w1)" and "w_elf_id w = None"
    and load: "try_load_input_from_cache P dir c n w1 = (Ok (Some i), w1)" and "pe_serialize P i \<noteq> None"
    and hook: "pe_hook P (ProvingStart (hd_number (bl_header (current_block i)))) = Ok ()"
  moreover have "w_elf_id w1 = None" using keepsD [OF keeps_elf_id(1) x] \<open>w_elf_id w = None\<close> by simp
  moreover have "cx_cache_dir x = dir" "cx_chain_id x = c" "cx_prove_mode x = Some mode"
    using x by (auto simp: cached_try_new_def io_simps)
  ultimately show "cached_execute P x n w1 =
      (Panic, w1\<lparr>w_events := w_events w1 @ [ProvingStart (hd_number (bl_header (current_block i)))]\<rparr>)"
    by (intro cached_execute_without_elf_id) simp_all
next
  assume "full_try_new P host_of provider debug elf config w = (Ok y, w2)"
  then show "w_elf_id w2 = Some (pe_elf_digest P (pe_elf P (fx_pk y)))"
    by (auto simp: full_try_new_def io_simps set_elf_id_def split: option.splits)
next
  assume "w_elf_id v \<noteq> None"
  note twice = full_try_new_twice [OF this]
  show "\<forall>z :: ('p, 'h, 'pk, 'vk) full_executor. fst (full_try_new P host_of' provider' debug' elf' config' v) \<noteq> Ok z"
    by (simp add: twice split: res.split)
  show "(full_try_new P host_of' provider' debug' elf' config' v :: (string, ('p, 'h, 'pk, 'vk) full_executor) res \<times> _) = (Panic, v)"
    if "pe_setup P elf' = Ok keys"
    using that by (simp add: twice joined_def)
qed (rule keeps_elf_id [unfolded keeps_def, rule_format])+

theorem elf_id_owner_witness:
  "fst (cached_execute ex_prover \<lparr>cx_cache_dir = ''cache'', cx_chain_id = 1, cx_pk = (), cx_vk = (),
      cx_prove_mode = Some ProveCompressed\<rparr> 2 (ex_world\<lparr>w_cache := [(''cache'', 1, 2) \<mapsto> []]\<rparr>)) = Panic \<and>
   w_elf_id (snd (full_try_new ex_prover (\<lambda>_. Ok ex_self) () () [] config_mainnet ex_world)) = Some ''elf'' \<and>
   fst (full_try_new ex_prover (\<lambda>_. Ok ex_self) () () [] config_mainnet (ex_world\<lparr>w_elf_id := Some ''elf''\<rparr>)) = Panic"
proof (intro conjI)
  let ?x = "\<lparr>cx_cache_dir = ''cache'', cx_chain_id = 1, cx_pk = (), cx_vk = (), cx_prove_mode = Some ProveCompressed\<rparr>"
    and ?w = "ex_world\<lparr>w_cache := [(''cache'', 1, 2) \<mapsto> []]\<rparr>"
  have "cached_try_new ex_prover [] ''cache'' 1 (Some ProveCompressed) ?w = (Ok ?x, ?w)" "w_elf_id ?w = None"
    "try_load_input_from_cache ex_prover ''cache'' 1 2 ?w = (Ok (Some ex_host_input), ?w)" "pe_serialize ex_prover ex_host_input \<noteq> None"
    "pe_hook ex_prover (ProvingStart (hd_number (bl_header (current_block ex_host_input)))) = Ok ()"
    by (simp_all add: cached_try_new_def io_bind_def io_lift_def joined_def ex_prover_def ex_world_def unit_hook_def
        try_load_input_from_cache_def)
  then show "fst (cached_execute ex_prover ?x 2 ?w) = Panic"
    using elf_id_owner [THEN conjunct1] by (metis fst_conv)
  have new: "full_try_new ex_prover (\<lambda>_. Ok ex_self) () () [] config_mainnet ex_world =
      (Ok (ex_full config_mainnet), ex_world\<lparr>w_elf_id := Some ''elf''\<rparr>)"
    by (simp add: full_try_new_def io_bind_def io_lift_def joined_def ex_prover_def ex_world_def set_elf_id_def ex_full_def)
  then show "w_elf_id (snd (full_try_new ex_prover (\<lambda>_. Ok ex_self) () () [] config_mainnet ex_world)) = Some ''elf''"
    using elf_id_owner [THEN conjunct2, THEN conjunct1, rule_format, OF new] by (simp add: ex_prover_def)
  show "fst (full_try_new ex_prover (\<lambda>_. Ok ex_self) () () [] config_mainnet (ex_world\<lparr>w_elf_id := Some ''elf''\<rparr>)) = Panic"
    by (subst elf_id_owner [where keys = "((), ())", THEN conjunct2, THEN conjunct2, THEN conjunct1, THEN mp, THEN conjunct2, THEN mp])
      (simp_all add: ex_prover_def)
qed

section \<open>Waiting and retrying\<close>

text \<open>
  \<open>wait_for_block\<close> returns iff some answer of the provider is an error or a block; it returns
  \<open>Ok\<close> at exactly the first block, if no error came before.
\<close>

lemma wait_for_block_returns:
  "((\<exists>r. wait_for_block poll 0 = Some r) = (\<exists>n. poll n \<noteq> Ok False)) \<and>
   ((\<exists>k. wait_for_block poll 0 = Some (Ok (), k)) = (\<exists>n. poll n = Ok True \<and> (\<forall>i < n. poll i = Ok False)))"
proof (intro conjI iffI; (elim exE)?)
  fix r
  assume "wait_for_block poll 0 = Some r"
  then show "\<exists>n. poll n \<noteq> Ok False" using wait_for_block_Some by blast
next
  fix n
  assume "poll n \<noteq> Ok False"
  then show "\<exists>r. wait_for_block poll 0 = Some r" by (rule wait_for_block_first) blast
next
  fix k
  assume w: "wait_for_block poll 0 = Some (Ok (), k)"
  then obtain n where "poll n \<noteq> Ok False" using wait_for_block_Some by blast
  then obtain j where "\<And>i. i < j \<Longrightarrow> poll i = Ok False" "poll j \<noteq> Ok False"
    "wait_for_block poll 0 = Some (map_res (\<lambda>_. ()) (poll j), Suc j)"
    using wait_for_block_first [of poll n] by metis
  then show "\<exists>n. poll n = Ok True \<and> (\<forall>i < n. poll i = Ok False)" using w by (cases "poll j") auto
next
  fix n
  assume "poll n = Ok True \<and> (\<forall>i < n. poll i = Ok False)"
  then show "\<exists>k. wait_for_block poll 0 = Some (Ok (), k)" using wait_for_block_ends [of n poll 0] by auto
qed

text \<open>
  C34. \<open>process_block\<close> succeeds iff waiting and then executing succeed, each within \<open>max_retries + 2\<close>
  attempts after nothing but errors; that many attempts are made when all fail, one more than the
  limit allows.
\<close>

theorem process_block_attempts:
  "(process_block wait run m = Ok ()) =
    ((\<exists>j \<le> Suc m. wait j = Ok () \<and> (\<forall>i < j. \<exists>e. wait i = Err e)) \<and>
     (\<exists>j \<le> Suc m. run j = Ok () \<and> (\<forall>i < j. \<exists>e. run i = Err e))) \<and>
   snd (retry_loop run m 0) \<le> m + 2 \<and>
   ((\<forall>i. \<exists>e. run i = Err e) \<longrightarrow> snd (retry_loop run m 0) = m + 2)"
proof -
  have "snd (retry_loop run m 0) \<le> m + 2"
    by (rule retry_loop_cases [of m run]) simp
  moreover have "snd (retry_loop run m 0) = m + 2" if "\<forall>i. \<exists>e. run i = Err e"
    by (rule retry_loop_cases [of m run]) (use that in auto)
  ultimately show ?thesis by (simp add: process_block_Ok retry_loop_Ok)
qed

theorem process_block_attempts_witness:
  "snd (retry_loop (\<lambda>_. Err ''no connection'') 1 0) = 3"
  using process_block_attempts [of "\<lambda>_. Ok ()" "\<lambda>_. Err ''no connection''" 1] by simp

section \<open>The continuous driver\<close>

lemma ended_flag: "(driver_step outcome)\<^sup>*\<^sup>* (driver_init first m) d \<Longrightarrow> dv_place d = Ended \<Longrightarrow> dv_flag d"
proof (induction rule: rtranclp_induct)
  case base
  then show ?case by (simp add: driver_init_def)
next
  case (step d d')
  from step(2,3,4) show ?case by cases auto
qed

text \<open>
  C30. Invariant of the continuous driver, in every interleaving of the main loop with its tasks: at most
  the configured number of blocks are in progress; the spawned blocks are all the blocks from the first
  one on, without a gap; a block is done only when its processing succeeded and failed only when it
  erred; the flag is set exactly when some task erred; the loop ends only with the flag set.
\<close>

theorem driver_invariant:
  assumes "(driver_step outcome)\<^sup>*\<^sup>* (driver_init first m) d"
  shows "card (dv_running d \<union> dv_failing d) \<le> m \<and>
    dv_running d \<union> dv_failing d \<union> dv_done d \<union> dv_failed d \<union> dv_panicked d =
      {first..<(if dv_place d = Acquire then dv_next d else Suc (dv_next d))} \<and>
    (\<forall>b \<in> dv_done d. outcome b = Ok ()) \<and> (\<forall>b \<in> dv_failed d. \<exists>e. outcome b = Err e) \<and>
    (dv_flag d = (dv_failing d \<union> dv_failed d \<noteq> {})) \<and> (dv_place d = Ended \<longrightarrow> dv_flag d)"
proof -
  have "driver_inv outcome first m d" using assms by (rule driver_inv_reachable)
  then show ?thesis
    using ended_flag [OF assms]
    by (auto simp: driver_inv_def spawned_def spawn_bound_def card_Un_disjoint split: if_splits)
qed

text \<open>
  C32. Composition of the driver with the executor and the guest: in every interleaving, whatever the
  worlds are in which the tasks run, a block that is done is a block of the provider, and in one of its
  attempts the guest verified an input for exactly this block and committed its hash. (Execution in the
  zkVM, without a cache; the assumptions on the zkVM and on the codec are those of the full executor's
  property.)
\<close>

theorem continuous_done_blocks:
  assumes reach: "(driver_step (\<lambda>b. process_block (wait b) (\<lambda>k.
      fst (full_execute P (host_call_of S H K V G' HX_of D_of display) self (of_nat b) (world b k))) max_retries))\<^sup>*\<^sup>*
      (driver_init first max_concurrent) d"
    and "b \<in> dv_done d" and mode: "cf_prove_mode (fx_config self) = None"
    and cache: "cf_cache_dir (fx_config self) = None"
    and zkvm: "runs_guest P (fx_pk self) S H K C G" and codec: "reads_back P G"
  shows "first \<le> b \<and> (\<exists>block input stdin root prev.
    get_full_block (HX_of (fx_provider self)) (of_nat b) = Ok (Some block) \<and>
    deserialize_input G stdin = Some input \<and> current_block input = into_primitive_block V block \<and>
    verify_block S H K C G stdin = Ok (hash_slow H (rpc_header block), root, prev))"
proof -
  let ?call = "host_call_of S H K V G' HX_of D_of display"
  from driver_inv_reachable [OF reach] assms(2)
  have "first \<le> b" and ok: "process_block (wait b) (\<lambda>k.
      fst (full_execute P ?call self (of_nat b) (world b k))) max_retries = Ok ()"
    by (auto simp: driver_inv_def spawned_def)
  then obtain k w' where run: "full_execute P ?call self (of_nat b) (world b k) = (Ok (), w')"
    by (auto simp: process_block_Ok retry_loop_Ok) (metis prod.collapse)
  obtain input block stdin root prev where block: "get_full_block (HX_of (fx_provider self)) (of_nat b) = Ok (Some block)"
    "current_block input = into_primitive_block V block" "pe_serialize P input = Some stdin"
    "verify_block S H K C G stdin = Ok (hash_slow H (rpc_header block), root, prev)"
    using full_execute_verified [OF run mode cache zkvm codec] by blast
  obtain j where j: "deserialize_input G stdin = Some j" "same_input input j"
    using codec block(3) unfolding reads_back_def by blast
  have "current_block j = into_primitive_block V block" using same_inputD(1) [OF j(2)] block(2) by simp
  then show ?thesis using \<open>first \<le> b\<close> block(1,4) j(1) by blast
qed

theorem continuous_done_blocks_witness:
  "\<exists>block stdin root prev. ex_full_block 2 = Ok (Some block) \<and>
    verify_block example_state_ext example_header_ext example_consensus example_chain example_guest stdin =
      Ok (hash_slow example_header_ext (rpc_header block), root, prev)"
proof -
  let ?run = "\<lambda>b k :: nat. (fst (full_execute ex_prover (host_call_of example_state_ext example_header_ext
    example_consensus ex_convert ex_guest (\<lambda>_. ex_host) (\<lambda>_ _. ex_ops) (\<lambda>_. [])) (ex_full config_mainnet) (of_nat b) ex_world))"
  let ?outcome = "\<lambda>b. process_block (\<lambda>_. Ok ()) (?run b) 0"
  let ?s = "(driver_init 2 1)\<lparr>dv_permits := 0, dv_running := {2}, dv_place := Check\<rparr>"
  have "?outcome 2 = Ok ()"
    using ex_full_run by (simp add: process_block_Ok retry_loop_Ok ex_host_call_def) (metis le0 not_less0)
  then have "driver_step ?outcome ?s (?s\<lparr>dv_running := {}, dv_done := {2}, dv_permits := 1\<rparr>)"
    using driver_step.task_ok [of ?s 2 ?outcome] by (simp add: driver_init_def)
  moreover have "driver_step ?outcome (driver_init 2 1) ?s"
    using driver_step.spawn [of "driver_init 2 1" ?outcome] by (simp add: driver_init_def)
  ultimately have reach: "(driver_step ?outcome)\<^sup>*\<^sup>* (driver_init 2 1) (?s\<lparr>dv_running := {}, dv_done := {2}, dv_permits := 1\<rparr>)"
    by (meson r_into_rtranclp rtranclp_trans)
  show ?thesis
    using continuous_done_blocks [where HX_of = "\<lambda>_. ex_host" and D_of = "\<lambda>_ _. ex_ops" and wait = "\<lambda>_ _. Ok ()" and
        world = "\<lambda>_ _. ex_world" and b = 2, OF reach _ _ _ ex_zkvm ex_codec]
    by (simp add: ex_full_def config_mainnet_def ex_host_def) blast
qed

text \<open>A run in which block 1 panics, block 2 is spawned and fails, and the check ends the loop.\<close>

definition ex_outcome :: "nat \<Rightarrow> (string, unit) res" where
  "ex_outcome b = (if b = 1 then Panic else Err ''no state'')"

definition ex_driver :: driver where
  "ex_driver = \<lparr>dv_next = 2, dv_running = {}, dv_failing = {}, dv_done = {}, dv_failed = {}, dv_panicked = {1},
     dv_flag = False, dv_permits = 1, dv_place = Acquire\<rparr>"

definition ex_driver_failed :: driver where
  "ex_driver_failed = ex_driver\<lparr>dv_place := Check, dv_permits := 0, dv_failing := {2}, dv_flag := True\<rparr>"

lemma ex_driver_reached: "(driver_step ex_outcome)\<^sup>*\<^sup>* (driver_init 1 1) ex_driver"
proof -
  let ?i = "driver_init 1 1"
  let ?s = "?i\<lparr>dv_permits := 0, dv_running := {1}, dv_place := Check\<rparr>"
  let ?c = "?s\<lparr>dv_next := 2, dv_place := Acquire\<rparr>"
  have "driver_step ex_outcome ?i ?s"
    using driver_step.spawn [of ?i ex_outcome] by (simp add: driver_init_def)
  moreover have "driver_step ex_outcome ?s ?c"
    using driver_step.check_ok [of ?s ex_outcome] by (simp add: driver_init_def numeral_2_eq_2)
  moreover have "driver_step ex_outcome ?c ex_driver"
    using driver_step.task_panicked [of ?c 1 ex_outcome] by (simp add: driver_init_def ex_outcome_def ex_driver_def)
  ultimately show ?thesis by (meson converse_rtranclp_into_rtranclp rtranclp.rtrancl_refl)
qed

lemma ex_driver_fails: "(driver_step ex_outcome)\<^sup>*\<^sup>* ex_driver ex_driver_failed"
proof -
  let ?s = "ex_driver\<lparr>dv_permits := 0, dv_running := {2}, dv_place := Check\<rparr>"
  have "driver_step ex_outcome ex_driver ?s"
    using driver_step.spawn [of ex_driver ex_outcome] by (simp add: ex_driver_def)
  moreover have "driver_step ex_outcome ?s ex_driver_failed"
    using driver_step.task_failed [of ?s 2 ex_outcome "''no state''"]
    by (simp add: ex_driver_def ex_driver_failed_def ex_outcome_def)
  ultimately show ?thesis by (meson converse_rtranclp_into_rtranclp rtranclp.rtrancl_refl)
qed

theorem driver_invariant_witness:
  "card (dv_running ex_driver_failed \<union> dv_failing ex_driver_failed) \<le> 1 \<and> dv_failing ex_driver_failed = {2}"
  using driver_invariant [OF rtranclp_trans [OF ex_driver_reached ex_driver_fails], THEN conjunct1]
  by (simp add: ex_driver_failed_def)

text \<open>
  C31. Stopping: from the moment the flag is set, at most the block with the next number is still spawned, and
  with at least one permit the loop can still reach its end. Only errors
  stop the loop: while no block errs, the flag is not set and the loop does not end, however many
  tasks panicked, so a panicked block is skipped in silence.
\<close>

theorem driver_stops:
  assumes "(driver_step outcome)\<^sup>*\<^sup>* (driver_init first m) d" and "(driver_step outcome)\<^sup>*\<^sup>* d d'"
  shows "(dv_flag d \<longrightarrow> dv_flag d' \<and> spawned d' \<subseteq> Set.insert (dv_next d) (spawned d) \<and>
      (0 < m \<longrightarrow> (\<exists>e. (driver_step outcome)\<^sup>*\<^sup>* d' e \<and> dv_place e = Ended))) \<and>
    ((\<forall>b \<in> spawned d. \<forall>e. outcome b \<noteq> Err e) \<longrightarrow> \<not> dv_flag d \<and> dv_place d \<noteq> Ended)"
proof -
  have i: "driver_inv outcome first m d" using assms(1) by (rule driver_inv_reachable)
  have i': "driver_inv outcome first m d'" using rtranclp_trans [OF assms] by (rule driver_inv_reachable)
  have "dv_flag d \<Longrightarrow> dv_flag d' \<and> spawned d' \<subseteq> Set.insert (dv_next d) (spawned d) \<and>
      (0 < m \<longrightarrow> (\<exists>e. (driver_step outcome)\<^sup>*\<^sup>* d' e \<and> dv_place e = Ended))"
    using spawned_after_flag [OF i assms(2)] flag_reachable [OF assms(2)] can_end [OF i'] by blast
  moreover have "\<not> dv_flag d" if "\<forall>b \<in> spawned d. \<forall>e. outcome b \<noteq> Err e"
  proof
    assume "dv_flag d"
    then have "dv_failing d \<union> dv_failed d \<noteq> {}" "\<forall>b \<in> dv_failing d \<union> dv_failed d. \<exists>e. outcome b = Err e"
      using i unfolding driver_inv_def by blast+
    then show False using that unfolding spawned_def by blast
  qed
  ultimately show ?thesis using ended_flag [OF assms(1)] by blast
qed

theorem driver_stops_witness:
  "\<not> dv_flag ex_driver \<and> dv_panicked ex_driver = {1} \<and>
    (\<exists>e. (driver_step ex_outcome)\<^sup>*\<^sup>* ex_driver_failed e \<and> dv_place e = Ended)"
proof -
  have reached: "(driver_step ex_outcome)\<^sup>*\<^sup>* (driver_init 1 1) ex_driver_failed"
    using ex_driver_reached ex_driver_fails by (rule rtranclp_trans)
  have "dv_flag ex_driver_failed" by (simp add: ex_driver_failed_def)
  then have "\<exists>e. (driver_step ex_outcome)\<^sup>*\<^sup>* ex_driver_failed e \<and> dv_place e = Ended"
    using driver_stops [OF reached rtranclp.rtrancl_refl, THEN conjunct1] by simp
  moreover
  have "\<forall>b \<in> spawned ex_driver. \<forall>e. ex_outcome b \<noteq> Err e"
    by (simp add: spawned_def ex_driver_def ex_outcome_def)
  then have "\<not> dv_flag ex_driver"
    using driver_stops [OF ex_driver_reached ex_driver_fails, THEN conjunct2, THEN mp] by blast
  ultimately show ?thesis by (simp add: ex_driver_def)
qed

section \<open>The eth-proofs driver\<close>

text \<open>
  C36. The \<open>eth-proofs\<close> loop executes the first blocks of the subscription whose number the interval divides (not 0:
  with 0 the filter panics), in their order and each once, one after the other: all of them when it ends well. It ends
  before only with the error or the panic of waiting for the next block, or with the panic of an execution. An
  execution that fails does not end it: exactly the failed executions are reported, once each and in their order, when there
  is a key for alerts.
\<close>

theorem eth_proofs_blocks:
  assumes "eth_proofs_loop wait (full_execute P host executor) key interval ns w = ((r, w'), alerts)" and "interval \<noteq> 0"
  shows "\<exists>k outcomes.
    exec_all (full_execute P host executor) (take k (filter (\<lambda>n. n mod interval = 0) ns)) w = (outcomes, w') \<and>
    starts (w_events w') = starts (w_events w) @ take k (filter (\<lambda>n. n mod interval = 0) ns) \<and>
    alerts = concat (map (alert_for key) outcomes) \<and>
    loop_ends wait (filter (\<lambda>n. n mod interval = 0) ns) k outcomes r"
proof -
  obtain k outcomes where k: "exec_all (full_execute P host executor) (take k (filter (\<lambda>n. n mod interval = 0) ns)) w = (outcomes, w')"
    "loop_ends wait (filter (\<lambda>n. n mod interval = 0) ns) k outcomes r" "alerts = concat (map (alert_for key) outcomes)"
    using eth_proofs_loop_runs [OF assms(2,1)] by blast
  moreover have "starts (w_events w') = starts (w_events w) @ take k (filter (\<lambda>n. n mod interval = 0) ns)"
    using exec_all_starts [where run = "full_execute P host executor", OF full_execute_starts] k(1) by (metis snd_conv)
  ultimately show ?thesis by blast
qed

theorem eth_proofs_blocks_witness:
  "\<exists>w' alerts. eth_proofs_loop (\<lambda>_. Ok ()) (full_execute ex_prover (\<lambda>_ _ _ _ _ _ _. Err ''no state'') (ex_full config_mainnet))
      (Some ''key'') 2 [1, 2, 3, 4] ex_world = ((Ok (), w'), alerts) \<and> starts (w_events w') = [2, 4] \<and>
      map pd_summary alerts = map (\<lambda>n. ''Error handling block '' @ decimal n @ '': no state'') [2, 4]"
proof -
  let ?run = "full_execute ex_prover (\<lambda>_ _ _ _ _ _ _. Err ''no state'') (ex_full config_mainnet)"
  have run: "?run n w = (Err ''no state'', w\<lparr>w_events := w_events w @ [ExecutionStart n]\<rparr>)" for n w
    by (simp add: full_execute_def io_bind_def call_hook_def ex_prover_def unit_hook_def obtain_input_def ex_full_def
        config_mainnet_def cached_input_def io_lift_def Let_def)
  obtain w' alerts where l: "eth_proofs_loop (\<lambda>_. Ok ()) ?run (Some ''key'') 2 [1, 2, 3, 4] ex_world = ((Ok (), w'), alerts)"
    by (simp add: run Let_def)
  have sel: "filter (\<lambda>n. n mod 2 = 0) [1, 2, 3, 4 :: u64] = [2, 4]" by simp
  from eth_proofs_blocks [OF l, unfolded sel] obtain k outcomes where k: "exec_all ?run (take k [2, 4]) ex_world = (outcomes, w')"
    "starts (w_events w') = starts (w_events ex_world) @ take k [2, 4]" "alerts = concat (map (alert_for (Some ''key'')) outcomes)"
    "loop_ends (\<lambda>_. Ok ()) [2, 4] k outcomes (Ok ())"
    by (auto simp del: take_Cons_numeral)
  have "k = 2" using k(4) by (simp add: loop_ends_def split: if_splits)
  then have "outcomes = [(2, Err ''no state''), (4, Err ''no state'')]" "starts (w_events w') = [2, 4]"
    using k(1,2) by (simp_all add: run Let_def ex_world_def)
  then show ?thesis using l k(3) by (simp add: alert_for_def send_alert_def)
qed

section \<open>The report file\<close>

definition ex_report :: execution_report where
  "ex_report = \<lparr>xr_instructions = 5, xr_cycle_tracker = (\<lambda>_. None), xr_syscalls = 1, xr_syscall_counts = (\<lambda>_. 1)\<rparr>"

text \<open>
  C37. The report file without opcode tracking: the header has a column more than a record. The first report, into an
  empty file, therefore fails after it has written the header and its row, and leaves this row without its end of line.
  Every later report, of a later run, succeeds and appends a row that is a column short of the header, the first of
  them on the line of the refused row. With opcode tracking the lengths agree, and every report is a line of its own.
\<close>

theorem report_columns:
  "length (header_fields T self) = length (record_fields T count self block report) + (if rh_opcode_tracking self then 0 else 1) \<and>
   report_all T count csv_row self ((block, report) # later) [] =
    ((if rh_opcode_tracking self then Ok ()
      else Err (UnequalLengths (length (header_fields T self)) (length (record_fields T count self block report))))
     # map (\<lambda>_. Ok ()) later,
     csv_row (header_fields T self) @ [newline] @
     csv_row (record_fields T count self block report) @ (if rh_opcode_tracking self then [newline] else []) @
     concat (map (\<lambda>(block, report). csv_row (record_fields T count self block report) @ [newline]) later))"
  by (simp add: first_report reports_appended length_header length_record)

theorem report_columns_witness:
  "fst (report_all \<lparr>rt_opcodes = [''ADD''], rt_syscalls = [''HALT'']\<rparr> (\<lambda>_. 0) concat (report_hook_new 1 False False)
      [(current_block ex_host_input, ex_report), (current_block ex_host_input, ex_report)] []) =
    [Err (UnequalLengths 15 14), Ok ()]"
  by (subst report_columns [THEN conjunct2]) (simp add: length_header length_record report_hook_new_def)

section \<open>Custom genesis\<close>






end
