(* ===== verification/Mpt_Order.thy ===== *)
theory Mpt_Order
  imports Mpt_Reference
begin

text \<open>
  The order of nodes: \<open>Ord\<close> and \<open>PartialOrd\<close> of \<open>MptNode\<close>, which compare the data only, with the
  derived orders of \<open>MptNodeData\<close> and \<open>MptNodeReference\<close>: variants in the order of their declaration,
  then the fields from left to right. It is a total order up to the equality of nodes (\<open>mpt_eq\<close>).
\<close>

section \<open>Definitions\<close>

text \<open>\<open>std::cmp::Ordering\<close> with \<open>reverse\<close> and \<open>then\<close>.\<close>

datatype ordering = Less | Equal | Greater

fun reversed :: "ordering \<Rightarrow> ordering" where
  "reversed Less = Greater"
| "reversed Equal = Equal"
| "reversed Greater = Less"

fun then_by :: "ordering \<Rightarrow> ordering \<Rightarrow> ordering" where
  "then_by Equal y = y"
| "then_by x y = x"

definition cmp_of :: "'a::linorder \<Rightarrow> 'a \<Rightarrow> ordering" where
  "cmp_of a b = (if a < b then Less else if a = b then Equal else Greater)"

fun cmp_list :: "('a \<Rightarrow> 'a \<Rightarrow> ordering) \<Rightarrow> 'a list \<Rightarrow> 'a list \<Rightarrow> ordering" where
  "cmp_list f [] [] = Equal"
| "cmp_list f [] (y # ys) = Less"
| "cmp_list f (x # xs) [] = Greater"
| "cmp_list f (x # xs) (y # ys) = then_by (f x y) (cmp_list f xs ys)"

fun cmp_option :: "('a \<Rightarrow> 'a \<Rightarrow> ordering) \<Rightarrow> 'a option \<Rightarrow> 'a option \<Rightarrow> ordering" where
  "cmp_option f None None = Equal"
| "cmp_option f None (Some y) = Less"
| "cmp_option f (Some x) None = Greater"
| "cmp_option f (Some x) (Some y) = f x y"

fun variant_index :: "'n node_data \<Rightarrow> nat" where
  "variant_index Null = 0"
| "variant_index (Branch _) = 1"
| "variant_index (Leaf _ _) = 2"
| "variant_index (Extension _ _) = 3"
| "variant_index (Digest _) = 4"

text \<open>The comparison of the digests as byte arrays is that of the numbers they denote.\<close>

fun cmp_data :: "('n \<Rightarrow> 'n \<Rightarrow> ordering) \<Rightarrow> 'n node_data \<Rightarrow> 'n node_data \<Rightarrow> ordering" where
  "cmp_data f (Branch cs) (Branch ds) = cmp_list (cmp_option f) cs ds"
| "cmp_data f (Leaf p v) (Leaf q w) = then_by (cmp_list cmp_of p q) (cmp_list cmp_of v w)"
| "cmp_data f (Extension p n) (Extension q m) = then_by (cmp_list cmp_of p q) (f n m)"
| "cmp_data f (Digest g) (Digest h) = cmp_of g h"
| "cmp_data f a b = cmp_of (variant_index a) (variant_index b)"

lemma cmp_list_cong [fundef_cong]:
  "xs = xs' \<Longrightarrow> ys = ys' \<Longrightarrow> (\<And>x y. x \<in> set xs' \<Longrightarrow> y \<in> set ys' \<Longrightarrow> f x y = g x y) \<Longrightarrow>
    cmp_list f xs ys = cmp_list g xs' ys'"
proof (induction xs arbitrary: ys xs' ys')
  case Nil
  then show ?case by (cases ys) auto
next
  case (Cons x xs)
  then show ?case by (cases ys) auto
qed

lemma cmp_option_cong [fundef_cong]:
  "a = a' \<Longrightarrow> b = b' \<Longrightarrow> (\<And>x y. a' = Some x \<Longrightarrow> b' = Some y \<Longrightarrow> f x y = g x y) \<Longrightarrow>
    cmp_option f a b = cmp_option g a' b'"
  by (cases a; cases b) auto

lemma cmp_data_cong [fundef_cong]:
  assumes "d = d'" and "e = e'" and "\<And>n m. n \<in> set_node_data d' \<Longrightarrow> m \<in> set_node_data e' \<Longrightarrow> f n m = g n m"
  shows "cmp_data f d e = cmp_data g d' e'"
proof (cases "\<exists>cs ds. d = Branch cs \<and> e = Branch ds")
  case True
  then obtain cs ds where "d = Branch cs" "e = Branch ds" by blast
  then show ?thesis using assms by (auto intro!: cmp_list_cong cmp_option_cong)
next
  case False
  then show ?thesis using assms by (cases d; cases e) auto
qed

fun mpt_cmp :: "mpt \<Rightarrow> mpt \<Rightarrow> ordering" where
  "mpt_cmp (MptNode d c) (MptNode e c') = cmp_data mpt_cmp d e"

definition mpt_partial_cmp :: "mpt \<Rightarrow> mpt \<Rightarrow> ordering option" where
  "mpt_partial_cmp self other = Some (mpt_cmp self other)"

fun ref_cmp :: "mpt_ref \<Rightarrow> mpt_ref \<Rightarrow> ordering" where
  "ref_cmp (RefBytes a) (RefBytes b) = cmp_list cmp_of a b"
| "ref_cmp (RefDigest g) (RefDigest h) = cmp_of g h"
| "ref_cmp (RefBytes _) (RefDigest _) = Less"
| "ref_cmp (RefDigest _) (RefBytes _) = Greater"

section \<open>Laws of a comparison\<close>

text \<open>How the results of three comparisons of a transitive order fit together.\<close>

definition fits :: "ordering \<Rightarrow> ordering \<Rightarrow> ordering \<Rightarrow> bool" where
  "fits ab bc ac \<longleftrightarrow> (ab = Equal \<longrightarrow> ac = bc) \<and> (bc = Equal \<longrightarrow> ac = ab) \<and> (ab = bc \<longrightarrow> ac = ab)"

lemma fits_then: "fits x y z \<Longrightarrow> (x = Equal \<Longrightarrow> y = Equal \<Longrightarrow> fits x' y' z') \<Longrightarrow> fits (then_by x x') (then_by y y') (then_by z z')"
  by (cases x; cases y; cases z) (auto simp: fits_def)

lemma then_Equal [simp]: "then_by x y = Equal \<longleftrightarrow> x = Equal \<and> y = Equal"
  by (cases x) auto

lemma reversed_then [simp]: "reversed (then_by x y) = then_by (reversed x) (reversed y)"
  by (cases x) auto

lemma fits_simps [simp]: "fits Equal y y" "fits x Equal x" "fits x x x"
  by (auto simp: fits_def)

lemma cmp_of_laws [simp]:
  "cmp_of a b = Equal \<longleftrightarrow> a = b" "reversed (cmp_of a b) = cmp_of b a" "fits (cmp_of a b) (cmp_of b c) (cmp_of a c)"
  by (auto simp: cmp_of_def fits_def split: if_splits)

lemma cmp_list_equal: "(\<And>x y. x \<in> set xs \<Longrightarrow> f x y = Equal \<longleftrightarrow> g x = g y) \<Longrightarrow> cmp_list f xs ys = Equal \<longleftrightarrow> map g xs = map g ys"
  by (induction f xs ys rule: cmp_list.induct) auto

lemma cmp_list_reversed:
  "(\<And>x y. x \<in> set xs \<Longrightarrow> reversed (f x y) = f y x) \<Longrightarrow> reversed (cmp_list f xs ys) = cmp_list f ys xs"
  by (induction f xs ys rule: cmp_list.induct) auto

lemma cmp_list_fits:
  "(\<And>x y z. x \<in> set xs \<Longrightarrow> fits (f x y) (f y z) (f x z)) \<Longrightarrow> fits (cmp_list f xs ys) (cmp_list f ys zs) (cmp_list f xs zs)"
proof (induction f xs ys arbitrary: zs rule: cmp_list.induct)
  case (1 f)
  show ?case by simp
next
  case (2 f y ys)
  show ?case by (cases zs) (simp_all add: fits_def)
next
  case (3 f x xs)
  show ?case by (cases zs) (simp_all add: fits_def)
next
  case (4 f x xs y ys)
  show ?case
  proof (cases zs)
    case Nil
    then show ?thesis by (simp add: fits_def)
  next
    case (Cons z zs)
    have "fits (f x y) (f y z) (f x z)" "fits (cmp_list f xs ys) (cmp_list f ys zs) (cmp_list f xs zs)"
      using 4 by simp_all
    then show ?thesis using Cons by (simp add: fits_then)
  qed
qed

lemma cmp_option_equal: "(\<And>n y. x = Some n \<Longrightarrow> f n y = Equal \<longleftrightarrow> g n = g y) \<Longrightarrow>
    cmp_option f x y = Equal \<longleftrightarrow> map_option g x = map_option g y"
  by (cases x; cases y) simp_all

lemma cmp_option_reversed: "(\<And>n y. x = Some n \<Longrightarrow> reversed (f n y) = f y n) \<Longrightarrow> reversed (cmp_option f x y) = cmp_option f y x"
  by (cases x; cases y) simp_all

lemma cmp_option_fits: "(\<And>n y z. x = Some n \<Longrightarrow> fits (f n y) (f y z) (f n z)) \<Longrightarrow>
    fits (cmp_option f x y) (cmp_option f y z) (cmp_option f x z)"
  by (cases x; cases y; cases z) (simp_all add: fits_def [of Less] fits_def [of Greater] fits_def [of _ Less] fits_def [of _ Greater])

lemma cmp_bytes:
  fixes p q r :: bytes
  shows "cmp_list cmp_of p q = Equal \<longleftrightarrow> p = q" "reversed (cmp_list cmp_of p q) = cmp_list cmp_of q p"
    "fits (cmp_list cmp_of p q) (cmp_list cmp_of q r) (cmp_list cmp_of p r)"
  using cmp_list_equal [of p cmp_of "\<lambda>x. x" q] by (simp_all add: cmp_list_reversed cmp_list_fits)

lemma cmp_data_equal:
  assumes "\<And>n m. n \<in> set_node_data d \<Longrightarrow> f n m = Equal \<longleftrightarrow> g n = g m"
  shows "cmp_data f d e = Equal \<longleftrightarrow> map_node_data g d = map_node_data g e"
proof (cases "\<exists>cs ds. d = Branch cs \<and> e = Branch ds")
  case True
  then obtain cs ds where d: "d = Branch cs" "e = Branch ds" by blast
  have "cmp_option f x y = Equal \<longleftrightarrow> map_option g x = map_option g y" if "x \<in> set cs" for x y
    by (rule cmp_option_equal) (use assms d that in auto)
  then show ?thesis using cmp_list_equal [of cs "cmp_option f" "map_option g" ds] d by simp
next
  case False
  then show ?thesis using assms by (cases d; cases e) (simp_all add: cmp_bytes)
qed

lemma cmp_data_reversed:
  assumes "\<And>n m. n \<in> set_node_data d \<Longrightarrow> reversed (f n m) = f m n"
  shows "reversed (cmp_data f d e) = cmp_data f e d"
proof (cases "\<exists>cs ds. d = Branch cs \<and> e = Branch ds")
  case True
  then obtain cs ds where d: "d = Branch cs" "e = Branch ds" by blast
  have "reversed (cmp_option f x y) = cmp_option f y x" if "x \<in> set cs" for x y
    by (rule cmp_option_reversed) (use assms d that in auto)
  then show ?thesis using cmp_list_reversed [of cs "cmp_option f" ds] d by simp
next
  case False
  then show ?thesis using assms by (cases d; cases e) (simp_all add: cmp_bytes)
qed

text \<open>The comparison of the variants, followed by that of the fields.\<close>

lemma cmp_data_variants: "cmp_data f d e = then_by (cmp_of (variant_index d) (variant_index e)) (cmp_data f d e)"
  by (cases d; cases e) (simp_all add: cmp_of_def)

lemma cmp_data_fits:
  assumes "\<And>n m k. n \<in> set_node_data d \<Longrightarrow> fits (f n m) (f m k) (f n k)"
  shows "fits (cmp_data f d e) (cmp_data f e g) (cmp_data f d g)"
proof -
  have "fits (cmp_data f d e) (cmp_data f e g) (cmp_data f d g)"
    if v: "variant_index d = variant_index e" "variant_index e = variant_index g"
  proof (cases d)
    case (Branch cs)
    then obtain ds es where d: "e = Branch ds" "g = Branch es" using v by (cases e; cases g) auto
    have "fits (cmp_option f x y) (cmp_option f y z) (cmp_option f x z)" if "x \<in> set cs" for x y z
      by (rule cmp_option_fits) (use assms Branch that in auto)
    then show ?thesis using cmp_list_fits [of cs "cmp_option f" ds es] d Branch by simp
  next
    case (Extension p n)
    then obtain q m r k where "e = Extension q m" "g = Extension r k" using v by (cases e; cases g) auto
    then show ?thesis using Extension assms by (simp add: fits_then cmp_bytes)
  next
    case (Leaf p x)
    then obtain q y r z where "e = Leaf q y" "g = Leaf r z" using v by (cases e; cases g) auto
    then show ?thesis using Leaf by (simp add: fits_then cmp_bytes)
  next
    case (Digest h)
    then obtain i j where "e = Digest i" "g = Digest j" using v by (cases e; cases g) auto
    then show ?thesis using Digest by simp
  next
    case Null
    then show ?thesis using v by (cases e; cases g) auto
  qed
  then show ?thesis
    by (subst (1 2 3) cmp_data_variants) (rule fits_then, simp_all)
qed

section \<open>The order of nodes and references\<close>

lemma mpt_cmp_equal: "mpt_cmp a b = Equal \<longleftrightarrow> mpt_eq a b"
proof (induction a arbitrary: b)
  case (MptNode d c)
  obtain e c' where b: "b = MptNode e c'" by (cases b)
  have "mpt_cmp (MptNode d c) b = Equal \<longleftrightarrow> map_node_data erase d = map_node_data erase e"
    using cmp_data_equal [of d mpt_cmp erase e] MptNode by (simp add: b mpt_eq_def)
  then show ?case by (simp add: mpt_eq_def b)
qed

lemma mpt_cmp_reversed: "reversed (mpt_cmp a b) = mpt_cmp b a"
proof (induction a arbitrary: b)
  case (MptNode d c)
  then show ?case by (cases b) (simp add: cmp_data_reversed)
qed

lemma mpt_cmp_fits: "fits (mpt_cmp a b) (mpt_cmp b c) (mpt_cmp a c)"
proof (induction a arbitrary: b c)
  case (MptNode d r)
  then show ?case by (cases b; cases c) (simp add: cmp_data_fits)
qed

lemma ref_cmp_laws:
  "ref_cmp a b = Equal \<longleftrightarrow> a = b" "reversed (ref_cmp a b) = ref_cmp b a" "fits (ref_cmp a b) (ref_cmp b c) (ref_cmp a c)"
proof -
  show "ref_cmp a b = Equal \<longleftrightarrow> a = b" "reversed (ref_cmp a b) = ref_cmp b a"
    by (cases a; cases b; simp add: cmp_bytes)+
  show "fits (ref_cmp a b) (ref_cmp b c) (ref_cmp a c)"
    by (cases a; cases b; cases c) (simp_all add: cmp_bytes fits_def [of Less] fits_def [of Greater] fits_def [of _ Less] fits_def [of _ Greater])
qed

text \<open>Nodes are preordered, references are linearly ordered.\<close>

instantiation mpt :: preorder
begin

definition less_eq_mpt :: "mpt \<Rightarrow> mpt \<Rightarrow> bool" where
  "a \<le> b \<longleftrightarrow> mpt_cmp a b \<noteq> Greater"

definition less_mpt :: "mpt \<Rightarrow> mpt \<Rightarrow> bool" where
  "a < b \<longleftrightarrow> mpt_cmp a b = Less"

instance
proof
  fix a b c :: mpt
  show "a < b \<longleftrightarrow> a \<le> b \<and> \<not> b \<le> a"
    using mpt_cmp_reversed [of a b] by (cases "mpt_cmp a b") (auto simp: less_eq_mpt_def less_mpt_def)
  show "a \<le> a"
    using mpt_cmp_equal [of a a] by (simp add: less_eq_mpt_def mpt_eq_def)
  show "a \<le> b \<Longrightarrow> b \<le> c \<Longrightarrow> a \<le> c"
    using mpt_cmp_fits [of a b c] by (cases "mpt_cmp a b"; cases "mpt_cmp b c") (auto simp: less_eq_mpt_def fits_def)
qed

end

lemma mpt_total: "a \<le> b \<or> b \<le> a" for a b :: mpt
  using mpt_cmp_reversed [of a b] by (cases "mpt_cmp a b") (auto simp: less_eq_mpt_def)

lemma mpt_antisym: "a \<le> b \<Longrightarrow> b \<le> a \<Longrightarrow> mpt_eq a b" for a b :: mpt
  using mpt_cmp_reversed [of a b] mpt_cmp_equal [of a b] by (cases "mpt_cmp a b") (auto simp: less_eq_mpt_def)

instantiation mpt_ref :: linorder
begin

definition less_eq_mpt_ref :: "mpt_ref \<Rightarrow> mpt_ref \<Rightarrow> bool" where
  "a \<le> b \<longleftrightarrow> ref_cmp a b \<noteq> Greater"

definition less_mpt_ref :: "mpt_ref \<Rightarrow> mpt_ref \<Rightarrow> bool" where
  "a < b \<longleftrightarrow> ref_cmp a b = Less"

instance
proof
  fix a b c :: mpt_ref
  show "a < b \<longleftrightarrow> a \<le> b \<and> \<not> b \<le> a"
    using ref_cmp_laws(2) [of a b] by (cases "ref_cmp a b") (auto simp: less_eq_mpt_ref_def less_mpt_ref_def)
  show "a \<le> a"
    using ref_cmp_laws(1) [of a a] by (simp add: less_eq_mpt_ref_def)
  show "a \<le> b \<Longrightarrow> b \<le> c \<Longrightarrow> a \<le> c"
    using ref_cmp_laws(3) [of a b c] by (cases "ref_cmp a b"; cases "ref_cmp b c") (auto simp: less_eq_mpt_ref_def fits_def)
  show "a \<le> b \<Longrightarrow> b \<le> a \<Longrightarrow> a = b"
    using ref_cmp_laws(1,2) [of a b] by (cases "ref_cmp a b") (auto simp: less_eq_mpt_ref_def)
  show "a \<le> b \<or> b \<le> a"
    using ref_cmp_laws(2) [of a b] by (cases "ref_cmp a b") (auto simp: less_eq_mpt_ref_def)
qed

end

end
