(* ===== verification/Mpt_Debug.thy ===== *)
theory Mpt_Debug
  imports Mpt_Kinds Eth_State "HOL-Library.Multiset"
begin

text \<open>
  \<open>MptNode::debug_rlp\<close>: a trie as a list of lines, one for each leaf, empty slot and digest, with the
  path in front. It panics on an empty stored path and on a value that does not decode. Also the
  \<open>Debug\<close> implementations of the nodes and their references.
\<close>

section \<open>Definitions\<close>

text \<open>\<open>{n:x}\<close> of a number.\<close>

fun hexadecimal :: "nat \<Rightarrow> string" where
  "hexadecimal n = (let digit = n mod 16; c = (if digit < 10 then char_of (48 + digit) else char_of (87 + digit))
     in if n < 16 then [c] else hexadecimal (n div 16) @ [c])"

declare hexadecimal.simps [simp del]

text \<open>The decoder of the values, the formats \<open>{:?}\<close> of a value and \<open>{:#}\<close> of a digest.\<close>

record 'v debug_ext =
  db_decode :: "bytes \<Rightarrow> (rlp_error, 'v) res"
  db_value :: "'v \<Rightarrow> string"
  db_digest :: "b256 \<Rightarrow> string"

definition hex_nibs :: "u8 list \<Rightarrow> string" where
  "hex_nibs ns = concat (map (\<lambda>n. hexadecimal (unat n)) ns)"

text \<open>Evaluating a list of computations in order, where \<open>None\<close> is a panic.\<close>

fun opt_seq :: "'a option list \<Rightarrow> 'a list option" where
  "opt_seq [] = Some []"
| "opt_seq (x # xs) = (case x of None \<Rightarrow> None | Some a \<Rightarrow> map_option ((#) a) (opt_seq xs))"

fun debug_rlp :: "'v debug_ext \<Rightarrow> mpt \<Rightarrow> string list option" where
  "debug_rlp D (MptNode Null c) = Some [''Null'']"
| "debug_rlp D (MptNode (Branch children) c) =
     map_option (\<lambda>lines. concat (map (\<lambda>(i, ls). map (\<lambda>s. hexadecimal i @ '' '' @ s) ls) (enumerate 0 lines)))
       (opt_seq (map (\<lambda>child. case child of Some node \<Rightarrow> debug_rlp D node | None \<Rightarrow> Some [''None'']) children))"
| "debug_rlp D (MptNode (Leaf pre value) c) =
     (case prefix_nibs pre of
        None \<Rightarrow> None
      | Some ns \<Rightarrow> (case db_decode D value of
            Ok v \<Rightarrow> Some [hex_nibs ns @ '' -> '' @ db_value D v]
          | _ \<Rightarrow> None))"
| "debug_rlp D (MptNode (Extension pre node) c) =
     (case prefix_nibs pre of
        None \<Rightarrow> None
      | Some ns \<Rightarrow> map_option (map (\<lambda>s. hex_nibs ns @ '' '' @ s)) (debug_rlp D node))"
| "debug_rlp D (MptNode (Digest digest) c) = Some [''#'' @ db_digest D digest]"

section \<open>The \<open>Debug\<close> format of a node\<close>

definition hex_encode :: "bytes \<Rightarrow> string" where
  "hex_encode bs = concat (map (\<lambda>b. hexadecimal (unat b div 16) @ hexadecimal (unat b mod 16)) bs)"

text \<open>\<open>f.debug_struct(..)\<close> with its fields, in the one-line form of \<open>{:?}\<close>.\<close>

definition debug_struct :: "string \<Rightarrow> (string \<times> string) list \<Rightarrow> string" where
  "debug_struct name fs = (case map (\<lambda>(field, value). field @ '': '' @ value) fs of
     [] \<Rightarrow> name
   | first # rest \<Rightarrow> name @ '' { '' @ first @ concat (map (\<lambda>f. '', '' @ f) rest) @ '' }'')"

fun debug_ref :: "mpt_ref \<Rightarrow> string" where
  "debug_ref (RefBytes b) = ''Ref::Bytes('' @ hex_encode b @ '')''"
| "debug_ref (RefDigest h) = ''Ref::Digest('' @ hex_encode (b256_slice h) @ '')''"

text \<open>The data of a node, with its children already formatted.\<close>

fun debug_data :: "string node_data \<Rightarrow> string" where
  "debug_data Null = ''Null''"
| "debug_data (Leaf k v) = ''Leaf(key='' @ hex_encode k @ '', value='' @ hex_encode v @ '')''"
| "debug_data (Extension k child) = debug_struct ''Extension'' [(''key'', [CHR 0x22] @ hex_encode k @ [CHR 0x22]), (''child'', child)]"
| "debug_data (Digest h) = ''Digest('' @ hex_encode (b256_slice h) @ '')''"
| "debug_data (Branch children) = debug_struct ''Branch''
     (concat (map (\<lambda>(i, child). case child of Some c \<Rightarrow> [(''child_'' @ decimal i, c)] | None \<Rightarrow> []) (enumerate 0 children)))"

fun debug_node :: "mpt \<Rightarrow> string" where
  "debug_node (MptNode d c) = debug_struct ''MptNode''
     ((''data'', debug_data (map_node_data debug_node d)) #
      (case c of Some r \<Rightarrow> [(''cached_reference'', debug_ref r)] | None \<Rightarrow> []))"

lemma debug_branch_of_leaf:
  "debug_node (node_of (Branch [None, Some (MptNode (Leaf [0x20] [0xab, 7]) (Some (RefBytes [0xc0])))])) =
    ''MptNode { data: Branch { child_1: MptNode { data: Leaf(key=20, value=ab07), cached_reference: Ref::Bytes(c0) } } }''"
  by code_simp

text \<open>
  \<open>Debug\<close> of \<open>EthereumState\<close>: the storage tries in the order of their hashed addresses. \<open>key\<close> is the
  format of a digest.
\<close>

definition debug_map :: "(string \<times> string) list \<Rightarrow> string" where
  "debug_map entries = (case map (\<lambda>(key, value). key @ '': '' @ value) entries of
     [] \<Rightarrow> ''{}''
   | first # rest \<Rightarrow> ''{'' @ first @ concat (map (\<lambda>e. '', '' @ e) rest) @ ''}'')"

definition debug_state :: "(b256 \<Rightarrow> string) \<Rightarrow> ethereum_state \<Rightarrow> string" where
  "debug_state key self = debug_struct ''EthereumState''
     [(''state_trie'', debug_node (state_trie self)),
      (''storage_tries'', debug_map (map (\<lambda>(k, trie). (key k, debug_node trie)) (sort_key fst (storage_tries self))))]"

text \<open>The order in which the hash map holds the tries does not show.\<close>

lemma debug_state_order:
  assumes "distinct (map fst ss)" and "distinct (map fst ts)" and "set ss = set ts"
  shows "debug_state key \<lparr>state_trie = t, storage_tries = ss\<rparr> = debug_state key \<lparr>state_trie = t, storage_tries = ts\<rparr>"
proof -
  have "sort_key fst ss = sort_key fst ts"
  proof (rule sort_key_inj_key_eq)
    show "mset ss = mset (sort_key fst ts)"
      using assms by (simp add: distinct_map set_eq_iff_mset_eq_distinct)
    show "inj_on fst (set ss)" using assms(1) by (simp add: distinct_map)
  qed simp
  then show ?thesis by (simp add: debug_state_def)
qed

section \<open>When \<open>debug_rlp\<close> returns, and how many lines\<close>

fun leaf_values :: "mpt \<Rightarrow> bytes set" where
  "leaf_values (MptNode (Leaf p v) c) = {v}"
| "leaf_values (MptNode (Branch cs) c) =
     (\<Union>child \<in> set cs. case child of None \<Rightarrow> {} | Some n \<Rightarrow> leaf_values n)"
| "leaf_values (MptNode (Extension p n) c) = leaf_values n"
| "leaf_values (MptNode d c) = {}"

fun line_count :: "mpt \<Rightarrow> nat" where
  "line_count (MptNode (Branch cs) c) =
     sum_list (map (\<lambda>child. case child of None \<Rightarrow> 1 | Some n \<Rightarrow> line_count n) cs)"
| "line_count (MptNode (Extension p n) c) = line_count n"
| "line_count (MptNode d c) = 1"

lemma opt_seq_map:
  assumes "\<And>x. x \<in> set xs \<Longrightarrow> \<exists>ls. f x = Some ls \<and> length ls = g x"
  shows "\<exists>lines. opt_seq (map f xs) = Some lines \<and> map length lines = map g xs"
  using assms
proof (induction xs)
  case (Cons x xs)
  then obtain ls lines where "f x = Some ls" "length ls = g x" "opt_seq (map f xs) = Some lines" "map length lines = map g xs"
    by (metis list.set_intros(1,2))
  then show ?case by simp
qed simp

lemma length_numbered:
  "length (concat (map (\<lambda>(i, ls). map (h i) ls) (enumerate k lines))) = sum_list (map length lines)"
  by (induction lines arbitrary: k) simp_all

text \<open>
  On a trie with nodes of the right kind whose values decode it returns, with one line for each leaf,
  empty slot and digest.
\<close>

lemma debug_rlp_returns:
  "well_kinded t \<Longrightarrow> (\<And>v. v \<in> leaf_values t \<Longrightarrow> \<exists>x. db_decode D v = Ok x) \<Longrightarrow>
    \<exists>lines. debug_rlp D t = Some lines \<and> length lines = line_count t"
proof (induction t rule: mpt_induct)
  case (Branch cs c)
  let ?f = "\<lambda>child. case child of Some node \<Rightarrow> debug_rlp D node | None \<Rightarrow> Some [''None'']"
  let ?g = "\<lambda>child. case child of None \<Rightarrow> 1 | Some n \<Rightarrow> line_count n"
  have "\<exists>ls. ?f child = Some ls \<and> length ls = ?g child" if child: "child \<in> set cs" for child
  proof (cases child)
    case (Some n)
    obtain i where i: "i < length cs" "cs ! i = Some n" using child Some by (auto simp: in_set_conv_nth)
    have "well_kinded n" using Branch.prems(1) kinded_children [OF _ i] by simp
    moreover have "\<exists>x. db_decode D v = Ok x" if "v \<in> leaf_values n" for v
      using Branch.prems(2) [of v] that child Some by force
    ultimately show ?thesis using Branch.IH [OF i] Some by simp
  qed simp
  from opt_seq_map [of cs ?f ?g, OF this] obtain lines where
    "opt_seq (map ?f cs) = Some lines" "map length lines = map ?g cs" by blast
  then show ?case by (simp add: length_numbered del: One_nat_def)
next
  case (Leaf p v c)
  then obtain ns x where "prefix_nibs p = Some ns" "db_decode D v = Ok x"
    by (auto elim: path_kind_nibs)
  then show ?case by simp
next
  case (Extension p n c)
  then obtain ns where "prefix_nibs p = Some ns" by (auto elim: path_kind_nibs)
  then show ?case using Extension by auto
qed simp_all

end
