(* ===== verification/Test_Vectors.thy ===== *)
theory Test_Vectors
  imports Mpt_Properties
begin

text \<open>
  The unit tests of \<open>crates/mpt/src/mpt.rs\<close> as definitions, and the proofs that the model passes them.
  RLP is the one of \<open>Rlp_Instance\<close>; \<open>keccak256\<close> is a parameter, of which the values that a test
  expects are hypotheses.
\<close>

section \<open>Inputs\<close>

definition ascii :: "string \<Rightarrow> bytes" where
  "ascii s = map of_char s"

definition keccak_ext :: "(bytes \<Rightarrow> b256) \<Rightarrow> mpt_ext" where
  "keccak_ext k = example_ext\<lparr>keccak256 := k\<rparr>"

text \<open>\<open>to_rlp\<close> of a \<open>u8\<close>: a single byte below 128 is its own encoding, zero is the empty string.\<close>

definition u8_to_rlp :: "u8 \<Rightarrow> bytes" where
  "u8_to_rlp v = (if v = 0 then [0x80] else if v < 0x80 then [v] else [0x81, v])"

text \<open>Insertions each of which is unwrapped.\<close>

definition insert_all :: "(bytes \<times> bytes) list \<Rightarrow> mpt \<Rightarrow> (mpt_error, mpt) res" where
  "insert_all kvs t = run_updates (map (\<lambda>(k, v). (k, Some v)) kvs) t"

section \<open>The tests\<close>

definition test_trie_pointer_no_keccak :: "mpt_ext \<Rightarrow> bool" where
  "test_trie_pointer_no_keccak X = list_all (\<lambda>(k, v).
     let node = node_of (Leaf (ascii k) (ascii v)) in reference X node = RefBytes (encode X node))
     [(''do'', ''verb''), (''dog'', ''puppy''), (''doge'', ''coin''), (''horse'', ''stallion'')]"

definition test_to_encoded_path :: bool where
  "test_to_encoded_path =
     (to_encoded_path [0x0a, 0x0b, 0x0c, 0x0d] False = [0x00, 0xab, 0xcd] \<and>
      to_encoded_path [0x0a, 0x0b, 0x0c] False = [0x1a, 0xbc] \<and>
      to_encoded_path [0x0a, 0x0b, 0x0c, 0x0d] True = [0x20, 0xab, 0xcd] \<and>
      to_encoded_path [0x0a, 0x0b, 0x0c] True = [0x3a, 0xbc])"

definition test_lcp :: bool where
  "test_lcp = list_all (\<lambda>(a, b, cpl). lcp a b = cpl)
     [([] :: u8 list, [], 0), ([0xa], [0xa], 1), ([0xa, 0xb], [0xa, 0xc], 1), ([0xa, 0xb], [0xa, 0xb], 2),
      ([0xa, 0xb], [0xa, 0xb, 0xc], 2), ([0xa, 0xb, 0xc], [0xa, 0xb, 0xc], 3),
      ([0xa, 0xb, 0xc], [0xa, 0xb, 0xc, 0xd], 3), ([0xa, 0xb, 0xc, 0xd], [0xa, 0xb, 0xc, 0xd], 4)]"

text \<open>The encoding round trip at the end of several tests.\<close>

definition same_after_decoding :: "mpt_ext \<Rightarrow> mpt \<Rightarrow> bool" where
  "same_after_decoding X trie = (case decode X (encode X trie) of Ok decoded \<Rightarrow> hash X trie = hash X decoded | _ \<Rightarrow> False)"

definition test_empty :: "mpt_ext \<Rightarrow> bool" where
  "test_empty X = (let trie = mpt_default in
     is_empty trie \<and> reference X trie = RefBytes [0x80] \<and>
     hash X trie = 0x56e81f171bcc55a6ff8345e692c0f86e5b48e01b996cadc001622fb5e363b421 \<and>
     encode X trie = [0x80] \<and> mpt_length X trie = length (encode X trie) \<and> same_after_decoding X trie)"

definition test_empty_key :: bool where
  "test_empty_key = (case insert_all [([], ascii ''empty'')] mpt_default of
     Ok trie \<Rightarrow> get trie [] = Ok (Some (ascii ''empty'')) \<and> snd (delete trie []) = Ok True | _ \<Rightarrow> False)"

definition test_clear :: "mpt_ext \<Rightarrow> bool" where
  "test_clear X = (case insert_all [(ascii ''dog'', ascii ''puppy'')] mpt_default of
     Ok trie \<Rightarrow> \<not> is_empty trie \<and> hash X trie \<noteq> EMPTY_ROOT \<and> is_empty (clear trie) \<and> hash X (clear trie) = EMPTY_ROOT
   | _ \<Rightarrow> False)"

definition tiny_rlp :: bytes where
  "tiny_rlp = [0xd8, 0x16, 0xd6, 0x80, 0xc3, 0x20, 0x81, 0x80, 0xc2, 0x20, 0x01, 0x80, 0x80, 0x80, 0x80, 0x80, 0x80,
     0x80, 0x80, 0x80, 0x80, 0x80, 0x80, 0x80, 0x80]"

definition tiny_hash :: b256 where
  "tiny_hash = 0x6fbf23d6ec055dd143ff50d558559770005ff44ae1d41276f1bd83affab6dd3b"

definition test_tiny :: "mpt_ext \<Rightarrow> bool" where
  "test_tiny X = (case insert_all [(ascii ''a'', u8_to_rlp 0), (ascii ''b'', u8_to_rlp 1)] mpt_default of
     Ok trie \<Rightarrow> \<not> is_empty trie \<and> reference X trie = RefBytes tiny_rlp \<and> hash X trie = tiny_hash \<and>
       encode X trie = tiny_rlp \<and> mpt_length X trie = length (encode X trie) \<and> same_after_decoding X trie
   | _ \<Rightarrow> False)"

text \<open>
  \<open>test_partial\<close>: the child of the extension is replaced by its digest; the cache of the extension,
  filled by \<open>hash\<close>, stays.
\<close>

definition is_err :: "('e, 'a) res \<Rightarrow> bool" where
  "is_err r = (case r of Err _ \<Rightarrow> True | _ \<Rightarrow> False)"

definition test_partial :: "mpt_ext \<Rightarrow> bool" where
  "test_partial X =
     (case insert_all [(ascii ''aa'', u8_to_rlp 0), (ascii ''ab'', u8_to_rlp 1), (ascii ''ba'', u8_to_rlp 2)] mpt_default of
        Ok trie \<Rightarrow>
          (case data trie of
             Extension pre node \<Rightarrow>
               let exp_hash = hash X trie;
                   partial = MptNode (Extension pre (node_of (Digest (hash X node)))) (cached_reference (hash_fill X trie))
               in (case decode X (encode X partial) of
                     Ok trie \<Rightarrow> hash X trie = exp_hash \<and> is_err (get trie (ascii ''aa'')) \<and> is_err (get trie (ascii ''a0''))
                   | _ \<Rightarrow> False)
           | _ \<Rightarrow> False)
      | _ \<Rightarrow> False)"

definition test_for_each_leaves :: bool where
  "test_for_each_leaves = (case insert_all [(ascii ''dog'', ascii ''puppy''), (ascii ''dock'', ascii ''boat'')] mpt_default of
     Ok trie \<Rightarrow> for_each_leaves list_nibs trie \<noteq> None | _ \<Rightarrow> False)"

definition test_branch_value :: bool where
  "test_branch_value = (case insert_all [(ascii ''do'', ascii ''verb'')] mpt_default of
     Ok trie \<Rightarrow> is_err (snd (insert trie (ascii ''dog'') (ascii ''puppy''))) | _ \<Rightarrow> False)"

definition insert_vals :: "(bytes \<times> bytes) list" where
  "insert_vals = map (map_prod ascii ascii)
     [(''painting'', ''place''), (''guest'', ''ship''), (''mud'', ''leave''), (''paper'', ''call''), (''gate'', ''boast''),
      (''tongue'', ''gain''), (''baseball'', ''wait''), (''tale'', ''lie''), (''mood'', ''cope''), (''menu'', ''fear'')]"

definition insert_hash :: b256 where
  "insert_hash = 0x2bab6cdf91a23ebf3af683728ea02403a98346f99ed668eec572d55c70a4b08f"

text \<open>\<open>assert!(trie.insert(..).unwrap())\<close> in a loop.\<close>

fun insert_new :: "(bytes \<times> bytes) list \<Rightarrow> mpt \<Rightarrow> mpt option" where
  "insert_new [] trie = Some trie"
| "insert_new ((k, v) # kvs) trie = (case insert trie k v of (trie', Ok True) \<Rightarrow> insert_new kvs trie' | _ \<Rightarrow> None)"

definition test_insert :: "mpt_ext \<Rightarrow> bool" where
  "test_insert X = (case insert_new insert_vals mpt_default of
     None \<Rightarrow> False
   | Some trie \<Rightarrow>
       hash X trie = insert_hash \<and>
       list_all (\<lambda>(key, val). get trie key = Ok (Some val)) insert_vals \<and>
       (let key = fst (hd insert_vals); (trie1, r1) = insert trie key (ascii ''new''); (trie2, r2) = insert trie1 key (ascii ''new'')
        in r1 = Ok True \<and> r2 = Ok False \<and> same_after_decoding X trie2))"

section \<open>The model passes them\<close>

lemma keccak_ext_sel [simp]:
  "keccak256 (keccak_ext k) = k" "empty_string_code (keccak_ext k) = 0x80"
  "header_encode (keccak_ext k) = w_header" "slice_encode (keccak_ext k) = w_slice"
  "slice_length (keccak_ext k) = (\<lambda>bs. length (w_slice bs))" "b256_encode (keccak_ext k) = (\<lambda>d. w_slice (b256_slice d))"
  "length_of_length (keccak_ext k) = (\<lambda>n. length (w_header True n))"
  by (simp_all add: keccak_ext_def example_ext_def)

lemma passes_trie_pointer_no_keccak: "test_trie_pointer_no_keccak (keccak_ext k)"
  by (simp add: test_trie_pointer_no_keccak_def ascii_def node_of_def calc_reference_def encode_def refs_def ex_writer)

lemma passes_to_encoded_path: test_to_encoded_path
  by code_simp

lemma passes_lcp: test_lcp
  by code_simp

lemma passes_empty_key: test_empty_key
  by code_simp

lemma passes_for_each_leaves: test_for_each_leaves
  by code_simp

lemma passes_branch_value: test_branch_value
  by code_simp

text \<open>The laws of the RLP codec do not depend on the hash function.\<close>

lemma keccak_ext_item: "rlp_item (keccak_ext k) = rlp_item example_ext"
proof -
  have l: "rlp_list (keccak_ext k) = rlp_list example_ext" by (rule ext) (simp add: rlp_list_def)
  have e: "slice_encode (keccak_ext k) = slice_encode example_ext" by simp
  show ?thesis
  proof (intro ext iffI)
    show "rlp_item example_ext x" if "rlp_item (keccak_ext k) x" for x
      using that by induction (auto simp only: l e intro: rlp_item.intros)
    show "rlp_item (keccak_ext k) x" if "rlp_item example_ext x" for x
      using that by induction (auto simp only: l [symmetric] e [symmetric] intro: rlp_item.intros)
  qed
qed

lemma keccak_ext_laws: "rlp_laws (keccak_ext k)" "length_laws (keccak_ext k)" "rlp_shrinks (keccak_ext k)"
proof -
  have l: "rlp_list (keccak_ext k) = rlp_list example_ext" by (rule ext) (simp add: rlp_list_def)
  have r: "rlp_prototype (keccak_ext k) = rlp_prototype example_ext" "rlp_at (keccak_ext k) = rlp_at example_ext"
    "rlp_val_at (keccak_ext k) = rlp_val_at example_ext" "rlp_as_val (keccak_ext k) = rlp_as_val example_ext"
    "rlp_iter (keccak_ext k) = rlp_iter example_ext"
    by (simp_all add: keccak_ext_def)
  show "rlp_laws (keccak_ext k)"
    using example_rlp_laws unfolding rlp_laws_def keccak_ext_item l r by simp
  show "length_laws (keccak_ext k)" using example_length_laws by (simp add: length_laws_def)
  show "rlp_shrinks (keccak_ext k)" using example_rlp_shrinks by (simp add: rlp_shrinks_def r)
qed

text \<open>The round trip holds for every canonical trie.\<close>

lemma canonical_same_after_decoding:
  assumes "canon t" and "sized (keccak_ext k) t" and "coherent (keccak_ext k) t"
  shows "same_after_decoding (keccak_ext k) t"
  using decode_encoded_canon [OF keccak_ext_laws assms] by (simp add: same_after_decoding_def)

text \<open>A reference is at most 33 bytes, so short paths and values are enough for \<open>sized\<close>.\<close>

fun short :: "mpt \<Rightarrow> bool" where
  "short (MptNode (Branch cs) c) = (length cs = 16 \<and> list_all (\<lambda>x. case x of None \<Rightarrow> True | Some n \<Rightarrow> short n) cs)"
| "short (MptNode (Leaf p v) c) = (length p < 56 \<and> length v < 56)"
| "short (MptNode (Extension p n) c) = (length p < 56 \<and> short n)"
| "short (MptNode _ c) = True"

lemma fresh_reference_length: "reference_length (reference X (erase t)) \<le> 33"
  by (cases t; cases "data t") (auto simp: calc_reference_def Let_def)

lemma length_w_slice: "length bs < 56 \<Longrightarrow> length (w_slice bs) < 57"
  by (auto simp: w_slice_def w_header_def w_prefix_def)

lemma short_sized: "short t \<Longrightarrow> sized (keccak_ext k) t"
proof (induction t rule: short.induct)
  case (1 cs c)
  have "sum_list (map (case_option (Suc 0) (\<lambda>x. reference_length (fresh_ref (keccak_ext k) x))) cs) \<le> sum_list (map (\<lambda>x. 33) cs)"
    by (rule sum_list_mono) (auto split: option.split intro: fresh_reference_length)
  then have "sum_list (map (case_option (Suc 0) (\<lambda>x. reference_length (fresh_ref (keccak_ext k) x))) cs) \<le> 528"
    using 1(2) by (simp add: sum_list_triv)
  then show ?case
    using 1 by (auto simp: size_ok_def o_def list_all_iff split: option.splits)
next
  case (2 p v c)
  then show ?case using length_w_slice [of p] length_w_slice [of v] by (simp add: size_ok_def)
next
  case (3 p n c)
  then show ?case
    using length_w_slice [of p] fresh_reference_length [of "keccak_ext k" n] by (simp add: size_ok_def)
qed (simp_all add: size_ok_def)

lemma uncached_coherent: "erase t = t \<Longrightarrow> coherent X t"
  by (metis coherent_erase)

lemma round_trip_passes: "canon t \<Longrightarrow> short t \<Longrightarrow> erase t = t \<Longrightarrow> same_after_decoding (keccak_ext k) t"
  by (rule canonical_same_after_decoding) (simp_all add: short_sized uncached_coherent)

text \<open>The decoder accepts the encoding of an empty trie.\<close>

lemma empty_decoded: "decode (keccak_ext k) [0x80] = Ok mpt_default"
  using null_item [OF keccak_ext_laws(1), of k] by (simp add: decode_def mpt_default_def)

lemma passes_empty: "test_empty (keccak_ext k)"
  by (simp add: test_empty_def Let_def same_after_decoding_def empty_decoded mpt_default_def node_of_def is_empty_def
      hash_def calc_reference_def encode_def mpt_length_def refs_def EMPTY_ROOT_def ex_writer)

definition tiny_children :: "mpt option list" where
  "tiny_children = [None, Some (node_of (Leaf [0x20] [0x80])), Some (node_of (Leaf [0x20] [1])),
     None, None, None, None, None, None, None, None, None, None, None, None, None]"

definition tiny_trie :: mpt where
  "tiny_trie = node_of (Extension [0x16] (node_of (Branch tiny_children)))"

lemma tiny_trie: "insert_all [(ascii ''a'', u8_to_rlp 0), (ascii ''b'', u8_to_rlp 1)] mpt_default = Ok tiny_trie"
  by code_simp

lemma tiny_reference: "reference (keccak_ext k) tiny_trie = RefBytes tiny_rlp"
  by (simp add: tiny_trie_def tiny_children_def node_of_def calc_reference_def ex_writer Let_def tiny_rlp_def)

lemma tiny_encode: "encode (keccak_ext k) tiny_trie = tiny_rlp"
  by (simp add: tiny_trie_def tiny_children_def node_of_def calc_reference_def encode_def refs_def ex_writer Let_def tiny_rlp_def)

lemma passes_tiny: "k tiny_rlp = tiny_hash \<Longrightarrow> test_tiny (keccak_ext k)"
proof -
  assume "k tiny_rlp = tiny_hash"
  moreover have "k tiny_rlp \<noteq> EMPTY_ROOT" if "k tiny_rlp = tiny_hash"
    using that by (simp add: tiny_hash_def EMPTY_ROOT_def)
  moreover have "hash (keccak_ext k) tiny_trie = k tiny_rlp" "\<not> is_empty tiny_trie"
    using tiny_reference [of k] by (simp_all add: hash_def tiny_trie_def node_of_def is_empty_def keccak_def)
  moreover have "same_after_decoding (keccak_ext k) tiny_trie"
    by (rule round_trip_passes) code_simp+
  ultimately show "test_tiny (keccak_ext k)"
    using tiny_reference [of k] tiny_encode [of k] length_encode_refs [OF keccak_ext_laws(2), of k "refs (keccak_ext k) tiny_trie"]
    by (simp add: test_tiny_def tiny_trie encode_def mpt_length_def Let_def)
qed

definition partial_children :: "mpt option list" where
  "partial_children = [None, Some tiny_trie, Some (node_of (Leaf [0x20, 0x61] [2])),
     None, None, None, None, None, None, None, None, None, None, None, None, None]"

lemma partial_trie:
  "insert_all [(ascii ''aa'', u8_to_rlp 0), (ascii ''ab'', u8_to_rlp 1), (ascii ''ba'', u8_to_rlp 2)] mpt_default
     = Ok (node_of (Extension [0x16] (node_of (Branch partial_children))))"
  by code_simp

lemma partial_digest: "reference (keccak_ext k) (node_of (Branch partial_children)) = RefDigest (hash (keccak_ext k) (node_of (Branch partial_children)))"
  using tiny_reference [of k]
  by (simp add: partial_children_def node_of_def hash_def calc_reference_def ex_writer Let_def tiny_rlp_def)

lemma encode_any_cache: "encode X (MptNode d c) = encode X (MptNode d None)"
  by (simp add: encode_def refs_def)

lemma passes_partial: "test_partial (keccak_ext k)"
proof -
  let ?node = "node_of (Branch partial_children)"
  let ?partial = "MptNode (Extension [0x16] (node_of (Digest (hash (keccak_ext k) ?node)))) None"
  have "valid_path False [0x16] \<and> prefix_nibs [0x16] \<noteq> Some []" by code_simp
  then have "canon ?partial" by (simp add: node_of_def is_digest_def)
  moreover have "short ?partial" "erase ?partial = ?partial" by (simp_all add: node_of_def)
  ultimately have d: "decode (keccak_ext k) (encode (keccak_ext k) ?partial) = Ok (cut_refs (keccak_ext k) ?partial)"
    by (metis decode_encoded_canon [OF keccak_ext_laws] short_sized uncached_coherent)
  have c: "cut_refs (keccak_ext k) ?partial = ?partial" by (simp add: node_of_def calc_reference_def)
  have h: "hash (keccak_ext k) ?partial = hash (keccak_ext k) (node_of (Extension [0x16] ?node))"
    using partial_digest [of k] by (simp add: hash_def [of _ "node_of _"] hash_def [of _ "MptNode _ _"] node_of_def calc_reference_def)
  have "prefix_nibs [0x16] = Some [6] \<and> strip_prefix [6] (to_nibs (ascii ''aa'')) = Some [1, 6, 1] \<and>
      strip_prefix [6] (to_nibs (ascii ''a0'')) = Some [1, 3, 0]" by code_simp
  then have "is_err (get ?partial (ascii ''aa''))" "is_err (get ?partial (ascii ''a0''))"
    by (simp_all add: get_def node_of_def is_err_def)
  then show ?thesis
    using d c h by (simp add: test_partial_def partial_trie node_of_def Let_def encode_any_cache [of _ _ "cached_reference _"])
qed

lemma passes_clear: "k (encode example_ext (node_of (Leaf (0x20 # ascii ''dog'') (ascii ''puppy'')))) \<noteq> EMPTY_ROOT \<Longrightarrow> test_clear (keccak_ext k)"
proof -
  have "insert_all [(ascii ''dog'', ascii ''puppy'')] mpt_default = Ok (node_of (Leaf (0x20 # ascii ''dog'') (ascii ''puppy'')))"
    by code_simp
  then show "k (encode example_ext (node_of (Leaf (0x20 # ascii ''dog'') (ascii ''puppy'')))) \<noteq> EMPTY_ROOT \<Longrightarrow> test_clear (keccak_ext k)"
    by (simp add: test_clear_def clear_def is_empty_def hash_def node_of_def calc_reference_def encode_def refs_def ascii_def ex_writer keccak_def)
qed

text \<open>All of \<open>test_insert\<close> but the value of the hash holds for every hash function.\<close>

definition insert_trie :: mpt where
  "insert_trie = (case insert_new insert_vals mpt_default of Some trie \<Rightarrow> trie | None \<Rightarrow> mpt_default)"

definition insert_again :: "(mpt \<times> (mpt_error, bool) res) \<times> (mpt \<times> (mpt_error, bool) res)" where
  "insert_again = (let key = fst (hd insert_vals); first = insert insert_trie key (ascii ''new'')
     in (first, insert (fst first) key (ascii ''new'')))"

lemma insert_trie:
  "insert_new insert_vals mpt_default = Some insert_trie"
  "list_all (\<lambda>(key, val). get insert_trie key = Ok (Some val)) insert_vals"
  "snd (fst insert_again) = Ok True \<and> snd (snd insert_again) = Ok False"
  "canon (fst (snd insert_again)) \<and> short (fst (snd insert_again)) \<and> erase (fst (snd insert_again)) = fst (snd insert_again)"
  by code_simp+

lemma passes_insert: "test_insert (keccak_ext k) \<longleftrightarrow> hash (keccak_ext k) insert_trie = insert_hash"
  using insert_trie(2-4) round_trip_passes [of "fst (snd insert_again)" k]
  by (simp add: test_insert_def insert_trie(1) insert_again_def Let_def split_beta)

end
