(* ===== verification/Test_Keccak.thy ===== *)
theory Test_Keccak
  imports Test_Vectors Eth_Update
begin

text \<open>
  \<open>test_keccak_trie\<close> of \<open>crates/mpt/src/mpt.rs\<close>, for any number of keys: a trie that is filled and emptied one key
  at a time has at every point the hash of a trie that is built from scratch in the opposite order. The test passes
  for every hash function without a collision on the keys; only the hash it expects at the end is a hypothesis.
\<close>

section \<open>The test\<close>

text \<open>\<open>usize::to_be_bytes\<close> on a 64-bit target.\<close>

definition usize_be_bytes :: "nat \<Rightarrow> bytes" where
  "usize_be_bytes i = map (\<lambda>j. of_nat (i div 256 ^ j)) (rev [0..<8])"

text \<open>A reference trie; \<open>enc\<close> is the encoder of \<open>usize\<close>. Every insertion is unwrapped.\<close>

definition reference_trie :: "(nat \<Rightarrow> bytes) \<Rightarrow> (nat \<Rightarrow> bytes) \<Rightarrow> nat list \<Rightarrow> (mpt_error, mpt) res" where
  "reference_trie key enc js = res_fold (\<lambda>j t. unwrap_mut (insert_rlp enc t (key j) j)) js mpt_default"

text \<open>The loops; \<open>hash\<close> fills the caches of the trie. \<open>None\<close> is a failed assertion.\<close>

fun insert_phase :: "mpt_ext \<Rightarrow> (nat \<Rightarrow> bytes) \<Rightarrow> (nat \<Rightarrow> bytes) \<Rightarrow> nat list \<Rightarrow> mpt \<Rightarrow> mpt option" where
  "insert_phase X key enc [] trie = Some trie"
| "insert_phase X key enc (i # is) trie =
     (case insert_rlp enc trie (key i) i of
        (trie', Ok True) \<Rightarrow>
          (case reference_trie key enc (rev [0..<i + 1]) of
             Ok rebuilt \<Rightarrow>
               if hash X trie' = hash X rebuilt then insert_phase X key enc is (hash_fill X trie') else None
           | _ \<Rightarrow> None)
      | _ \<Rightarrow> None)"

fun delete_phase :: "mpt_ext \<Rightarrow> (nat \<Rightarrow> bytes) \<Rightarrow> (nat \<Rightarrow> bytes) \<Rightarrow> nat \<Rightarrow> nat list \<Rightarrow> mpt \<Rightarrow> mpt option" where
  "delete_phase X key enc N [] trie = Some trie"
| "delete_phase X key enc N (i # is) trie =
     (case delete trie (key i) of
        (trie', Ok True) \<Rightarrow>
          (case reference_trie key enc (rev [i + 1..<N]) of
             Ok rebuilt \<Rightarrow>
               if hash X trie' = hash X rebuilt then delete_phase X key enc N is (hash_fill X trie') else None
           | _ \<Rightarrow> None)
      | _ \<Rightarrow> None)"

definition test_keccak_trie ::
  "mpt_ext \<Rightarrow> (nat \<Rightarrow> bytes) \<Rightarrow> (bytes \<Rightarrow> (rlp_error, nat) res) \<Rightarrow> nat \<Rightarrow> b256 \<Rightarrow> bool" where
  "test_keccak_trie X enc dec N expected =
     (let key = (\<lambda>i. b256_slice (keccak X (usize_be_bytes i))) in
      case insert_phase X key enc [0..<N] mpt_default of
        None \<Rightarrow> False
      | Some trie \<Rightarrow>
          hash X trie = expected \<and>
          list_all (\<lambda>i. get_rlp dec trie (key i) = Ok (Some i) \<and> get trie (key (i + N)) = Ok None) [0..<N] \<and>
          (case delete_phase X key enc N [0..<N] (hash_fill X trie) of None \<Rightarrow> False | Some trie \<Rightarrow> is_empty trie))"

definition keccak_expected :: b256 where
  "keccak_expected = 0x7310027edebdd1f7c950a7fb3413d551e85dff150d45aca4198c2f6315f9b4a7"

section \<open>A trie and the map it holds\<close>

definition holds :: "mpt_ext \<Rightarrow> (bytes \<Rightarrow> bytes option) \<Rightarrow> mpt \<Rightarrow> bool" where
  "holds X m t \<longleftrightarrow> trie_inv 64 t \<and> coherent X t \<and>
     (\<forall>ks. nibbles ks \<longrightarrow> get_internal t ks = Ok (if \<exists>key. ks = to_nibs key then m (pack_pairs ks) else None))"

lemma holds_get: "holds X m t \<Longrightarrow> get t key = Ok (m key)"
  by (simp add: holds_def get_def)

lemma holds_default: "holds X Map.empty mpt_default"
  by (simp add: holds_def trie_inv_def mpt_default_def node_of_def wf_trie_def is_empty_def)

lemma holds_fill: "holds X m t \<Longrightarrow> holds X m (hash_fill X t)"
  using hash_fill_effect [of X t] get_cong [of "hash_fill X t" t] by (simp add: holds_def hash_fill_inv)

lemma holds_hash: "holds X m s \<Longrightarrow> holds X m t \<Longrightarrow> erase s = erase t \<and> hash X s = hash X t"
  using tr.repr_unique [of 64 s t] hash_coherent [of X s] hash_coherent [of X t] by (simp add: holds_def)

lemma holds_insert:
  assumes "holds X m t" and "length k = 32"
  shows "\<exists>t'. insert_rlp enc t k v = (t', Ok (m k \<noteq> Some (enc v))) \<and> holds X (m(k \<mapsto> enc v)) t'"
proof -
  have "get_internal t (to_nibs k) = Ok (m k)" using assms(1) by (simp add: holds_def)
  then obtain t' where t': "insert_internal t (to_nibs k) (enc v) = (t', Ok (m k \<noteq> Some (enc v)))" "trie_inv 64 t'"
    "\<And>ks. nibbles ks \<Longrightarrow> get_internal t' ks = (if ks = to_nibs k then Ok (Some (enc v)) else get_internal t ks)"
    using insert_internal_ok [of 64 t "to_nibs k" "m k" "enc v"] assms by (auto simp: holds_def)
  then show ?thesis
    using assms(1) coherent_insert_internal [OF t'(1)] by (auto simp: insert_rlp_def holds_def)
qed

lemma holds_delete:
  assumes "holds X m t" and "length k = 32"
  shows "\<exists>t'. delete t k = (t', Ok (m k \<noteq> None)) \<and> holds X (m(k := None)) t'"
proof -
  have "get_internal t (to_nibs k) = Ok (m k)" using assms(1) by (simp add: holds_def)
  then obtain t' where t': "delete_internal t (to_nibs k) = (t', Ok (m k \<noteq> None))" "trie_inv 64 t'"
    "\<And>ks. nibbles ks \<Longrightarrow> get_internal t' ks = (if ks = to_nibs k then Ok None else get_internal t ks)"
    using delete_internal_ok [of 64 t "to_nibs k" "m k"] assms by (auto simp: holds_def)
  then show ?thesis
    using assms(1) coherent_delete_internal [OF t'(1)] by (auto simp: delete_def holds_def)
qed

section \<open>The loops\<close>

definition tab :: "(nat \<Rightarrow> bytes) \<Rightarrow> (nat \<Rightarrow> bytes) \<Rightarrow> nat list \<Rightarrow> bytes \<Rightarrow> bytes option" where
  "tab key enc js = map_of (map (\<lambda>j. (key j, enc j)) js)"

lemma tab_simps: "tab key enc [] = Map.empty" "tab key enc (j # js) = (tab key enc js)(key j \<mapsto> enc j)"
  by (simp_all add: tab_def)

lemma tab_eq:
  assumes "inj_on key (set js)" and "distinct js" and "distinct js'" and "set js = set js'"
  shows "tab key enc js = tab key enc js'"
  using assms map_of_inject_set [of "map (\<lambda>j. (key j, enc j)) js" "map (\<lambda>j. (key j, enc j)) js'"]
  by (simp add: tab_def distinct_map o_def)

lemma tab_None: "key i \<notin> key ` set js \<Longrightarrow> tab key enc js (key i) = None"
  by (simp add: tab_def map_of_eq_None_iff image_image)

lemma tab_Some: "inj_on key (set js) \<Longrightarrow> i \<in> set js \<Longrightarrow> tab key enc js (key i) = Some (enc i)"
  by (induction js) (auto simp: tab_simps inj_on_def)

lemma reference_holds:
  assumes "\<And>j. length (key j) = 32"
  shows "\<exists>t. reference_trie key enc js = Ok t \<and> holds X (tab key enc (rev js)) t"
proof -
  have "\<exists>t. res_fold (\<lambda>j t. unwrap_mut (insert_rlp enc t (key j) j)) js s = Ok t \<and> holds X (tab key enc (rev js @ done)) t"
    if "holds X (tab key enc done) s" for s "done"
    using that
  proof (induction js arbitrary: s "done")
    case (Cons j js)
    obtain s' where s': "insert_rlp enc s (key j) j = (s', Ok (tab key enc done (key j) \<noteq> Some (enc j)))"
      "holds X (tab key enc (j # done)) s'"
      using holds_insert [OF Cons.prems assms, of enc j j] by (auto simp: tab_simps)
    then show ?case using Cons.IH [OF s'(2)] by (simp add: unwrap_mut_def)
  qed simp
  from this [of "[]" mpt_default] show ?thesis
    using holds_default [of X] by (simp add: reference_trie_def tab_simps)
qed

lemma insert_phase_holds:
  assumes "\<And>j. length (key j) = 32" and "inj_on key {..<N}" and "i + n = N" and "holds X (tab key enc [0..<i]) t"
  shows "\<exists>t'. insert_phase X key enc [i..<N] t = Some t' \<and> holds X (tab key enc [0..<N]) t'"
  using assms(3,4)
proof (induction n arbitrary: i t)
  case (Suc n)
  then have i: "i < N" "[i..<N] = i # [Suc i..<N]" by (simp_all add: upt_conv_Cons)
  have "key i \<notin> key ` set [0..<i]"
    using inj_on_image_mem_iff [OF assms(2), of i "set [0..<i]"] i(1) by (simp add: subset_iff)
  then obtain t' where t': "insert_rlp enc t (key i) i = (t', Ok True)" "holds X (tab key enc (i # [0..<i])) t'"
    using holds_insert [OF Suc.prems(2) assms(1), of enc i i] by (auto simp: tab_None tab_simps)
  obtain r where r: "reference_trie key enc (rev [0..<i + 1]) = Ok r" "holds X (tab key enc [0..<Suc i]) r"
    using reference_holds [of key enc "rev [0..<i + 1]" X] assms(1) by auto
  have "tab key enc (i # [0..<i]) = tab key enc [0..<Suc i]"
    by (rule tab_eq [OF inj_on_subset [OF assms(2)]]) (use i(1) in auto)
  then have t'': "holds X (tab key enc [0..<Suc i]) t'" using t'(2) by simp
  have "\<exists>t''. insert_phase X key enc [Suc i..<N] (hash_fill X t') = Some t'' \<and> holds X (tab key enc [0..<N]) t''"
    by (rule Suc.IH) (use Suc.prems(1) holds_fill [OF t''] in auto)
  then show ?case using t'(1) r holds_hash [OF t'' r(2)] by (simp add: i(2))
qed simp

lemma delete_phase_holds:
  assumes "\<And>j. length (key j) = 32" and "inj_on key {..<N}" and "i + n = N" and "holds X (tab key enc [i..<N]) t"
  shows "\<exists>t'. delete_phase X key enc N [i..<N] t = Some t' \<and> holds X Map.empty t'"
  using assms(3,4)
proof (induction n arbitrary: i t)
  case (Suc n)
  then have i: "i < N" "[i..<N] = i # [Suc i..<N]" by (simp_all add: upt_conv_Cons)
  have "key i \<notin> key ` set [Suc i..<N]"
    using inj_on_image_mem_iff [OF assms(2), of i "set [Suc i..<N]"] i(1) by (simp add: subset_iff)
  then have m: "(tab key enc [i..<N])(key i := None) = tab key enc [Suc i..<N]" "tab key enc [i..<N] (key i) \<noteq> None"
    using tab_None [of key i "[Suc i..<N]" enc] by (auto simp: i(2) tab_simps)
  obtain t' where t': "delete t (key i) = (t', Ok True)" "holds X (tab key enc [Suc i..<N]) t'"
    using holds_delete [OF Suc.prems(2) assms(1), of i] m by auto
  obtain r where r: "reference_trie key enc (rev [i + 1..<N]) = Ok r" "holds X (tab key enc [Suc i..<N]) r"
    using reference_holds [of key enc "rev [i + 1..<N]" X] assms(1) by auto
  have "\<exists>t''. delete_phase X key enc N [Suc i..<N] (hash_fill X t') = Some t'' \<and> holds X Map.empty t''"
    by (rule Suc.IH) (use Suc.prems(1) holds_fill [OF t'(2)] in auto)
  then show ?case using t'(1) r holds_hash [OF t'(2) r(2)] by (simp add: i(2))
qed (simp add: tab_simps)

section \<open>The model passes it\<close>

text \<open>
  For every number of keys, every hash function that is injective on them and on as many other ones, and every
  codec of the numbers that reads back what it writes.
\<close>

lemma passes_keccak_trie:
  assumes inj: "inj_on (\<lambda>i. b256_slice (keccak X (usize_be_bytes i))) {..<2 * N}" and codec: "\<And>i. dec (enc i) = Ok i"
    and expected: "\<And>t. insert_phase X (\<lambda>i. b256_slice (keccak X (usize_be_bytes i))) enc [0..<N] mpt_default = Some t \<Longrightarrow>
      hash X t = expected"
  shows "test_keccak_trie X enc dec N expected"
proof -
  let ?key = "\<lambda>i. b256_slice (keccak X (usize_be_bytes i))"
  have len: "length (?key j) = 32" for j by simp
  have inj': "inj_on ?key {..<N}" using inj by (rule inj_on_subset) auto
  obtain t where t: "insert_phase X ?key enc [0..<N] mpt_default = Some t" "holds X (tab ?key enc [0..<N]) t"
    using insert_phase_holds [OF len inj', of 0 N X enc mpt_default] holds_default [of X] by (auto simp: tab_simps)
  obtain u where u: "delete_phase X ?key enc N [0..<N] (hash_fill X t) = Some u" "holds X Map.empty u"
    using delete_phase_holds [OF len inj', of 0 N X enc "hash_fill X t"] holds_fill [OF t(2)] by auto
  have "erase u = erase mpt_default" using holds_hash [OF u(2) holds_default] by simp
  then have "is_empty u" by (metis is_empty_erase mpt_default_def node_of_def is_empty_def mpt.sel(1) node_data.case(1))
  moreover have "get_rlp dec t (?key i) = Ok (Some i) \<and> get t (?key (i + N)) = Ok None" if "i < N" for i
  proof -
    have "tab ?key enc [0..<N] (?key i) = Some (enc i)" using inj' that by (intro tab_Some) (auto simp: atLeast0LessThan)
    moreover have "?key (i + N) \<notin> ?key ` set [0..<N]"
    proof
      assume "?key (i + N) \<in> ?key ` set [0..<N]"
      then obtain j where "j < N" "?key (i + N) = ?key j" by auto
      then show False using inj_onD [OF inj, of "i + N" j] that by auto
    qed
    then have "tab ?key enc [0..<N] (?key (i + N)) = None" by (rule tab_None)
    ultimately show ?thesis by (simp add: get_rlp_def holds_get [OF t(2)] codec)
  qed
  ultimately show ?thesis
    using t(1) u(1) expected by (simp add: test_keccak_trie_def Let_def list_all_iff)
qed

end
