(* ===== verification/Test_Chains.thy ===== *)
theory Test_Chains
  imports Primitives
begin

text \<open>
  The tests of \<open>crates/primitives/src/chain_spec.rs\<close>: each specification is the one of its chain. \<open>id\<close> of a
  chain is a function of the library.
\<close>

definition test_mainnet_chain_spec :: "('v \<Rightarrow> u64) \<Rightarrow> ('v, 'json) chain_ext \<Rightarrow> bool" where
  "test_mainnet_chain_spec chain_id C = (case spec_mainnet C of Ok spec \<Rightarrow> 1 = chain_id (cs_chain spec) | _ \<Rightarrow> False)"

definition test_op_mainnet_chain_spec :: "('v \<Rightarrow> u64) \<Rightarrow> ('v, 'json) chain_ext \<Rightarrow> bool" where
  "test_op_mainnet_chain_spec chain_id C = (case spec_op_mainnet C of Ok spec \<Rightarrow> 10 = chain_id (cs_chain spec) | _ \<Rightarrow> False)"

definition test_linea_mainnet_chain_spec :: "('v \<Rightarrow> u64) \<Rightarrow> ('v, 'json) chain_ext \<Rightarrow> bool" where
  "test_linea_mainnet_chain_spec chain_id C =
     (case spec_linea_mainnet C of Ok spec \<Rightarrow> 59144 = chain_id (cs_chain spec) | _ \<Rightarrow> False)"

definition test_sepolia_chain_spec :: "('v \<Rightarrow> u64) \<Rightarrow> ('v, 'json) chain_ext \<Rightarrow> bool" where
  "test_sepolia_chain_spec chain_id C =
     (case spec_sepolia C of Ok spec \<Rightarrow> 11155111 = chain_id (cs_chain spec) | _ \<Rightarrow> False)"

text \<open>What the library and the genesis files compiled into the crate say of the chains.\<close>

definition chains_named :: "('v \<Rightarrow> u64) \<Rightarrow> ('v, 'json) chain_ext \<Rightarrow> bool" where
  "chains_named chain_id C \<longleftrightarrow>
     chain_id (chain_mainnet C) = 1 \<and> chain_id (chain_optimism_mainnet C) = 10 \<and> chain_id (chain_sepolia C) = 11155111 \<and>
     list_all (\<lambda>(file, id). \<exists>json. serde_genesis C file = Some json \<and> chain_id (cs_chain (spec_from_genesis C json)) = id)
       [(linea_genesis_json C, 59144), (goat_genesis_json C, 2345), (goat_testnet_genesis_json C, 48816)]"

lemma passes_chain_specs:
  assumes "chains_named chain_id C"
  shows "test_mainnet_chain_spec chain_id C" "test_op_mainnet_chain_spec chain_id C"
    "test_linea_mainnet_chain_spec chain_id C" "test_sepolia_chain_spec chain_id C"
  using assms
  by (auto simp: test_mainnet_chain_spec_def test_op_mainnet_chain_spec_def test_linea_mainnet_chain_spec_def
      test_sepolia_chain_spec_def spec_mainnet_def spec_op_mainnet_def spec_linea_mainnet_def spec_sepolia_def
      spec_of_json_def genesis_from_json_def chains_named_def)

text \<open>
  The chain of a specification is the one that the chain id of the genesis names, for every genesis but a custom
  one, which has no chain id.
\<close>

lemma spec_of_named_chain:
  assumes "chains_named chain_id C" and "chain_id_of_genesis g = Ok n"
    and "chain_spec_of_genesis C g = Ok spec \<or> op_chain_spec_of_genesis C g = Ok spec"
  shows "chain_id (cs_chain spec) = n"
  using assms
  by (cases g) (auto simp: spec_of_json_def genesis_from_json_def chains_named_def)

end
