(* ===== verification/Cycle_Report.thy ===== *)
theory Cycle_Report
  imports Cli
begin

text \<open>
  \<open>bin/host/tests/cycle_count_diff.rs\<close>: the comparison of cycle counts in continuous integration. It runs
  twice with a hook of its own: on the branch of a change the hook stores the counts of a block in a file,
  on the base branch it prints a table of both counts and appends it to the output of the job.
\<close>

section \<open>The environment\<close>

text \<open>
  The libraries that print: the separated numbers, the table, the JSON of the counts; the machine's floating-point
  operations on \<open>f64\<close> with the format \<open>{:.2}\<close>; environment variables, and the outcome of file operations, where
  writing also says what was written before an error.
\<close>

record stats =
  st_total_cycle_count :: u64
  st_deserialize_inputs :: u64
  st_initialize_witness_db_cycles_count :: u64
  st_recover_senders_cycles_count :: u64
  st_block_execution_cycles_count :: u64
  st_block_validation_cycles_count :: u64
  st_state_root_computation_cycles_count :: u64
  st_syscall_count :: u64
  st_prover_gas :: u64

type_synonym table_row = "(string \<times> string) list"

record 'f diff_ext =
  dx_overflow_checks :: bool
  dx_separate_u64 :: "u64 \<Rightarrow> string"
  dx_separate_i64 :: "64 word \<Rightarrow> string"
  dx_f64 :: "u64 \<Rightarrow> 'f"
  dx_sub :: "'f \<Rightarrow> 'f \<Rightarrow> 'f"
  dx_div :: "'f \<Rightarrow> 'f \<Rightarrow> 'f"
  dx_mul :: "'f \<Rightarrow> 'f \<Rightarrow> 'f"
  dx_minus_100 :: 'f
  dx_format_2 :: "'f \<Rightarrow> string"
  dx_mk_table :: "table_row list \<Rightarrow> string"
  dx_to_json :: "stats \<Rightarrow> (string, string) res"
  dx_from_json :: "string \<Rightarrow> (string, stats) res"
  dx_var :: "string \<Rightarrow> (string, string) res"
  dx_create :: "string \<Rightarrow> (string, unit) res"
  dx_open :: "string \<Rightarrow> (string, unit) res"
  dx_write :: "string \<Rightarrow> string \<Rightarrow> (string, unit) res \<times> string"

text \<open>The files by their paths, and the lines on standard output.\<close>

record diff_world =
  dw_files :: "string \<Rightarrow> string option"
  dw_printed :: "string list"

type_synonym 'a dio = "diff_world \<Rightarrow> (string, 'a) res \<times> diff_world"

definition dio_bind :: "'a dio \<Rightarrow> ('a \<Rightarrow> 'b dio) \<Rightarrow> 'b dio" where
  "dio_bind m f = (\<lambda>w. case m w of (Ok x, w') \<Rightarrow> f x w' | (Err e, w') \<Rightarrow> (Err e, w') | (Panic, w') \<Rightarrow> (Panic, w'))"

definition dio_lift :: "(string, 'a) res \<Rightarrow> 'a dio" where
  "dio_lift r = (\<lambda>w. (r, w))"

text \<open>\<open>File::create\<close> empties the file, opening to append creates it when there is none.\<close>

definition file_create :: "'f diff_ext \<Rightarrow> string \<Rightarrow> unit dio" where
  "file_create D path = dio_bind (dio_lift (dx_create D path))
     (\<lambda>_ w. (Ok (), w\<lparr>dw_files := (dw_files w)(path \<mapsto> [])\<rparr>))"

definition file_append :: "'f diff_ext \<Rightarrow> string \<Rightarrow> unit dio" where
  "file_append D path = dio_bind (dio_lift (dx_create D path))
     (\<lambda>_ w. (Ok (), if dw_files w path = None then w\<lparr>dw_files := (dw_files w)(path \<mapsto> [])\<rparr> else w))"

definition file_open :: "'f diff_ext \<Rightarrow> string \<Rightarrow> string dio" where
  "file_open D path = (\<lambda>w. (res_bind (dx_open D path) (\<lambda>_. ok_or ''No such file or directory'' (dw_files w path)), w))"

definition file_write :: "'f diff_ext \<Rightarrow> string \<Rightarrow> string \<Rightarrow> unit dio" where
  "file_write D path text = (\<lambda>w. let (r, written) = dx_write D path text; old = (case dw_files w path of Some s \<Rightarrow> s | None \<Rightarrow> [])
     in (r, w\<lparr>dw_files := (dw_files w)(path \<mapsto> old @ written)\<rparr>))"

section \<open>The hook\<close>

datatype diff_hook = WithCurrentDev | OnBaseBranch

definition diff_hook_new :: "bool \<Rightarrow> diff_hook" where
  "diff_hook_new is_base_branch = (if is_base_branch then OnBaseBranch else WithCurrentDev)"

definition cycles :: "execution_report \<Rightarrow> string \<Rightarrow> u64" where
  "cycles report name = of_nat (case xr_cycle_tracker report name of Some n \<Rightarrow> n | None \<Rightarrow> 0)"

definition stats_of :: "execution_report \<Rightarrow> stats" where
  "stats_of report = \<lparr>
     st_total_cycle_count = of_nat (xr_instructions report),
     st_deserialize_inputs = cycles report DESERIALZE_INPUTS,
     st_initialize_witness_db_cycles_count = cycles report INIT_WITNESS_DB,
     st_recover_senders_cycles_count = cycles report RECOVER_SENDERS,
     st_block_execution_cycles_count = cycles report BLOCK_EXECUTION,
     st_block_validation_cycles_count = cycles report VALIDATE_EXECUTION,
     st_state_root_computation_cycles_count = cycles report COMPUTE_STATE_ROOT,
     st_syscall_count = of_nat (xr_syscalls report),
     st_prover_gas = 0\<rparr>"

text \<open>
  \<open>current as i64 - initial as i64\<close>: the numbers are read as two's complement; with overflow checks a difference
  that does not fit is a panic.
\<close>

definition i64_sub :: "bool \<Rightarrow> u64 \<Rightarrow> u64 \<Rightarrow> ('e, 64 word) res" where
  "i64_sub checks a b = (if checks \<and> sint (a - b) \<noteq> sint a - sint b then Panic else Ok (a - b))"

definition diff_percentage :: "'f diff_ext \<Rightarrow> 'f \<Rightarrow> 'f \<Rightarrow> 'f" where
  "diff_percentage D initial current = dx_mul D (dx_div D (dx_sub D initial current) initial) (dx_minus_100 D)"

definition diff_row :: "'f diff_ext \<Rightarrow> u64 \<Rightarrow> string \<times> u64 \<times> u64 \<Rightarrow> (string, table_row) res" where
  "diff_row D number = (\<lambda>(label, initial, current).
     let diff = dx_format_2 D (diff_percentage D (dx_f64 D initial) (dx_f64 D current))
     in map_res (\<lambda>difference. [
          (''Block '' @ decimal (unat number), label),
          (''Base Branch'', dx_separate_u64 D initial),
          (''Current PR'', dx_separate_u64 D current),
          (''Diff'', dx_separate_i64 D difference),
          (''Diff (%)'', diff)]) (i64_sub (dx_overflow_checks D) current initial))"

definition comparison :: "execution_report \<Rightarrow> stats \<Rightarrow> (string \<times> u64 \<times> u64) list" where
  "comparison report current_dev_stats = [
     (''Total Cycle Count'', of_nat (xr_instructions report), st_total_cycle_count current_dev_stats),
     (''Inputs deserialization'', cycles report DESERIALZE_INPUTS, st_deserialize_inputs current_dev_stats),
     (''Initialize Witness DB'', cycles report INIT_WITNESS_DB, st_initialize_witness_db_cycles_count current_dev_stats),
     (''Recover Senders'', cycles report RECOVER_SENDERS, st_recover_senders_cycles_count current_dev_stats),
     (''Block Execution'', cycles report BLOCK_EXECUTION, st_block_execution_cycles_count current_dev_stats),
     (''Block Validation'', cycles report VALIDATE_EXECUTION, st_block_validation_cycles_count current_dev_stats),
     (''State Root Computation'', cycles report COMPUTE_STATE_ROOT, st_state_root_computation_cycles_count current_dev_stats),
     (''Syscall Count'', of_nat (xr_syscalls report), st_syscall_count current_dev_stats),
     (''Prover Gas'', 0, st_prover_gas current_dev_stats)]"

definition diff_on_execution_end :: "'f diff_ext \<Rightarrow> diff_hook \<Rightarrow> 'body block \<Rightarrow> execution_report \<Rightarrow> unit dio" where
  "diff_on_execution_end D self executed_block report = (case self of
     WithCurrentDev \<Rightarrow>
       dio_bind (file_create D ''cycle_stats.json'') (\<lambda>_.
       dio_bind (dio_lift (dx_to_json D (stats_of report))) (\<lambda>json.
         file_write D ''cycle_stats.json'' json))
   | OnBaseBranch \<Rightarrow>
       dio_bind (dio_lift (dx_var D ''GITHUB_OUTPUT'')) (\<lambda>path.
       dio_bind (file_open D ''cycle_stats.json'') (\<lambda>json.
       dio_bind (dio_lift (dx_from_json D json)) (\<lambda>current_dev_stats.
       dio_bind (file_append D path) (\<lambda>_.
       dio_bind (dio_lift (res_map (diff_row D (hd_number (bl_header executed_block))) (comparison report current_dev_stats))) (\<lambda>rows.
       let table = dx_mk_table D rows in
       dio_bind (\<lambda>w. (Ok (), w\<lparr>dw_printed := dw_printed w @ [table]\<rparr>)) (\<lambda>_.
       dio_bind (file_write D path (''EXECUTION_REPORT<<EOF'' @ [newline])) (\<lambda>_.
       dio_bind (file_write D path (table @ [newline])) (\<lambda>_.
         file_write D path (''EOF'' @ [newline]))))))))))"

section \<open>The test\<close>

text \<open>\<open>unwrap\<close> of a computation's result.\<close>

definition io_unwrap :: "('body, 'a) io \<Rightarrow> ('body, 'a) io" where
  "io_unwrap m = (\<lambda>w. case m w of (r, w') \<Rightarrow> (unwrap_res r, w'))"

text \<open>\<open>P\<close> are the third-party functions of the executor with the hook, \<open>new_http\<close> makes the provider.\<close>

definition test_in_zkvm ::
  "(diff_hook \<Rightarrow> ('pk, 'vk, 'body) prover_ext) \<Rightarrow> cli_env \<Rightarrow> ('v, 'json) chain_ext \<Rightarrow>
   ('v, 'cfg, 'body, 'bundle, 'receipt, 'request) guest_ext \<Rightarrow> (string \<Rightarrow> 'p) \<Rightarrow>
   ('p, ('v, 'cfg) host_executor, 'body) host_call \<Rightarrow> bytes \<Rightarrow> ('body, unit) io" where
  "test_in_zkvm P E C G new_http host elf =
     (let is_base_branch = (ce_var E ''BASE_BRANCH'' \<noteq> None); config = config_mainnet in
      io_bind (io_lift (unwrap_opt (ce_var E ''RPC_1''))) (\<lambda>url.
      io_bind (io_lift (unwrap_res (ce_url_parse E url))) (\<lambda>rpc_url.
      io_bind (io_lift (create_eth_block_execution_strategy_factory C G (cf_genesis config) (cf_custom_beneficiary config)))
        (\<lambda>factory.
      let provider = new_http rpc_url; prover = P (diff_hook_new is_base_branch) in
      io_bind (io_unwrap (build_executor prover (\<lambda>genesis. map_res (host_new factory) (eth_try_into_chain_spec E C genesis))
          elf (Some provider) None config)) (\<lambda>executor.
        io_unwrap (either_execute prover host executor 20600000))))))"

section \<open>Both runs together\<close>

text \<open>Below \<open>2^63\<close> the difference is exact, with or without overflow checks.\<close>

lemma uint_small: "unat a < 2 ^ 63 \<Longrightarrow> uint a < 2 ^ 63" for a :: "64 word"
proof -
  assume "unat a < 2 ^ 63"
  then have "int (unat a) < int (2 ^ 63)" by (simp only: of_nat_less_iff)
  then show ?thesis by simp
qed

lemma sint_small: "unat a < 2 ^ 63 \<Longrightarrow> sint a = uint a" for a :: "64 word"
proof -
  assume "unat a < 2 ^ 63"
  moreover have "- (2 ^ 63) \<le> uint a" by (rule order_trans [OF _ uint_ge_0]) simp
  ultimately have "signed_take_bit 63 (uint a) = uint a"
    using uint_small by (intro signed_take_bit_int_eq_self)
  then show ?thesis by (simp add: sint_uint)
qed

lemma sint_sub: "sint (a - b) = sint a - sint b" if "unat a < 2 ^ 63" "unat b < 2 ^ 63" for a b :: "64 word"
proof -
  have "- (2 ^ 63) \<le> uint a - uint b" "uint a - uint b < 2 ^ 63"
    using that [THEN uint_small] uint_ge_0 [of a] uint_ge_0 [of b] by linarith+
  then have "signed_take_bit 63 (uint a - uint b) = uint a - uint b" by (rule signed_take_bit_int_eq_self)
  then show ?thesis using that by (simp add: sint_word_ariths sint_small)
qed

lemma i64_sub_small:
  "unat a < 2 ^ 63 \<Longrightarrow> unat b < 2 ^ 63 \<Longrightarrow> i64_sub checks a b = Ok (a - b) \<and> sint (a - b) = uint a - uint b"
  by (simp add: i64_sub_def sint_sub sint_small)

text \<open>Beyond, the subtraction can overflow: a panic with the checks, a difference of the wrong sign without.\<close>

lemma i64_sub_overflow:
  "i64_sub True (2 ^ 63 - 1) (2 ^ 63 + 1) = Panic" "i64_sub False (2 ^ 63 - 1) (2 ^ 63 + 1) = Ok (-2)"
  by (simp_all add: i64_sub_def sint_uint)

text \<open>
  The row of a measured quantity, and the two runs: when the counts survive the JSON file and no operation
  on the files fails, the base branch appends the table that compares its own counts with those of the first
  run, and leaves the file of the counts as it is.
\<close>

definition fits_i64 :: "string \<times> u64 \<times> u64 \<Rightarrow> bool" where
  "fits_i64 = (\<lambda>(label, initial, current). unat initial < 2 ^ 63 \<and> unat current < 2 ^ 63)"

definition exact_row :: "'f diff_ext \<Rightarrow> u64 \<Rightarrow> string \<times> u64 \<times> u64 \<Rightarrow> table_row" where
  "exact_row D number = (\<lambda>(label, initial, current). [
     (''Block '' @ decimal (unat number), label), (''Base Branch'', dx_separate_u64 D initial),
     (''Current PR'', dx_separate_u64 D current), (''Diff'', dx_separate_i64 D (current - initial)),
     (''Diff (%)'', dx_format_2 D (diff_percentage D (dx_f64 D initial) (dx_f64 D current)))])"

lemma diff_row_exact: "fits_i64 x \<Longrightarrow> diff_row D number x = Ok (exact_row D number x)"
  by (cases x) (simp add: fits_i64_def diff_row_def exact_row_def i64_sub_small Let_def)

lemma diff_rows_exact: "list_all fits_i64 xs \<Longrightarrow> res_map (diff_row D number) xs = Ok (map (exact_row D number) xs)"
  by (induction xs) (simp_all add: diff_row_exact)

definition files_work :: "'f diff_ext \<Rightarrow> bool" where
  "files_work D \<longleftrightarrow> (\<forall>path text. dx_create D path = Ok () \<and> dx_open D path = Ok () \<and> dx_write D path text = (Ok (), text))"

lemma stored_counts:
  assumes "files_work D" and "dx_to_json D (stats_of report) = Ok json"
  shows "diff_on_execution_end D WithCurrentDev block report w = (Ok (), w\<lparr>dw_files := (dw_files w)(''cycle_stats.json'' \<mapsto> json)\<rparr>)"
  using assms by (simp add: diff_on_execution_end_def dio_bind_def dio_lift_def file_create_def file_write_def files_work_def)

lemma compared_counts:
  assumes "files_work D" and "dx_var D ''GITHUB_OUTPUT'' = Ok path" and "path \<noteq> ''cycle_stats.json''"
    and "dw_files w ''cycle_stats.json'' = Some json" and "dx_from_json D json = Ok s"
    and "list_all fits_i64 (comparison report s)"
    and table: "table = dx_mk_table D (map (exact_row D (hd_number (bl_header block))) (comparison report s))"
    and old: "old = (case dw_files w path of Some text \<Rightarrow> text | None \<Rightarrow> [])"
  shows "diff_on_execution_end D OnBaseBranch block report w = (Ok (), w\<lparr>
    dw_files := (dw_files w)(path \<mapsto> old @ ''EXECUTION_REPORT<<EOF'' @ [newline] @ table @ [newline] @ ''EOF'' @ [newline]),
    dw_printed := dw_printed w @ [table]\<rparr>)"
  using assms(1-5) diff_rows_exact [OF assms(6), of D "hd_number (bl_header block)"]
  by (simp add: diff_on_execution_end_def dio_bind_def dio_lift_def file_append_def file_open_def file_write_def files_work_def
      table old Let_def)

end
