(* ===== verification/End_To_End.thy ===== *)
theory End_To_End
  imports Host_Properties Cli
begin

text \<open>
  \<open>crates/executor/host/tests/integration.rs\<close>: a block is executed by the host, the input it returns by the
  guest's executor, and the input is serialised and read back. Each test names a chain, a variable with the
  URL, a block and possibly a beneficiary. (The test of Optimism runs the same steps with the executors of that
  chain; it is not modelled.)
\<close>

section \<open>The tests\<close>

text \<open>
  \<open>new_http\<close> makes a provider of a URL, \<open>ext_of\<close> and \<open>ops_of\<close> are what the host executor uses of it,
  \<open>serialize\<close> is \<open>bincode\<close>; the other parameters are those of the host and of the guest.
\<close>

definition run_e2e where
  "run_e2e S H K V G E ext_of ops_of new_http serialize host_executor client_executor env_var_key block_number genesis
     beneficiary =
     res_bind (unwrap_opt (ce_var E env_var_key)) (\<lambda>url.
     res_bind (unwrap_res (ce_url_parse E url)) (\<lambda>rpc_url.
     let provider = new_http rpc_url in
     res_bind (unwrap_res (host_execute S H K V G (ext_of provider) (ops_of provider provider) host_executor block_number
         genesis beneficiary False)) (\<lambda>client_input.
     res_bind (unwrap_res (client_execute S H K G client_executor client_input)) (\<lambda>_.
     res_bind (unwrap_opt (serialize client_input)) (\<lambda>buffer.
     res_bind (unwrap_opt (deserialize_input G buffer)) (\<lambda>_. (Ok () :: (string, unit) res)))))))"

definition run_eth_e2e where
  "run_eth_e2e S H K V C G E ext_of ops_of new_http serialize genesis env_var_key block_number beneficiary =
     res_bind (unwrap_res (chain_spec_of_genesis C genesis)) (\<lambda>chain_spec.
       run_e2e S H K V G E ext_of ops_of new_http serialize (host_eth G chain_spec beneficiary) (eth G chain_spec beneficiary)
         env_var_key block_number genesis beneficiary)"

definition test_e2e_ethereum where
  "test_e2e_ethereum S H K V C G E ext_of ops_of new_http serialize =
     run_eth_e2e S H K V C G E ext_of ops_of new_http serialize Mainnet ''RPC_1'' 18884864 None"

definition test_e2e_linea where
  "test_e2e_linea S H K V C G E ext_of ops_of new_http serialize =
     run_eth_e2e S H K V C G E ext_of ops_of new_http serialize Linea ''RPC_59144'' 5600000
       (Some 0x8f81e2e3f8b46467523463835f965ffe476e1c9e)"

definition test_e2e_sepolia where
  "test_e2e_sepolia S H K V C G E ext_of ops_of new_http serialize =
     run_eth_e2e S H K V C G E ext_of ops_of new_http serialize Sepolia ''RPC_11155111'' 6804324 None"

section \<open>When a test passes\<close>

text \<open>The executors of a test have the same configuration.\<close>

lemma guest_of_host_eth: "guest_of (host_eth G chain_spec beneficiary) = eth G chain_spec beneficiary"
  by (simp add: guest_of_def host_eth_def eth_def)

lemma host_eth_sel:
  "he_evm_config (host_eth G spec b) = new_with_evm_factory G spec b" "he_chain_spec (host_eth G spec b) = spec"
  by (simp_all add: host_eth_def)

text \<open>
  With an execution witness a test passes as soon as the host returns an input: its guest accepts this input,
  when the block executor is one program of reads that finds every storage it reads in the witness.
\<close>

lemma e2e_passes:
  assumes "ce_var E key = Some url" and "ce_url_parse E url = Ok rpc_url" and "chain_spec_of_genesis C genesis = Ok spec"
    and p: "p = new_http rpc_url"
    and host: "host_execute S H K V G (ext_of p) (witness_rpc_db_ops S N p) (host_eth G spec beneficiary) n genesis beneficiary
      False = Ok input"
    and "host_runs (ext_of p) (wrap_witness_db display S H) (new_with_evm_factory G spec beneficiary) program"
    and "guest_runs G (new_with_evm_factory G spec beneficiary) False program"
    and "hashes_alike S G (ext_of p)" and "seal_laws H" and "code_hashes S H (input_bytecodes input)"
    and covered: "\<And>chain_id db senders. chain_id_of_genesis genesis = Ok chain_id \<Longrightarrow>
      ew_new S N p (n - 1) (hd_state_root (rpc_header previous)) = Ok db \<Longrightarrow>
      recover_senders G (current_block input) = Some senders \<Longrightarrow>
      slots_covered display S H db (program chain_id \<lparr>rb_block = current_block input, rb_senders = senders\<rparr>)"
    and "state_inv S (parent_state input)"
    and "get_full_block (ext_of p) (n - 1) = Ok (Some previous)" and "ancestor_headers input = rpc_header previous # rest"
    and "linked (sealed_headers H input)" and "validate_chain K spec (sealed_headers H input) = Ok ()"
    and "serialize input = Some buffer" and "deserialize_input G buffer \<noteq> None"
  shows "run_eth_e2e S H K V C G E ext_of (\<lambda>provider _. witness_rpc_db_ops S N provider) new_http serialize genesis key n
    beneficiary = Ok ()"
proof -
  have "client_execute S H K G (guest_of (host_eth G spec beneficiary)) input =
      Ok (bl_header (current_block input), hd_state_root (rpc_header previous))"
    by (rule witness_input_accepted [OF host, where display = display and program = program and rest = rest])
      (use assms(6-10,12-16) covered in \<open>simp_all add: host_eth_sel\<close>)
  then show ?thesis
    using assms(1-3,17,18) host by (auto simp: run_eth_e2e_def run_e2e_def guest_of_host_eth p)
qed

end
