(* ===== verification/Spec2Isabelle.thy ===== *)
theory Spec2Isabelle
  imports Mpt_Properties State_Properties Guest_Properties Soundness_Properties Host_Properties Driver_Properties
    Mpt_Order Mpt_Debug Test_Vectors Test_Keccak Test_Chains Cycle_Report
    End_To_End
begin

text \<open>
  A verification development of \<open>reth-processor\<close>, which proves the execution of Ethereum blocks in
  a zkVM.

  \<^bold>\<open>The program.\<close> A host executes a block against an RPC endpoint, records what the block reads,
  and packs it, as Merkle proofs, into an input for a guest program. The guest rebuilds the
  state from the input, checks it against the headers of the parent blocks, executes the block
  again on it, applies the changes to its sparse Merkle Patricia tries, compares the state root
  with the header, and commits the block hash. Three binaries drive this: \<open>host\<close> for one block,
  \<open>continuous\<close> for all blocks from a number on, and \<open>eth-proofs\<close> for the blocks of a subscription.

  \<^bold>\<open>The theories\<close>, bottom up (file names under \<open>src/\<close>):
  \<^item> \<open>Prelude\<close>, \<open>Nibbles\<close>: results that are \<open>Ok\<close>, \<open>Err\<close> or a panic, bytes and words, hash maps
    as association lists; nibble paths and their hex-prefix encoding.
  \<^item> \<open>Externs\<close>, \<open>Rlp_Instance\<close>: the third-party functions the tries use (RLP, keccak) as one
    record, the laws assumed of them, and an instance that satisfies the laws.
  \<^item> \<open>Mpt_Node\<close>, \<open>Mpt_Reference\<close>, \<open>Mpt_Decode\<close>, \<open>Mpt_Proofs\<close>, \<open>Trie_Walk\<close>, \<open>Mpt_Order\<close>,
    \<open>Mpt_Debug\<close>:
    \<open>crates/mpt/src/mpt.rs\<close>. A node is the Rust struct: its data and the cached reference. A
    mutating method is a function to the new node and the result, so what it leaves behind on an
    error is part of the model.
  \<^item> \<open>Mpt_Map\<close>, \<open>Mpt_Insert\<close>, \<open>Mpt_Delete\<close>, \<open>Mpt_Canonical\<close>, \<open>Mpt_Auth\<close>: the canonical form and
    its preservation, what \<open>get\<close> answers after every operation, equality of canonical tries
    with the same contents, and what a hash commits to. \<open>Mpt_Conflicts\<close> shows when \<open>insert\<close> reports
    \<open>ValueInBranch\<close>. \<open>Mpt_Kinds\<close> shows that decoding and insertion keep
    the kind of a node and the flag of its path in agreement, which the other theorems need.
  \<^item> \<open>Sparse_Map\<close>, \<open>Mpt_Interface\<close>: the locale of a partially known map (\<open>get\<close>, \<open>insert\<close>,
    \<open>delete\<close> with three kinds of answer), and the tries as its interpretation. The state update
    is proved over this locale.
  \<^item> \<open>Eth_State\<close>, \<open>Eth_Update\<close>, \<open>Exec_Witness\<close>: \<open>crates/mpt/src/lib.rs\<close> and
    \<open>execution_witness.rs\<close>: the state of accounts and storage tries, its three constructors,
    \<open>update\<close> and \<open>state_root\<close>. \<open>Eth_Orphans\<close> shows what the nodes added for deletions are for.
  \<^item> \<open>Primitives\<close>: \<open>crates/primitives\<close>.
  \<^item> \<open>Database\<close>, \<open>Witness_Db\<close>, \<open>Validators\<close>, \<open>Client_Executor\<close>: \<open>crates/executor/guest\<close>, namely
    \<open>io.rs\<close>, \<open>into_primitives.rs\<close>, \<open>executor.rs\<close>, \<open>lib.rs\<close> and the guest's \<open>main\<close>. \<open>Database\<close> is
    the locale of a database over a state; the guest's and the host's databases interpret it.
    \<open>Forged_Witness\<close> holds the lemmas on witnesses that are accepted although they misstate a storage.
  \<^item> \<open>Tracking\<close>, \<open>Report\<close>: \<open>tracking/block_executor.rs\<close> and the executor chosen in \<open>executor.rs\<close>;
    \<open>custom.rs\<close>, the \<open>profile\<close> macros of \<open>utils.rs\<close>, and the report hook of the host, which reads the cycle
    counts that these print.
  \<^item> \<open>Rpc_Db\<close>, \<open>Rpc_Reads\<close>, \<open>Witness_Rpc_Db\<close>: \<open>crates/storage\<close>: the two databases over an RPC
    endpoint, with their locks, and the map database.
  \<^item> \<open>Host_Executor\<close>, \<open>Full_Executor\<close>, \<open>Continuous\<close>, \<open>Cli\<close>: \<open>crates/executor/host\<close> and
    the binaries. The locale \<open>rpc_db\<close> of \<open>Host_Executor\<close> is the contract of the two RPC
    databases. \<open>Db_Program\<close> and \<open>Host_Guest\<close>: a block executor as a program of reads over either side's
    database, and why the guest accepts an input of the host. The computations of \<open>Full_Executor\<close> act on a
    world of the cache files (by folder, chain and number), the hook calls, the logged block hashes and the
    process-wide \<open>ELF_ID\<close>; the rules of \<open>keeps\<close> say which parts of it a computation leaves alone. The driver of \<open>Continuous\<close> is a step relation, each
    step being an action of the main loop or of one task.
  \<^item> \<open>Mpt_Properties\<close>, \<open>State_Properties\<close>, \<open>Guest_Properties\<close>, \<open>Soundness_Properties\<close>,
    \<open>Host_Properties\<close>, \<open>Driver_Properties\<close>: the properties \<open>C1\<close> to \<open>C40\<close>, each with an instance at a concrete
    input where it has hypotheses.
  \<^item> \<open>Test_Vectors\<close>, \<open>Test_Keccak\<close>: the unit tests of \<open>mpt.rs\<close> with a fixed input, which the model
    passes, and \<open>test_keccak_trie\<close>, which it passes for any number of keys without a collision;
    \<open>Test_Chains\<close>: the tests of the chain specifications.
  \<^item> \<open>End_To_End\<close>, \<open>Cycle_Report\<close>: the integration tests: host and guest on one block, with the conditions under
    which they agree, and the comparison of cycle counts of two branches.

  \<^bold>\<open>What is shown.\<close>
  \<^item> The guest: when \<open>verify_block\<close> returns, the hash is the hash of the input's block, the block was
    executed on a state whose root is in the header of its parent, and the state root after it is the
    header's; two runs that commit the same hash worked on the same header and the same state roots.
    The answers of the guest's database are determined by the state root, if the nodes of the witness
    are of the kind that their paths say.
  \<^item> Where the guest's checks fall short: nothing checks the kinds of the nodes of a deserialised
    witness, nor that the storage trie of a changed account is present. A witness can hide a
    storage, or reset it to the empty trie, and is accepted (\<open>Soundness_Properties\<close>).
  \<^item> The state: each constructor returns only states with the expected root; \<open>update\<close> applies exactly
    the post state, in any order of the hash maps, and panics exactly when a part that it needs is
    not in the witness.
  \<^item> The tries: the effect of \<open>insert\<close> and \<open>delete\<close> on every key, the canonical form,
    coherence of the reference caches, round trips, the typing of decoded nodes, independence of the
    history of updates, and the soundness of inclusion and exclusion proofs.
  \<^item> The host: it requests exactly the proofs of what the block read, and an input it returns has passed
    its checks; the guest accepts an input made from an execution witness, for every block executor that is a
    program of reads and finds the storage it reads in the witness. End to end, the hash that is logged for a
    number is the hash of the provider's block with this number.
  \<^item> The drivers: the cache round trip, the bounds on retries, the invariant of the concurrent tasks,
    when the drivers stop, and which blocks they execute; a block that the driver counts as done
    was verified by the guest. The codec of the inputs is taken to read back what it wrote up to the cached
    references, which the program does not serialise (\<open>same_input\<close>). Several of these properties state behaviour that is probably not
    intended (a retry too many, panicked blocks skipped in silence, a report header with one column
    too many and a refused row left in the file, a custom genesis that panics for every block without a cached
    input, proving from the cache without \<open>ELF_ID\<close>).

  \<^bold>\<open>Recursion and bounds.\<close> The tries are finite trees and their operations structural
  recursions. \<open>decode\<close> has one unit of fuel more than the input has bytes, and a nested item is shorter
  than its container, so the fuel never runs out (\<open>decode_returns\<close>). \<open>resolve_nodes\<close> follows
  references through a map of nodes; a cycle would overflow the stack of the program, which is a
  panic of the model; the fuel is a bound on the length of a chain without a repetition
  (\<open>resolved_trie\<close> states when a result exists). The retry loops end by a measure; \<open>wait_for_block\<close> is a partial function
  whose result exists iff the provider ever answers. Numbers of blocks are 64-bit words where the code
  computes with them; the subtractions wrap as in a release build. The driver counts blocks with natural
  numbers: it would take \<open>2^64\<close> blocks to notice. \<open>AtomicBool\<close> accesses are taken in one order,
  although they are relaxed: a store that becomes visible late only delays the stop.

  \<^bold>\<open>Parameters.\<close> Third-party code is an argument of the definitions: RLP and keccak, the
  EVM and its configuration, the consensus rules of \<open>reth\<close> (the model keeps the repository's own
  dispatch and relaxations around them), hard-fork tables, \<open>bincode\<close>, the zkVM and its prover, the RPC
  endpoint, the file system, environment variables and the file operations of the cache. Where a theorem relies on the behaviour of one, the
  statement says so by a named predicate or a hypothesis.

  \<^bold>\<open>Not modelled.\<close> The generated (de)serialisers (\<open>serde\<close>, \<open>rkyv\<close>, \<open>clap\<close>); durations and
  logging, which do not affect results (the logged block hashes and alerts are modelled); the HTTP and web-socket clients (the posts and alerts are modelled by their contents);
  the retry layer of the RPC client (its policy and limits are modelled); the \<open>tokio\<close> runtime
  beyond the interleaving of tasks; the build scripts; the end-to-end test of Optimism, which runs the executors of
  that chain; and \<open>test_index_trie\<close>, whose keys have different lengths (the theory of canonical tries here is for
  keys of one length, as in the state and storage tries).
\<close>

end
